(* ===== verification/Csi_Prelude.thy ===== *)
theory Csi_Prelude
  imports Main "HOL-Library.Sublist"
begin

text \<open>
  Shared vocabulary of the development: Go error values and results, the 64-bit wrap-around of
  Go's \<open>int\<close> and \<open>int64\<close>, the association between early returns and the sum type, and the
  generic lemmas on lists and finite maps that several components use.
\<close>

text \<open>
  Collections: the definitions of the publishers' handlers, which the routing proofs unfold
  together, and the facts that an operation of the node leaves a path alone.
\<close>

named_theorems publisher_defs "definitions of the handlers of the publishers"
named_theorems frames "operations that leave a path of the node as it was"

section \<open>Errors as values\<close>

text \<open>
  A Go error is a value. \<open>Errorf\<close> is a fresh error with its format string and its string
  arguments; \<open>Wrapf\<close> is \<open>fmt.Errorf\<close> with \<open>%w\<close>, which keeps the wrapped error
  reachable for \<open>errors.Is\<close>; \<open>Errorv\<close> prints an error with \<open>%v\<close> and does not wrap it; \<open>Wrapv\<close> wraps one error and prints another with \<open>%v\<close>;
  \<open>Statusf\<close> is \<open>status.Errorf\<close> of gRPC with its code, which prints an error without
  wrapping it; the sentinels of the code are constructors of their own, and
  \<open>ExtErr\<close> is any other error that comes from outside the program.
\<close>

datatype goerr =
    Errorf string "string list"
  | Wrapf string "string list" goerr
  | Wrapv string "string list" goerr goerr
  | Errorv string "string list" goerr
  | Statusf string string "string list" "goerr option"
  | ErrItemNotFound
  | ErrNotExist
  | ExtErr string

type_synonym 'a res = "goerr + 'a"

fun errors_is :: "goerr \<Rightarrow> goerr \<Rightarrow> bool" where
  "errors_is (Wrapf m as e) t = (Wrapf m as e = t \<or> errors_is e t)"
| "errors_is (Wrapv m as e s) t = (Wrapv m as e s = t \<or> errors_is e t)"
| "errors_is e t = (e = t)"

text \<open>\<open>if err != nil { return err }\<close> in front of the rest of a function.\<close>

fun and_then :: "'a res \<Rightarrow> ('a \<Rightarrow> 'b res) \<Rightarrow> 'b res" where
  "and_then (Inl e) f = Inl e"
| "and_then (Inr a) f = f a"

text \<open>\<open>if err != nil { return fmt.Errorf(m, ..., err) }\<close>.\<close>

fun wrap_err :: "string \<Rightarrow> string list \<Rightarrow> 'a res \<Rightarrow> 'a res" where
  "wrap_err m as (Inl e) = Inl (Wrapf m as e)"
| "wrap_err m as (Inr a) = Inr a"

text \<open>A loop over a list whose body may return an error, which ends the loop.\<close>

fun for_each :: "('x \<Rightarrow> 's \<Rightarrow> 's res) \<Rightarrow> 'x list \<Rightarrow> 's \<Rightarrow> 's res" where
  "for_each f [] s = Inr s"
| "for_each f (x # xs) s = (case f x s of Inl e \<Rightarrow> Inl e | Inr s' \<Rightarrow> for_each f xs s')"

lemma for_each_append:
  "for_each f (xs @ ys) s = (case for_each f xs s of Inl e \<Rightarrow> Inl e | Inr s' \<Rightarrow> for_each f ys s')"
  by (induction xs arbitrary: s) (auto split: sum.splits)

lemma for_each_invariant:
  assumes "for_each f xs s = Inr s'" "P s"
    and "\<And>x s s'. x \<in> set xs \<Longrightarrow> P s \<Longrightarrow> f x s = Inr s' \<Longrightarrow> P s'"
  shows "P s'"
  using assms
proof (induction xs arbitrary: s)
  case (Cons x xs)
  then obtain s1 where s1: "f x s = Inr s1" "for_each f xs s1 = Inr s'"
    by (auto split: sum.splits)
  then have "P s1" using Cons.prems(3) [of x s s1] Cons.prems(2) by simp
  moreover have "\<And>y s s'. y \<in> set xs \<Longrightarrow> P s \<Longrightarrow> f y s = Inr s' \<Longrightarrow> P s'"
    using Cons.prems(3) by (meson list.set_intros(2))
  ultimately show ?case using Cons.IH [OF s1(2)] by blast
qed simp

lemma and_then_Inr [simp]: "and_then r f = Inr b \<longleftrightarrow> (\<exists>a. r = Inr a \<and> f a = Inr b)"
  by (cases r) auto

lemma wrap_err_Inr [simp]: "wrap_err m as r = Inr a \<longleftrightarrow> r = Inr a"
  by (cases r) auto

section \<open>Go integers\<close>

text \<open>
  \<open>int\<close> (on the supported 64-bit platforms) and \<open>int64\<close> are two's complement: the result of
  an addition is brought back into the signed 64-bit range.
\<close>

definition wrap64 :: "int \<Rightarrow> int" where
  "wrap64 x = (x + 2 ^ 63) mod 2 ^ 64 - 2 ^ 63"

definition in_int64 :: "int \<Rightarrow> bool" where
  "in_int64 x \<longleftrightarrow> - (2 ^ 63) \<le> x \<and> x < 2 ^ 63"

lemma wrap64_id: "in_int64 x \<Longrightarrow> wrap64 x = x"
  by (simp add: wrap64_def in_int64_def)

lemma wrap64_range: "in_int64 (wrap64 x)"
proof -
  have "0 \<le> (x + 2 ^ 63) mod 2 ^ 64" "(x + 2 ^ 63) mod 2 ^ 64 < (2 ^ 64 :: int)"
    by simp_all
  then show ?thesis by (simp add: wrap64_def in_int64_def)
qed

lemma wrap64_idem [simp]: "wrap64 (wrap64 x) = wrap64 x"
  by (rule wrap64_id) (rule wrap64_range)

lemma wrap64_add_left [simp]: "wrap64 (wrap64 x + y) = wrap64 (x + y)"
proof -
  have "(wrap64 x + y + 2 ^ 63) mod 2 ^ 64 = ((x + 2 ^ 63) mod 2 ^ 64 + y) mod 2 ^ 64"
    by (simp add: wrap64_def algebra_simps)
  also have "\<dots> = (x + y + 2 ^ 63) mod 2 ^ 64"
    by (simp add: mod_simps algebra_simps)
  finally show ?thesis by (simp add: wrap64_def)
qed

lemma wrap64_add_right [simp]: "wrap64 (y + wrap64 x) = wrap64 (y + x)"
  using wrap64_add_left [of x y] by (simp add: add.commute)

section \<open>Lists and finite maps\<close>

lemma card_upd_other:
  assumes "finite A" "x \<notin> A"
  shows "int (card (insert x A)) = int (card A) + 1"
  using assms by simp

lemma card_remove:
  assumes "finite A" "x \<in> A"
  shows "int (card (A - {x})) = int (card A) - 1"
  using assms by (metis add_diff_cancel_right' card_Suc_Diff1 of_nat_1 of_nat_Suc add.commute)

end
