(* ===== verification/Go_Paths.thy ===== *)
theory Go_Paths
  imports Csi_Prelude
begin

text \<open>
  The functions of Go's packages \<open>strings\<close> and \<open>path/filepath\<close> that the driver calls, on a
  Unix system (separator \<open>/\<close>, no volume names). A Go string is a sequence of bytes, here a
  \<open>char list\<close>. Lexical path functions work on the list of a path's elements.
  The last section gives the lemmas the components share: paths below an absolute directory.
\<close>

section \<open>Package strings\<close>

definition has_prefix :: "string \<Rightarrow> string \<Rightarrow> bool" where
  "has_prefix s p = prefix p s"

definition trim_prefix :: "string \<Rightarrow> string \<Rightarrow> string" where
  "trim_prefix s p = (if has_prefix s p then drop (length p) s else s)"

definition str_contains :: "string \<Rightarrow> string \<Rightarrow> bool" where
  "str_contains s sub = list_ex (\<lambda>t. prefix sub t) (suffixes s)"

text \<open>\<open>strings.Split(s, sep)\<close> with a separator of one byte.\<close>

fun split_on :: "char \<Rightarrow> string \<Rightarrow> string list" where
  "split_on c [] = [[]]"
| "split_on c (x # xs) =
     (if x = c then [] # split_on c xs
      else (case split_on c xs of [] \<Rightarrow> [[x]] | w # ws \<Rightarrow> (x # w) # ws))"

text \<open>\<open>strings.Join(ws, sep)\<close>, again with one byte.\<close>

fun join_on :: "char \<Rightarrow> string list \<Rightarrow> string" where
  "join_on c [] = []"
| "join_on c [w] = w"
| "join_on c (w # ws) = w @ c # join_on c ws"

text \<open>
  \<open>strings.TrimSpace\<close> removes white space as Unicode defines it. The encodings, in UTF-8:
  the ASCII spaces, U+0085, U+00A0, U+1680, U+2000 to U+200A, U+2028, U+2029, U+202F, U+205F
  and U+3000.
\<close>

definition space_encodings :: "string list" where
  "space_encodings =
     map (\<lambda>n. [char_of n]) [9 :: nat, 10, 11, 12, 13, 32] @
     map (map char_of)
       ([[0xC2, 0x85], [0xC2, 0xA0], [0xE1, 0x9A, 0x80], [0xE2, 0x80, 0xA8], [0xE2, 0x80, 0xA9],
         [0xE2, 0x80, 0xAF], [0xE2, 0x81, 0x9F], [0xE3, 0x80, 0x80]] @
        map (\<lambda>n. [0xE2, 0x80, n]) [0x80 :: nat ..< 0x8B])"

definition leading_space :: "string list \<Rightarrow> string \<Rightarrow> string option" where
  "leading_space encs s = find (\<lambda>e. e \<noteq> [] \<and> prefix e s) encs"

function trim_left_enc :: "string list \<Rightarrow> string \<Rightarrow> string" where
  "trim_left_enc encs s =
     (case leading_space encs s of None \<Rightarrow> s | Some e \<Rightarrow> trim_left_enc encs (drop (length e) s))"
  by pat_completeness auto
termination
proof (relation "measure (\<lambda>(encs, s). length s)", simp)
  fix encs :: "string list" and s e :: string
  assume "leading_space encs s = Some e"
  then have "e \<noteq> []" "prefix e s"
    by (auto simp: leading_space_def find_Some_iff)
  then show "((encs, drop (length e) s), (encs, s)) \<in> measure (\<lambda>(encs, s). length s)"
    by (auto simp: prefix_def)
qed

declare trim_left_enc.simps [simp del]

definition trim_space :: "string \<Rightarrow> string" where
  "trim_space s =
     rev (trim_left_enc (map rev space_encodings) (rev (trim_left_enc space_encodings s)))"

lemma split_on_nonempty [simp]: "split_on c s \<noteq> []"
  by (induction s) (auto split: list.splits)

lemma join_split [simp]: "join_on c (split_on c s) = s"
proof (induction s)
  case Nil
  show ?case by simp
next
  case (Cons x xs)
  obtain w ws where w: "split_on c xs = w # ws"
    by (meson list.exhaust split_on_nonempty)
  then show ?case using Cons by (cases ws) auto
qed

lemma split_on_words: "w \<in> set (split_on c s) \<Longrightarrow> c \<notin> set w"
proof (induction s arbitrary: w)
  case (Cons x xs)
  obtain v vs where v: "split_on c xs = v # vs"
    by (meson list.exhaust split_on_nonempty)
  then show ?case using Cons by (auto split: if_splits)
qed simp

lemma split_on_word: "c \<notin> set w \<Longrightarrow> split_on c w = [w]"
  by (induction w) auto

lemma split_on_append:
  "c \<notin> set w \<Longrightarrow> split_on c (w @ c # s) = w # split_on c s"
  by (induction w) auto

lemma split_join:
  "ws \<noteq> [] \<Longrightarrow> \<forall>w\<in>set ws. c \<notin> set w \<Longrightarrow> split_on c (join_on c ws) = ws"
  by (induction c ws rule: join_on.induct) (auto simp: split_on_word split_on_append)

lemma split_on_subset: "w \<in> set (split_on c s) \<Longrightarrow> set w \<subseteq> set s"
proof (induction s arbitrary: w)
  case (Cons x xs)
  obtain v vs where v: "split_on c xs = v # vs"
    by (meson list.exhaust split_on_nonempty)
  then have "set v \<subseteq> set xs" "\<And>u. u \<in> set vs \<Longrightarrow> set u \<subseteq> set xs"
    using Cons.IH by auto
  then show ?case using Cons.prems v by (fastforce split: if_splits)
qed simp

lemma trim_left_enc_suffix: "suffix (trim_left_enc encs s) s"
proof (induction encs s rule: trim_left_enc.induct)
  case (1 encs s)
  show ?case
  proof (cases "leading_space encs s")
    case None
    then show ?thesis by (simp add: trim_left_enc.simps [of encs s])
  next
    case (Some e)
    with 1 have "suffix (trim_left_enc encs (drop (length e) s)) (drop (length e) s)" by blast
    then show ?thesis
      using Some by (auto simp: trim_left_enc.simps [of encs s] intro: suffix_order.trans suffix_drop)
  qed
qed

lemma trim_left_enc_done: "leading_space encs (trim_left_enc encs s) = None"
proof (induction encs s rule: trim_left_enc.induct)
  case (1 encs s)
  then show ?case
    by (cases "leading_space encs s") (simp_all add: trim_left_enc.simps [of encs s])
qed

lemma trim_space_subset: "set (trim_space s) \<subseteq> set s"
proof -
  have "set (trim_left_enc encs t) \<subseteq> set t" for encs t
    using trim_left_enc_suffix by (rule set_mono_suffix)
  from this [of "map rev space_encodings" "rev (trim_left_enc space_encodings s)"]
       this [of space_encodings s]
  show ?thesis by (simp add: trim_space_def)
qed

section \<open>Package path/filepath\<close>

definition slash :: char where "slash = CHR ''/''"

abbreviation words_of :: "string \<Rightarrow> string list" where
  "words_of \<equiv> split_on slash"

definition rooted :: "string \<Rightarrow> bool" where
  "rooted p = (case p of [] \<Rightarrow> False | c # _ \<Rightarrow> c = slash)"

text \<open>
  \<open>filepath.Clean\<close>: elements are read from the left with the elements kept so far on a stack.
  Empty elements and \<open>.\<close> vanish; \<open>..\<close> removes the element before it, is dropped at the
  root, and is kept where a relative path has nothing left to remove.
\<close>

fun clean_step :: "bool \<Rightarrow> string \<Rightarrow> string list \<Rightarrow> string list" where
  "clean_step r w st =
     (if w = [] \<or> w = ''.'' then st
      else if w = ''..'' then
        (case st of
           [] \<Rightarrow> if r then [] else [''..'']
         | t # ts \<Rightarrow> if t = ''..'' then ''..'' # st else ts)
      else w # st)"

definition clean_words :: "bool \<Rightarrow> string list \<Rightarrow> string list" where
  "clean_words r ws = rev (fold (clean_step r) ws [])"

definition render :: "bool \<Rightarrow> string list \<Rightarrow> string" where
  "render r ws =
     (if r then slash # join_on slash ws else if ws = [] then ''.'' else join_on slash ws)"

definition path_clean :: "string \<Rightarrow> string" where
  "path_clean p = render (rooted p) (clean_words (rooted p) (words_of p))"

text \<open>\<open>filepath.Join\<close>: empty elements are ignored; nothing to join is the empty string.\<close>

definition path_join :: "string list \<Rightarrow> string" where
  "path_join ps =
     (case filter (\<lambda>p. p \<noteq> []) ps of [] \<Rightarrow> [] | qs \<Rightarrow> path_clean (join_on slash qs))"

text \<open>\<open>filepath.Dir\<close>: all but the last element, cleaned.\<close>

definition path_dir :: "string \<Rightarrow> string" where
  "path_dir p = path_clean (rev (dropWhile (\<lambda>c. c \<noteq> slash) (rev p)))"

text \<open>
  \<open>filepath.Rel\<close> compares the elements of the two cleaned paths, drops the common ones, and
  goes up once for each element of the base that is left.
\<close>

fun drop_common :: "string list \<Rightarrow> string list \<Rightarrow> string list \<times> string list" where
  "drop_common (b # bs) (t # ts) = (if b = t then drop_common bs ts else (b # bs, t # ts))"
| "drop_common bs ts = (bs, ts)"

definition rel_words :: "string \<Rightarrow> string list" where
  "rel_words p = (if p = [slash] then [[]] else words_of p)"

definition path_rel :: "string \<Rightarrow> string \<Rightarrow> string res" where
  "path_rel basepath targpath =
     (let base = path_clean basepath; targ = path_clean targpath in
      if targ = base then Inr ''.''
      else if rooted base \<noteq> rooted targ
      then Inl (Errorf ''Rel: can't make %s relative to %s'' [targpath, basepath])
      else
        (case drop_common (if base = ''.'' then [] else rel_words base) (rel_words targ) of (bs, ts) \<Rightarrow>
           if bs \<noteq> [] \<and> ts \<noteq> [] \<and> hd bs = ''..''
           then Inl (Errorf ''Rel: can't make %s relative to %s'' [targpath, basepath])
           else Inr (join_on slash (replicate (length bs) ''..'' @ ts))))"

section \<open>Absolute paths and the tree below a directory\<close>

text \<open>
  A plain word is one that names a directory entry. An absolute clean path is \<open>abs_path ws\<close>
  for a list of plain words, and \<open>below p q\<close> says that \<open>q\<close> is \<open>p\<close> or lies in the
  tree under \<open>p\<close>.
\<close>

definition plain :: "string \<Rightarrow> bool" where
  "plain w \<longleftrightarrow> w \<noteq> [] \<and> w \<noteq> ''.'' \<and> w \<noteq> ''..'' \<and> slash \<notin> set w"

definition abs_path :: "string list \<Rightarrow> string" where
  "abs_path ws = slash # join_on slash ws"

definition clean_abs :: "string \<Rightarrow> bool" where
  "clean_abs p \<longleftrightarrow> rooted p \<and> path_clean p = p"

definition below :: "string \<Rightarrow> string \<Rightarrow> bool" where
  "below p q \<longleftrightarrow> prefix (rel_words p) (rel_words q)"

definition unrelated :: "string \<Rightarrow> string \<Rightarrow> bool" where
  "unrelated p q \<longleftrightarrow> \<not> below p q \<and> \<not> below q p"

lemma rooted_abs [simp]: "rooted (abs_path ws)"
  by (simp add: rooted_def abs_path_def)

lemma slash_dots [simp]: "slash \<notin> set ''.''" "slash \<notin> set ''..''"
  by (simp_all add: slash_def)

lemma fold_plain:
  "\<forall>w\<in>set ws. plain w \<Longrightarrow> fold (clean_step r) ws st = rev ws @ st"
  by (induction ws arbitrary: st) (auto simp: plain_def)

lemma clean_words_plain: "\<forall>w\<in>set ws. plain w \<Longrightarrow> clean_words r ws = ws"
  by (simp add: clean_words_def fold_plain)

lemma fold_rooted_plain:
  "\<forall>w\<in>set ws. slash \<notin> set w \<Longrightarrow> \<forall>w\<in>set st. plain w \<Longrightarrow>
   \<forall>w\<in>set (fold (clean_step True) ws st). plain w"
proof (induction ws arbitrary: st)
  case (Cons w ws)
  have "\<forall>u\<in>set (clean_step True w st). plain u"
    using Cons.prems by (auto simp: plain_def split: list.splits)
  then show ?case using Cons by simp
qed simp

lemma clean_words_rooted:
  "\<forall>w\<in>set ws. slash \<notin> set w \<Longrightarrow> w \<in> set (clean_words True ws) \<Longrightarrow> plain w"
  using fold_rooted_plain [of ws "[]"] by (auto simp: clean_words_def)

lemma path_clean_rooted:
  assumes "rooted p"
  obtains ws where "path_clean p = abs_path ws" "\<forall>w\<in>set ws. plain w"
proof
  show "path_clean p = abs_path (clean_words True (words_of p))"
    using assms by (simp add: path_clean_def render_def abs_path_def)
  show "\<forall>w\<in>set (clean_words True (words_of p)). plain w"
    using clean_words_rooted split_on_words by blast
qed

lemma words_of_abs: "ws \<noteq> [] \<Longrightarrow> \<forall>w\<in>set ws. plain w \<Longrightarrow> words_of (abs_path ws) = [] # ws"
  by (simp add: abs_path_def split_join plain_def)

lemma rel_words_abs: "\<forall>w\<in>set ws. plain w \<Longrightarrow> rel_words (abs_path ws) = [] # ws"
proof (cases ws)
  case (Cons w ws')
  assume p: "\<forall>w\<in>set ws. plain w"
  then have "abs_path ws \<noteq> [slash]"
    using Cons by (cases ws') (auto simp: abs_path_def plain_def)
  then show ?thesis using words_of_abs p Cons by (simp add: rel_words_def)
qed (simp add: rel_words_def abs_path_def)

lemma path_clean_abs: "\<forall>w\<in>set ws. plain w \<Longrightarrow> path_clean (abs_path ws) = abs_path ws"
proof (cases ws)
  case Nil
  then show ?thesis
    by (simp add: path_clean_def render_def abs_path_def rooted_def clean_words_def)
next
  case (Cons w ws')
  assume p: "\<forall>w\<in>set ws. plain w"
  have "fold (clean_step True) ([] # ws) [] = rev ws"
    using p by (simp add: fold_plain)
  then show ?thesis
    using words_of_abs [of ws] p Cons
    by (simp add: path_clean_def render_def clean_words_def) (simp add: abs_path_def)
qed

lemma clean_abs_iff: "clean_abs p \<longleftrightarrow> (\<exists>ws. p = abs_path ws \<and> (\<forall>w\<in>set ws. plain w))"
proof
  assume p: "clean_abs p"
  then have "rooted p" "path_clean p = p" by (simp_all add: clean_abs_def)
  then obtain ws where "path_clean p = abs_path ws" "\<forall>w\<in>set ws. plain w"
    by (metis path_clean_rooted)
  then show "\<exists>ws. p = abs_path ws \<and> (\<forall>w\<in>set ws. plain w)"
    using p by (auto simp: clean_abs_def)
qed (auto simp: clean_abs_def path_clean_abs)

lemma abs_path_inject:
  "\<forall>w\<in>set xs. plain w \<Longrightarrow> \<forall>w\<in>set ys. plain w \<Longrightarrow> abs_path xs = abs_path ys \<longleftrightarrow> xs = ys"
  by (metis list.inject rel_words_abs)

lemma below_abs:
  "\<forall>w\<in>set xs. plain w \<Longrightarrow> \<forall>w\<in>set ys. plain w \<Longrightarrow>
   below (abs_path xs) (abs_path ys) \<longleftrightarrow> prefix xs ys"
  by (simp add: below_def rel_words_abs)

lemma below_refl [simp]: "below p p"
  by (simp add: below_def)

lemma below_trans: "below p q \<Longrightarrow> below q r \<Longrightarrow> below p r"
  by (auto simp: below_def)

lemma words_append_slash: "words_of (xs @ slash # ys) = words_of xs @ words_of ys"
proof (induction xs)
  case (Cons x xs)
  then show ?case by (auto split: list.splits)
qed simp

text \<open>Joining one plain word to a clean absolute directory appends it.\<close>

lemma path_join_abs:
  assumes "\<forall>w\<in>set ws. plain w" "plain w"
  shows "path_join [abs_path ws, w] = abs_path (ws @ [w])"
proof -
  have w: "w \<noteq> []" "slash \<notin> set w" using assms by (auto simp: plain_def)
  have "words_of (join_on slash [abs_path ws, w]) = words_of (abs_path ws) @ [w]"
    using w by (simp add: words_append_slash split_on_word)
  moreover have "fold (clean_step True) (words_of (abs_path ws)) [] = rev ws"
  proof (cases "ws = []")
    case True
    then show ?thesis by (simp add: abs_path_def)
  next
    case False
    have "fold (clean_step True) ([] # ws) [] = rev ws"
      using fold_plain [OF assms(1)] by simp
    then show ?thesis by (simp only: words_of_abs [OF False assms(1)])
  qed
  moreover have "rooted (join_on slash [abs_path ws, w])"
    by (simp add: rooted_def abs_path_def)
  ultimately have "path_clean (join_on slash [abs_path ws, w]) = abs_path (ws @ [w])"
    using assms(2)
    by (simp add: path_clean_def render_def clean_words_def) (simp add: abs_path_def plain_def)
  then show ?thesis using w by (simp add: path_join_def abs_path_def)
qed

lemma clean_abs_join: "clean_abs d \<Longrightarrow> plain w \<Longrightarrow> clean_abs (path_join [d, w])"
  by (force simp: clean_abs_iff path_join_abs)

lemma below_join: "clean_abs d \<Longrightarrow> plain w \<Longrightarrow> below d (path_join [d, w])"
  by (auto simp: clean_abs_iff path_join_abs below_abs)

lemma not_below_join: "clean_abs d \<Longrightarrow> plain w \<Longrightarrow> \<not> below (path_join [d, w]) d"
  by (auto simp: clean_abs_iff path_join_abs below_abs dest: prefix_length_le)

lemma join_inject:
  "clean_abs d \<Longrightarrow> plain v \<Longrightarrow> plain w \<Longrightarrow> path_join [d, v] = path_join [d, w] \<longleftrightarrow> v = w"
  by (auto simp: clean_abs_iff path_join_abs abs_path_inject)

lemma unrelated_siblings:
  assumes "clean_abs d" "plain v" "plain w" "v \<noteq> w"
    and "below (path_join [d, v]) p" "below (path_join [d, w]) q" "clean_abs p" "clean_abs q"
  shows "unrelated p q"
proof -
  obtain ds where d: "d = abs_path ds" "\<forall>u\<in>set ds. plain u"
    using assms(1) by (auto simp: clean_abs_iff)
  obtain ps where p: "p = abs_path ps" "\<forall>u\<in>set ps. plain u"
    using assms(7) by (auto simp: clean_abs_iff)
  obtain qs where q: "q = abs_path qs" "\<forall>u\<in>set qs. plain u"
    using assms(8) by (auto simp: clean_abs_iff)
  have "prefix (ds @ [v]) ps" "prefix (ds @ [w]) qs"
    using assms d p q by (auto simp: path_join_abs below_abs)
  then have "\<not> prefix ps qs \<and> \<not> prefix qs ps"
    using assms(4) by (auto simp: prefix_def append_eq_append_conv2 append_eq_Cons_conv)
  then show ?thesis using p q by (simp add: unrelated_def below_abs)
qed

lemma unrelated_sym: "unrelated p q \<Longrightarrow> unrelated q p"
  by (simp add: unrelated_def)

text \<open>\<open>Clean\<close> is idempotent on absolute paths, and its result has no \<open>..\<close> element.\<close>

lemma path_clean_idem: "rooted p \<Longrightarrow> path_clean (path_clean p) = path_clean p"
  by (metis path_clean_abs path_clean_rooted)

lemma clean_abs_path_clean: "rooted p \<Longrightarrow> clean_abs (path_clean p)"
  by (metis clean_abs_iff path_clean_rooted)

lemma drop_common_prefix: "drop_common xs (xs @ ys) = ([], ys)"
  by (induction xs) auto

lemma drop_common_append:
  "drop_common xs ys = (bs, ts) \<Longrightarrow> \<exists>cs. xs = cs @ bs \<and> ys = cs @ ts"
proof (induction xs ys rule: drop_common.induct)
  case (1 b bs' t ts')
  show ?case
  proof (cases "b = t")
    case True
    with 1 obtain cs where "bs' = cs @ bs" "ts' = cs @ ts" by auto
    with True show ?thesis by (intro exI [of _ "b # cs"]) simp
  qed (use 1 in auto)
qed auto

text \<open>A target below the base has a relative path without \<open>..\<close>.\<close>

lemma path_rel_below:
  assumes "\<forall>w\<in>set bs. plain w" "\<forall>w\<in>set ts. plain w" "ts \<noteq> []"
  shows "path_rel (abs_path bs) (abs_path (bs @ ts)) = Inr (join_on slash ts)"
proof -
  have "abs_path (bs @ ts) \<noteq> abs_path bs"
    using assms by (metis abs_path_inject Un_iff append_self_conv set_append)
  moreover have "abs_path bs \<noteq> ''.''" by (simp add: abs_path_def slash_def)
  ultimately show ?thesis
    using assms
    by (simp add: path_rel_def path_clean_abs rel_words_abs drop_common_prefix ball_Un)
qed

section \<open>Trimming\<close>

lemma leading_space_prefix:
  assumes "leading_space encs t = None" "prefix u t"
  shows "leading_space encs u = None"
  using assms by (auto simp: leading_space_def find_None_iff dest: prefix_order.trans)

lemma trim_left_enc_fixed: "leading_space encs s = None \<Longrightarrow> trim_left_enc encs s = s"
  by (simp add: trim_left_enc.simps [of encs s])

lemma trim_space_prefix: "prefix (trim_space s) (trim_left_enc space_encodings s)"
  using trim_left_enc_suffix [of "map rev space_encodings" "rev (trim_left_enc space_encodings s)"]
  by (simp add: trim_space_def suffix_to_prefix)

lemma trim_space_idem [simp]: "trim_space (trim_space s) = trim_space s"
proof -
  have "leading_space space_encodings (trim_space s) = None"
    using leading_space_prefix [OF trim_left_enc_done trim_space_prefix] .
  then have "trim_left_enc space_encodings (trim_space s) = trim_space s" by (rule trim_left_enc_fixed)
  moreover have "leading_space (map rev space_encodings) (rev (trim_space s)) = None"
    using trim_left_enc_done by (simp add: trim_space_def)
  ultimately show ?thesis by (simp add: trim_space_def [of "trim_space s"] trim_left_enc_fixed)
qed

text \<open>A string without bytes of white space is not trimmed.\<close>

lemma no_leading_space:
  assumes "set s \<inter> set (concat encs) = {}"
  shows "leading_space encs s = None"
proof -
  have "\<not> (e \<noteq> [] \<and> prefix e s)" if "e \<in> set encs" for e
    using assms that by (cases e) (fastforce simp: prefix_def)+
  then show ?thesis by (auto simp: leading_space_def find_None_iff)
qed

definition graphic :: "char \<Rightarrow> bool" where
  "graphic c \<longleftrightarrow> 33 \<le> (of_char c :: nat) \<and> (of_char c :: nat) \<le> 126"

lemma space_not_graphic: "list_all (list_all (\<lambda>c. \<not> graphic c)) space_encodings"
  by (simp add: space_encodings_def graphic_def)

lemma trim_graphic:
  assumes "list_all graphic s"
  shows "trim_space s = s"
proof -
  have g: "set s \<inter> set (concat space_encodings) = {}"
    using assms space_not_graphic by (auto simp: list_all_iff)
  moreover have "set (concat (map rev encs)) = set (concat encs)" for encs :: "string list" by auto
  ultimately have "leading_space space_encodings s = None" "leading_space (map rev space_encodings) (rev s) = None"
    by (intro no_leading_space; simp only: set_rev)+
  then show ?thesis by (simp add: trim_space_def trim_left_enc_fixed)
qed

end
