(* ===== verification/Host_Os.thy ===== *)
theory Host_Os
  imports Go_Paths
begin

text \<open>
  The node the driver runs on, as a parameter of the model: the file system behind
  \<open>afero.Afero\<close> and \<open>os.Root\<close>, and the mount table behind \<open>mount.Interface\<close> of
  \<open>k8s.io/utils/mount\<close> and \<open>unix.Mount\<close>. None of this code is in the repository, so the
  definitions of the model take a record of operations on an abstract host state. The locale
  \<open>host_laws\<close> states the documented behaviour the driver relies on, and \<open>mem_host\<close> is a
  concrete in-memory host that satisfies it, on which the witnesses run.
\<close>

section \<open>The operations\<close>

datatype file_kind = KDir | KRegular | KSymlink | KSocket | KOther

text \<open>
  Every operation may fail. An operation that changes the host returns the new state also when
  it fails, because a failed operation may have done a part of its work.
\<close>

record 'h host =
  os_stat :: "'h \<Rightarrow> string \<Rightarrow> file_kind res"
  os_read_dir :: "'h \<Rightarrow> string \<Rightarrow> string list res"
  os_exists :: "'h \<Rightarrow> string \<Rightarrow> bool res"
  os_mkdir_all :: "'h \<Rightarrow> string \<Rightarrow> goerr option \<times> 'h"
  os_rename :: "'h \<Rightarrow> string \<Rightarrow> string \<Rightarrow> goerr option \<times> 'h"
  os_remove_all :: "'h \<Rightarrow> string \<Rightarrow> goerr option \<times> 'h"
  os_temp_dir :: "'h \<Rightarrow> string \<Rightarrow> string \<Rightarrow> string res \<times> 'h"
  os_create :: "'h \<Rightarrow> string \<Rightarrow> goerr option \<times> 'h"
  os_chmod :: "'h \<Rightarrow> string \<Rightarrow> nat \<Rightarrow> goerr option \<times> 'h"
  os_write_file :: "'h \<Rightarrow> string \<Rightarrow> string \<Rightarrow> goerr option \<times> 'h"
  os_eval_symlinks :: "'h \<Rightarrow> string \<Rightarrow> string res"
  root_open :: "'h \<Rightarrow> string \<Rightarrow> goerr option"
  root_mkdir :: "'h \<Rightarrow> string \<Rightarrow> string \<Rightarrow> goerr option \<times> 'h"
  root_symlink :: "'h \<Rightarrow> string \<Rightarrow> string \<Rightarrow> string \<Rightarrow> goerr option \<times> 'h"
  root_readlink :: "'h \<Rightarrow> string \<Rightarrow> string \<Rightarrow> string res"
  root_open_file :: "'h \<Rightarrow> string \<Rightarrow> string \<Rightarrow> goerr option \<times> 'h"
  root_copy :: "'h \<Rightarrow> string \<Rightarrow> string \<Rightarrow> string \<Rightarrow> int res \<times> 'h"
  mnt_likely_not :: "'h \<Rightarrow> string \<Rightarrow> bool \<times> goerr option"
  mnt_mount :: "'h \<Rightarrow> string \<Rightarrow> string \<Rightarrow> string list \<Rightarrow> goerr option \<times> 'h"
  mnt_unmount :: "'h \<Rightarrow> string \<Rightarrow> goerr option \<times> 'h"
  mnt_remount_ro :: "'h \<Rightarrow> string \<Rightarrow> string \<Rightarrow> goerr option \<times> 'h"

text \<open>What a client can see of one path: its kind and its directory listing.\<close>

definition same_at :: "'h host \<Rightarrow> 'h \<Rightarrow> 'h \<Rightarrow> string \<Rightarrow> bool" where
  "same_at H h h' q \<longleftrightarrow> os_stat H h' q = os_stat H h q \<and> os_read_dir H h' q = os_read_dir H h q"

definition gone :: "'h host \<Rightarrow> 'h \<Rightarrow> string \<Rightarrow> bool" where
  "gone H h p \<longleftrightarrow> (\<exists>e. os_stat H h p = Inl e \<and> errors_is e ErrNotExist)"

section \<open>The documented behaviour\<close>

text \<open>
  The laws speak about the storage directory \<open>base\<close>, which belongs to the driver: the paths
  below it are not aliased by mounts or symbolic links made by others. A successful rename makes
  the destination what the source was; a successful \<open>RemoveAll\<close> leaves nothing; \<open>TempDir\<close>
  makes a new entry of the given directory; an operation through an \<open>os.Root\<close> stays below the
  root's directory; and each of them, successful or not, leaves the paths alone that are neither
  above nor below the ones it names.
\<close>

locale host_laws =
  fixes H :: "'h host" and base :: string
  assumes base_clean: "clean_abs base"
    and rename_moves:
      "clean_abs s \<Longrightarrow> clean_abs d \<Longrightarrow> below base s \<Longrightarrow> below base d \<Longrightarrow>
       os_stat H h s = Inr KDir \<Longrightarrow> os_rename H h s d = (None, h') \<Longrightarrow>
       os_stat H h' d = Inr KDir \<and> os_read_dir H h' d = os_read_dir H h s"
    and rename_frame:
      "clean_abs s \<Longrightarrow> clean_abs d \<Longrightarrow> clean_abs q \<Longrightarrow>
       below base s \<Longrightarrow> below base d \<Longrightarrow> below base q \<Longrightarrow> unrelated s q \<Longrightarrow> unrelated d q \<Longrightarrow>
       same_at H h (snd (os_rename H h s d)) q"
    and remove_all_gone:
      "clean_abs p \<Longrightarrow> below base p \<Longrightarrow> os_remove_all H h p = (None, h') \<Longrightarrow> gone H h' p"
    and remove_all_frame:
      "clean_abs p \<Longrightarrow> clean_abs q \<Longrightarrow> below base p \<Longrightarrow> below base q \<Longrightarrow> unrelated p q \<Longrightarrow>
       same_at H h (snd (os_remove_all H h p)) q"
    and temp_dir_fresh:
      "clean_abs d \<Longrightarrow> below base d \<Longrightarrow> os_temp_dir H h d pat = (Inr p, h') \<Longrightarrow>
       \<exists>w. plain w \<and> p = path_join [d, w]"
    and temp_dir_frame:
      "clean_abs d \<Longrightarrow> clean_abs q \<Longrightarrow> below base d \<Longrightarrow> below base q \<Longrightarrow> unrelated d q \<Longrightarrow>
       same_at H h (snd (os_temp_dir H h d pat)) q"
    and root_mkdir_frame:
      "clean_abs d \<Longrightarrow> clean_abs q \<Longrightarrow> below base d \<Longrightarrow> below base q \<Longrightarrow> unrelated d q \<Longrightarrow>
       same_at H h (snd (root_mkdir H h d r)) q"
    and root_symlink_frame:
      "clean_abs d \<Longrightarrow> clean_abs q \<Longrightarrow> below base d \<Longrightarrow> below base q \<Longrightarrow> unrelated d q \<Longrightarrow>
       same_at H h (snd (root_symlink H h d t r)) q"
    and root_open_file_frame:
      "clean_abs d \<Longrightarrow> clean_abs q \<Longrightarrow> below base d \<Longrightarrow> below base q \<Longrightarrow> unrelated d q \<Longrightarrow>
       same_at H h (snd (root_open_file H h d r)) q"
    and root_copy_frame:
      "clean_abs d \<Longrightarrow> clean_abs q \<Longrightarrow> below base d \<Longrightarrow> below base q \<Longrightarrow> unrelated d q \<Longrightarrow>
       same_at H h (snd (root_copy H h d r c)) q"
    and mkdir_all_frame:
      "clean_abs d \<Longrightarrow> clean_abs q \<Longrightarrow> below base d \<Longrightarrow> below base q \<Longrightarrow> unrelated d q \<Longrightarrow>
       same_at H h (snd (os_mkdir_all H h d)) q"

lemma same_at_refl [simp]: "same_at H h h q"
  by (simp add: same_at_def)

lemma same_at_trans: "same_at H h1 h2 q \<Longrightarrow> same_at H h2 h3 q \<Longrightarrow> same_at H h1 h3 q"
  by (simp add: same_at_def)

lemma same_at_gone: "same_at H h h' q \<Longrightarrow> gone H h' q = gone H h q"
  by (simp add: same_at_def gone_def)

section \<open>An in-memory host\<close>

text \<open>
  Nodes are kept in an association list from element lists to contents; \<open>mh_broken\<close> names the
  operations that fail without doing anything, and \<open>mh_mounts\<close> is the mount table: target,
  source, read-only.
\<close>

datatype mem_node = MDir | MFile string | MLink string | MSock

record mem_state =
  mh_nodes :: "(string list \<times> mem_node) list"
  mh_mounts :: "(string \<times> string \<times> bool) list"
  mh_broken :: "string list"
  mh_next :: nat

fun node_kind :: "mem_node \<Rightarrow> file_kind" where
  "node_kind MDir = KDir"
| "node_kind (MFile c) = KRegular"
| "node_kind (MLink t) = KSymlink"
| "node_kind MSock = KSocket"

definition mem_words :: "string \<Rightarrow> string list" where
  "mem_words p = rel_words (path_clean p)"

definition mem_fail :: "string \<Rightarrow> mem_state \<Rightarrow> goerr option \<times> mem_state \<Rightarrow> goerr option \<times> mem_state" where
  "mem_fail op h r = (if op \<in> set (mh_broken h) then (Some (ExtErr op), h) else r)"

definition mem_stat :: "mem_state \<Rightarrow> string \<Rightarrow> file_kind res" where
  "mem_stat h p =
     (case map_of (mh_nodes h) (mem_words p) of None \<Rightarrow> Inl ErrNotExist | Some n \<Rightarrow> Inr (node_kind n))"

definition child :: "string list \<Rightarrow> string list \<Rightarrow> bool" where
  "child d k \<longleftrightarrow> k \<noteq> [] \<and> butlast k = d"

definition children :: "string list \<Rightarrow> (string list \<times> mem_node) list \<Rightarrow> string list" where
  "children d ns = map (\<lambda>n. last (fst n)) (filter (\<lambda>n. child d (fst n)) ns)"

fun listing :: "mem_node \<Rightarrow> string list \<Rightarrow> string list res" where
  "listing MDir ns = Inr ns"
| "listing n ns = Inl (ExtErr ''not a directory'')"

definition mem_read_dir :: "mem_state \<Rightarrow> string \<Rightarrow> string list res" where
  "mem_read_dir h p =
     (case map_of (mh_nodes h) (mem_words p) of
        None \<Rightarrow> Inl ErrNotExist
      | Some n \<Rightarrow> listing n (children (mem_words p) (mh_nodes h)))"

definition mem_put :: "mem_state \<Rightarrow> string list \<Rightarrow> mem_node \<Rightarrow> mem_state" where
  "mem_put h k n = h\<lparr>mh_nodes := (k, n) # filter (\<lambda>m. fst m \<noteq> k) (mh_nodes h)\<rparr>"

definition mem_remove_all :: "mem_state \<Rightarrow> string \<Rightarrow> goerr option \<times> mem_state" where
  "mem_remove_all h p = mem_fail ''RemoveAll'' h
     (None, h\<lparr>mh_nodes := filter (\<lambda>n. \<not> prefix (mem_words p) (fst n)) (mh_nodes h)\<rparr>)"

definition move_key :: "string list \<Rightarrow> string list \<Rightarrow> string list \<Rightarrow> string list" where
  "move_key s d k = (if prefix s k then d @ drop (length s) k else k)"

definition mem_rename :: "mem_state \<Rightarrow> string \<Rightarrow> string \<Rightarrow> goerr option \<times> mem_state" where
  "mem_rename h s d = mem_fail ''Rename'' h
     (if map_of (mh_nodes h) (mem_words s) = None then (Some ErrNotExist, h)
      else if mem_words s = mem_words d then (None, h)
      else if prefix (mem_words s) (mem_words d) \<or> prefix (mem_words d) (mem_words s) then (Some (ExtErr ''invalid argument''), h)
      else if children (mem_words d) (mh_nodes h) \<noteq> [] then (Some (ExtErr ''directory not empty''), h)
      else (None, h\<lparr>mh_nodes := map (\<lambda>n. (move_key (mem_words s) (mem_words d) (fst n), snd n))
              (filter (\<lambda>n. \<not> prefix (mem_words d) (fst n)) (mh_nodes h))\<rparr>))"

definition nat_name :: "nat \<Rightarrow> string" where
  "nat_name n = replicate (Suc n) (CHR ''t'')"

definition mem_temp_dir :: "mem_state \<Rightarrow> string \<Rightarrow> string \<Rightarrow> string res \<times> mem_state" where
  "mem_temp_dir h d pat =
     (if ''TempDir'' \<in> set (mh_broken h) then (Inl (ExtErr ''TempDir''), h)
      else if list_ex (\<lambda>n. prefix (mem_words d @ [nat_name (mh_next h)]) (fst n)) (mh_nodes h)
      then (Inl (ExtErr ''file exists''), h)
      else (Inr (path_join [d, nat_name (mh_next h)]),
            (mem_put h (mem_words d @ [nat_name (mh_next h)]) MDir)\<lparr>mh_next := Suc (mh_next h)\<rparr>))"

definition mem_child :: "string \<Rightarrow> string \<Rightarrow> mem_state \<Rightarrow> mem_node \<Rightarrow> goerr option \<times> mem_state" where
  "mem_child d r h n =
     (if list_all plain (words_of r) \<and>
         map_of (mh_nodes h) (mem_words d @ butlast (words_of r)) = Some MDir then (None, mem_put h (mem_words d @ words_of r) n)
      else (Some (ExtErr ''no such parent, or the path escapes''), h))"

definition mem_host :: "mem_state host" where
  "mem_host =
     \<lparr>os_stat = mem_stat,
      os_read_dir = mem_read_dir,
      os_exists = (\<lambda>h p. Inr (map_of (mh_nodes h) (mem_words p) \<noteq> None)),
      os_mkdir_all = (\<lambda>h p. mem_fail ''MkdirAll'' h (None, mem_put h (mem_words p) MDir)),
      os_rename = mem_rename,
      os_remove_all = mem_remove_all,
      os_temp_dir = mem_temp_dir,
      os_create = (\<lambda>h p. mem_fail ''Create'' h (None, mem_put h (mem_words p) (MFile []))),
      os_chmod = (\<lambda>h p m. mem_fail ''Chmod'' h (None, h)),
      os_write_file = (\<lambda>h p c. mem_fail ''WriteFile'' h (None, mem_put h (mem_words p) (MFile c))),
      os_eval_symlinks = (\<lambda>h p. if map_of (mh_nodes h) (mem_words p) = None then Inl ErrNotExist
                               else Inr (path_clean p)),
      root_open = (\<lambda>h p. None),
      root_mkdir = (\<lambda>h d r. mem_fail ''Root.Mkdir'' h (mem_child d r h MDir)),
      root_symlink = (\<lambda>h d t r. mem_fail ''Root.Symlink'' h (mem_child d r h (MLink t))),
      root_readlink = (\<lambda>h d r. case map_of (mh_nodes h) (mem_words d @ words_of r) of
                                Some (MLink t) \<Rightarrow> Inr t | _ \<Rightarrow> Inl (ExtErr ''not a symlink'')),
      root_open_file = (\<lambda>h d r. mem_fail ''Root.OpenFile'' h (mem_child d r h (MFile []))),
      root_copy = (\<lambda>h d r c. case mem_fail ''Copy'' h (mem_child d r h (MFile c)) of
                              (None, h') \<Rightarrow> (Inr (int (length c)), h') | (Some e, h') \<Rightarrow> (Inl e, h')),
      mnt_likely_not = (\<lambda>h p. (\<not> list_ex (\<lambda>m. fst m = p) (mh_mounts h), None)),
      mnt_mount = (\<lambda>h s t os. mem_fail ''Mount'' h
                     (None, h\<lparr>mh_mounts := (t, s, List.member os ''ro'') # mh_mounts h\<rparr>)),
      mnt_unmount = (\<lambda>h t. mem_fail ''Unmount'' h
                     (None, h\<lparr>mh_mounts := filter (\<lambda>m. fst m \<noteq> t) (mh_mounts h)\<rparr>)),
      mnt_remount_ro = (\<lambda>h s t. mem_fail ''Remount'' h
                     (None, h\<lparr>mh_mounts := map (\<lambda>m. if fst m = t then (t, fst (snd m), True) else m)
                                            (mh_mounts h)\<rparr>))\<rparr>"

subsection \<open>The in-memory host obeys the laws\<close>

lemma mem_words_clean: "clean_abs p \<Longrightarrow> mem_words p = rel_words p"
  by (simp add: mem_words_def clean_abs_def)

lemma mem_below: "clean_abs p \<Longrightarrow> clean_abs q \<Longrightarrow> below p q \<longleftrightarrow> prefix (mem_words p) (mem_words q)"
  by (simp add: mem_words_clean below_def)

definition apart :: "string list \<Rightarrow> string list \<Rightarrow> bool" where
  "apart a b \<longleftrightarrow> \<not> prefix a b \<and> \<not> prefix b a"

lemma unrelated_apart:
  "clean_abs p \<Longrightarrow> clean_abs q \<Longrightarrow> unrelated p q \<longleftrightarrow> apart (mem_words p) (mem_words q)"
  by (simp add: unrelated_def apart_def mem_below)

lemma apart_common: "apart a b \<Longrightarrow> prefix a k \<Longrightarrow> \<not> prefix b k"
  using prefix_same_cases [of a k b] by (auto simp: apart_def)

lemma child_prefix: "child w k \<Longrightarrow> prefix w k"
  using prefixeq_butlast by (auto simp: child_def)

lemma apart_child: "apart a b \<Longrightarrow> child b k \<Longrightarrow> \<not> prefix a k"
  by (metis apart_common child_prefix)

lemma apart_sym: "apart a b \<Longrightarrow> apart b a"
  by (simp add: apart_def)

lemma child_append: "child s (s @ x) \<longleftrightarrow> (\<exists>y. x = [y])"
proof (cases x rule: rev_cases)
  case Nil
  have "butlast s = s \<longleftrightarrow> s = []" by (cases s rule: rev_cases) auto
  with Nil show ?thesis by (simp add: child_def)
qed (auto simp: child_def butlast_append)

lemma children_Cons:
  "children w (n # ns) = (if child w (fst n) then [last (fst n)] else []) @ children w ns"
  by (simp add: children_def)

lemma map_of_filter_key:
  "P w \<Longrightarrow> map_of (filter (\<lambda>m. P (fst m)) ns) w = map_of ns w"
  by (induction ns) auto

lemma children_filter:
  "(\<And>k. child w k \<Longrightarrow> P k) \<Longrightarrow> children w (filter (\<lambda>m. P (fst m)) ns) = children w ns"
  by (induction ns) (auto simp: children_def)

lemma mem_same_at:
  assumes "map_of (mh_nodes h') (mem_words q) = map_of (mh_nodes h) (mem_words q)"
    and "children (mem_words q) (mh_nodes h') = children (mem_words q) (mh_nodes h)"
  shows "same_at mem_host h h' q"
  using assms
  by (simp add: same_at_def mem_host_def mem_stat_def mem_read_dir_def split: option.split)

lemma mem_put_frame:
  assumes "prefix d k" "apart d (mem_words q)"
  shows "same_at mem_host h (mem_put h k n) q"
proof (rule mem_same_at)
  have "\<not> prefix (mem_words q) k" using assms by (simp add: apart_common)
  then have k: "mem_words q \<noteq> k" "\<not> child (mem_words q) k"
    by (auto dest: child_prefix)
  show "map_of (mh_nodes (mem_put h k n)) (mem_words q) = map_of (mh_nodes h) (mem_words q)"
    using k map_of_filter_key [of "\<lambda>x. x \<noteq> k"] by (simp add: mem_put_def)
  show "children (mem_words q) (mh_nodes (mem_put h k n)) = children (mem_words q) (mh_nodes h)"
    using k children_filter [of "mem_words q" "\<lambda>x. x \<noteq> k"]
    by (auto simp: mem_put_def children_Cons)
qed

lemma mem_child_frame:
  assumes "apart (mem_words d) (mem_words q)"
  shows "same_at mem_host h (snd (mem_child d r h n)) q"
  using mem_put_frame [OF _ assms] by (simp add: mem_child_def)

lemma mem_fail_frame:
  "same_at mem_host h (snd r) q \<Longrightarrow> same_at mem_host h (snd (mem_fail op h r)) q"
  by (simp add: mem_fail_def)

lemma mem_remove_frame [frames]:
  assumes "apart (mem_words p) (mem_words q)"
  shows "same_at mem_host h (snd (mem_remove_all h p)) q"
proof -
  let ?P = "\<lambda>k. \<not> prefix (mem_words p) k"
  have "?P (mem_words q)" using assms by (simp add: apart_def)
  moreover have "\<And>k. child (mem_words q) k \<Longrightarrow> ?P k"
    using assms by (rule apart_child)
  ultimately show ?thesis
    unfolding mem_remove_all_def
    by (intro mem_fail_frame mem_same_at)
       (simp_all add: map_of_filter_key [where P = ?P] children_filter [where P = ?P])
qed

lemma map_of_move_other:
  "apart s w \<Longrightarrow> apart d w \<Longrightarrow>
   map_of (map (\<lambda>n. (move_key s d (fst n), snd n)) (filter (\<lambda>n. \<not> prefix d (fst n)) ns)) w = map_of ns w"
  by (induction ns) (auto simp: move_key_def apart_def)

lemma children_move_other:
  assumes "apart s w" "apart d w"
  shows "children w (map (\<lambda>n. (move_key s d (fst n), snd n)) (filter (\<lambda>n. \<not> prefix d (fst n)) ns)) =
         children w ns"
proof -
  have "child w k \<Longrightarrow> \<not> prefix s k \<and> \<not> prefix d k" for k
    using assms by (simp add: apart_child)
  moreover have "\<not> child w (d @ x)" for x
    using apart_child [OF assms(2), of "d @ x"] by auto
  ultimately show ?thesis by (induction ns) (auto simp: children_def move_key_def)
qed

lemma map_of_move_target:
  "apart s d \<Longrightarrow>
   map_of (map (\<lambda>n. (move_key s d (fst n), snd n)) (filter (\<lambda>n. \<not> prefix d (fst n)) ns)) d = map_of ns s"
  by (induction ns) (auto simp: move_key_def apart_def prefix_def)

lemma children_move_target:
  assumes "apart s d"
  shows "children d (map (\<lambda>n. (move_key s d (fst n), snd n)) (filter (\<lambda>n. \<not> prefix d (fst n)) ns)) =
         children s ns"
proof (induction ns)
  case (Cons n ns)
  obtain k v where n: "n = (k, v)" by fastforce
  consider x where "k = s @ x" | "prefix d k" | "\<not> prefix s k" "\<not> prefix d k"
    by (auto simp: prefix_def)
  then show ?case
  proof cases
    case 1
    then have "\<not> prefix d k" using assms apart_common [of s d k] by simp
    moreover have "move_key s d k = d @ x" using 1 by (simp add: move_key_def)
    ultimately show ?thesis
      using Cons n 1 by (auto simp: children_Cons child_append)
  next
    case 2
    then have "\<not> child s k" using apart_child [OF apart_sym [OF assms]] by blast
    then show ?thesis using Cons n 2 by (simp add: children_Cons)
  next
    case 3
    then have "\<not> child s k" "\<not> child d k" by (meson child_prefix)+
    then show ?thesis using Cons n 3 by (simp add: children_Cons move_key_def)
  qed
qed (simp add: children_def)

lemma mem_rename_frame:
  assumes "apart (mem_words s) (mem_words q)" "apart (mem_words d) (mem_words q)"
  shows "same_at mem_host h (snd (mem_rename h s d)) q"
  unfolding mem_rename_def using assms
  by (intro mem_fail_frame)
     (auto intro!: mem_same_at simp: map_of_move_other children_move_other)

lemma mem_rename_moves:
  assumes "mem_rename h s d = (None, h')" "mem_stat h s = Inr KDir"
  shows "mem_stat h' d = Inr KDir \<and> mem_read_dir h' d = mem_read_dir h s"
proof (cases "mem_words s = mem_words d")
  case True
  then show ?thesis
    using assms by (auto simp: mem_rename_def mem_fail_def mem_stat_def mem_read_dir_def
             split: if_splits)
next
  case False
  then have a: "apart (mem_words s) (mem_words d)"
    using assms by (auto simp: mem_rename_def mem_fail_def apart_def split: if_splits)
  have h': "mh_nodes h' = map (\<lambda>n. (move_key (mem_words s) (mem_words d) (fst n), snd n))
              (filter (\<lambda>n. \<not> prefix (mem_words d) (fst n)) (mh_nodes h))"
    using assms(1) False by (auto simp: mem_rename_def mem_fail_def split: if_splits)
  have "map_of (mh_nodes h') (mem_words d) = map_of (mh_nodes h) (mem_words s)"
    using a by (simp only: h' map_of_move_target)
  moreover have "children (mem_words d) (mh_nodes h') = children (mem_words s) (mh_nodes h)"
    using a by (simp only: h' children_move_target)
  moreover have "map_of (mh_nodes h) (mem_words s) = Some MDir"
    using assms(2) by (auto simp: mem_stat_def split: option.splits elim: node_kind.elims)
  ultimately show ?thesis by (simp add: mem_stat_def mem_read_dir_def)
qed

lemma plain_nat_name: "plain (nat_name n)"
  by (auto simp: plain_def nat_name_def slash_def)

definition mem_base :: string where
  "mem_base = ''/d''"

lemma mem_base_abs: "mem_base = abs_path [''d'']"
  by (simp add: mem_base_def abs_path_def slash_def)

lemma clean_mem_base: "clean_abs mem_base"
  by (auto simp: mem_base_abs clean_abs_iff plain_def slash_def intro!: exI [of _ "[''d'']"])

lemma same_at_next: "same_at mem_host h (h'\<lparr>mh_next := n\<rparr>) q = same_at mem_host h h' q"
  by (simp add: same_at_def mem_host_def mem_stat_def mem_read_dir_def split: option.split)

lemma mem_temp_frame:
  assumes "apart (mem_words d) (mem_words q)"
  shows "same_at mem_host h (snd (mem_temp_dir h d pat)) q"
proof -
  have "same_at mem_host h (mem_put h (mem_words d @ [nat_name (mh_next h)]) MDir) q"
    using assms by (intro mem_put_frame) auto
  then show ?thesis by (simp add: mem_temp_dir_def same_at_next)
qed

interpretation mem: host_laws mem_host mem_base
proof (unfold_locales, goal_cases)
  case 1
  show ?case by (rule clean_mem_base)
next
  case 2
  then show ?case by (simp add: mem_host_def mem_rename_moves)
next
  case (3 s d q h)
  then have "same_at mem_host h (snd (mem_rename h s d)) q"
    by (simp add: mem_rename_frame unrelated_apart)
  then show ?case by (simp add: mem_host_def)
next
  case (4 p h h')
  then show ?case
    using map_of_filter_key [of "\<lambda>k. \<not> prefix (mem_words p) k"]
    by (auto simp: gone_def mem_host_def mem_remove_all_def mem_fail_def mem_stat_def map_of_eq_None_iff
             split: if_splits option.splits)
next
  case (5 p q h)
  then have "same_at mem_host h (snd (mem_remove_all h p)) q"
    by (simp add: mem_remove_frame unrelated_apart)
  then show ?case by (simp add: mem_host_def)
next
  case (6 d h pat p h')
  then show ?case
    using plain_nat_name by (auto simp: mem_host_def mem_temp_dir_def split: if_splits)
next
  case (7 d q h pat)
  then have "same_at mem_host h (snd (mem_temp_dir h d pat)) q"
    by (simp add: mem_temp_frame unrelated_apart)
  then show ?case by (simp add: mem_host_def)
next
  case (8 d q h r)
  then have "same_at mem_host h (snd (mem_fail ''Root.Mkdir'' h (mem_child d r h MDir))) q"
    by (intro mem_fail_frame mem_child_frame) (simp add: unrelated_apart)
  then show ?case by (simp add: mem_host_def)
next
  case (9 d q h t r)
  then have "same_at mem_host h (snd (mem_fail ''Root.Symlink'' h (mem_child d r h (MLink t)))) q"
    by (intro mem_fail_frame mem_child_frame) (simp add: unrelated_apart)
  then show ?case by (simp add: mem_host_def)
next
  case (10 d q h r)
  then have "same_at mem_host h (snd (mem_fail ''Root.OpenFile'' h (mem_child d r h (MFile [])))) q"
    by (intro mem_fail_frame mem_child_frame) (simp add: unrelated_apart)
  then show ?case by (simp add: mem_host_def)
next
  case (11 d q h r c)
  then have "same_at mem_host h (snd (mem_fail ''Copy'' h (mem_child d r h (MFile c)))) q"
    by (intro mem_fail_frame mem_child_frame) (simp add: unrelated_apart)
  then show ?case by (auto simp: mem_host_def split: prod.splits option.splits)
next
  case (12 d q h)
  then have "same_at mem_host h (snd (mem_fail ''MkdirAll'' h (None, mem_put h (mem_words d) MDir))) q"
    by (intro mem_fail_frame) (simp add: unrelated_apart mem_put_frame [OF prefix_order.refl])
  then show ?case by (simp add: mem_host_def)
qed

end
