(* ===== verification/Lib_Store.thy ===== *)
theory Lib_Store
  imports Host_Os
begin

text \<open>
  \<open>pkg/librarymanager/store.go\<close>: libraries kept as directories \<open>basePath/id\<close>. A \<open>Store\<close>
  is its base path; the file system it works on is the host parameter \<open>H\<close> and the state \<open>h\<close>.
  The locale \<open>item_store\<close> is the contract the library manager relies on; the locale
  \<open>lib_store\<close> shows that the model of the store meets it on every host that obeys
  \<open>host_laws\<close>.
\<close>

section \<open>The operations of the store\<close>

definition directory_exists_and_not_empty :: "'h host \<Rightarrow> 'h \<Rightarrow> string \<Rightarrow> bool res" where
  "directory_exists_and_not_empty H h path =
     (case os_stat H h path of
        Inl e \<Rightarrow>
          if errors_is e ErrNotExist then Inr False
          else Inl (Wrapf ''could not determine if directory %s exists: %w'' [path] e)
      | Inr kind \<Rightarrow>
          if kind \<noteq> KDir then Inl (Errorf ''the path %s is not a directory'' [path])
          else (case os_read_dir H h path of
                  Inl e \<Rightarrow> Inl (Wrapf ''could not read directory %s: %w'' [path] e)
                | Inr entries \<Rightarrow> Inr (length entries > 0)))"

definition new_store :: "'h host \<Rightarrow> string \<Rightarrow> 'h \<Rightarrow> string res \<times> 'h" where
  "new_store H basePath h =
     (case directory_exists_and_not_empty H h basePath of
        Inl e \<Rightarrow> (Inl (Wrapf ''could not determine if the bath path %s is valid: %w'' [basePath] e), h)
      | Inr exists \<Rightarrow>
          if \<not> exists then
            (case os_mkdir_all H h basePath of
               (Some e, h') \<Rightarrow> (Inl (Wrapf ''could not create base path %s: %w'' [basePath] e), h')
             | (None, h') \<Rightarrow> (Inr basePath, h'))
          else (Inr basePath, h))"

definition store_path :: "string \<Rightarrow> string \<Rightarrow> string" where
  "store_path basePath pid = path_join [basePath, pid]"

definition store_exists :: "'h host \<Rightarrow> string \<Rightarrow> 'h \<Rightarrow> string \<Rightarrow> bool res" where
  "store_exists H basePath h pid =
     wrap_err ''could not determine if package with id %s exists: %w'' [pid]
       (directory_exists_and_not_empty H h (store_path basePath pid))"

definition store_Exists :: "'h host \<Rightarrow> string \<Rightarrow> 'h \<Rightarrow> string \<Rightarrow> bool res" where
  "store_Exists H basePath h pid =
     (if pid = [] then Inl (Errorf ''id cannot be empty'' []) else store_exists H basePath h pid)"

definition store_add :: "'h host \<Rightarrow> string \<Rightarrow> 'h \<Rightarrow> string \<Rightarrow> string \<Rightarrow> string res \<times> 'h" where
  "store_add H basePath h pid src =
     (if pid = [] then (Inl (Errorf ''id cannot be empty'' []), h)
      else case store_exists H basePath h pid of
        Inl e \<Rightarrow> (Inl e, h)
      | Inr True \<Rightarrow> (Inr (store_path basePath pid), h)
      | Inr False \<Rightarrow>
          (case directory_exists_and_not_empty H h src of
             Inl e \<Rightarrow> (Inl (Wrapf ''could not determine if the source path %s is valid: %w'' [src] e), h)
           | Inr exists \<Rightarrow>
               if \<not> exists
               then (Inl (Errorf ''the source path %s must exist and be a non-empty directory'' [src]), h)
               else (case os_rename H h src (store_path basePath pid) of
                       (Some e, h') \<Rightarrow>
                         (Inl (Wrapf ''could not add package with id %s to store: %w'' [pid] e), h')
                     | (None, h') \<Rightarrow> (Inr (store_path basePath pid), h'))))"

definition store_get :: "'h host \<Rightarrow> string \<Rightarrow> 'h \<Rightarrow> string \<Rightarrow> string res" where
  "store_get H basePath h pid =
     (if pid = [] then Inl (Errorf ''id cannot be empty'' [])
      else and_then (store_exists H basePath h pid)
             (\<lambda>exists. if \<not> exists then Inl ErrItemNotFound else Inr (store_path basePath pid)))"

definition store_remove :: "'h host \<Rightarrow> string \<Rightarrow> 'h \<Rightarrow> string \<Rightarrow> unit res \<times> 'h" where
  "store_remove H basePath h pid =
     (if pid = [] then (Inl (Errorf ''id cannot be empty'' []), h)
      else case store_exists H basePath h pid of
        Inl e \<Rightarrow> (Inl e, h)
      | Inr False \<Rightarrow> (Inr (), h)
      | Inr True \<Rightarrow>
          (case os_remove_all H h (store_path basePath pid) of
             (Some e, h') \<Rightarrow> (Inl (Wrapf ''could not remove package with id %s: %w'' [pid] e), h')
           | (None, h') \<Rightarrow> (Inr (), h')))"

section \<open>The contract of a store\<close>

text \<open>
  \<open>held h i\<close> says that item \<open>i\<close> can be mounted from path \<open>loc i\<close>; \<open>src_ok\<close> are the
  directories an item may be moved from.
\<close>

locale item_store =
  fixes held :: "'h \<Rightarrow> string \<Rightarrow> bool"
    and loc :: "string \<Rightarrow> string"
    and src_ok :: "string \<Rightarrow> bool"
    and add :: "'h \<Rightarrow> string \<Rightarrow> string \<Rightarrow> string res \<times> 'h"
    and get :: "'h \<Rightarrow> string \<Rightarrow> string res"
    and remove :: "'h \<Rightarrow> string \<Rightarrow> unit res \<times> 'h"
  assumes loc_nonempty: "plain i \<Longrightarrow> loc i \<noteq> []"
    and get_Inr: "plain i \<Longrightarrow> get h i = Inr p \<longleftrightarrow> held h i \<and> p = loc i"
    and add_Inr: "plain i \<Longrightarrow> src_ok s \<Longrightarrow> add h i s = (Inr p, h') \<Longrightarrow> p = loc i \<and> held h' i"
    and add_other: "plain i \<Longrightarrow> plain j \<Longrightarrow> src_ok s \<Longrightarrow> i \<noteq> j \<Longrightarrow> held (snd (add h i s)) j = held h j"
    and add_held: "plain i \<Longrightarrow> held h i \<Longrightarrow> add h i s = (Inr (loc i), h)"
    and remove_Inr: "plain i \<Longrightarrow> remove h i = (Inr (), h') \<Longrightarrow> \<not> held h' i"
    and remove_other: "plain i \<Longrightarrow> plain j \<Longrightarrow> i \<noteq> j \<Longrightarrow> held (snd (remove h i)) j = held h j"
begin

lemma add_keeps: "plain i \<Longrightarrow> plain j \<Longrightarrow> src_ok s \<Longrightarrow> held h j \<Longrightarrow> held (snd (add h i s)) j"
  by (metis add_other add_held snd_conv)

lemma add_then_get:
  "plain i \<Longrightarrow> src_ok s \<Longrightarrow> add h i s = (Inr p, h') \<Longrightarrow> get h' i = Inr p"
  using add_Inr get_Inr by blast

lemma remove_then_get:
  "plain i \<Longrightarrow> remove h i = (Inr (), h') \<Longrightarrow> \<nexists>p. get h' i = Inr p"
  using remove_Inr get_Inr by blast

lemma remove_keeps_get:
  "plain i \<Longrightarrow> plain j \<Longrightarrow> i \<noteq> j \<Longrightarrow> get (snd (remove h i)) j = Inr p \<longleftrightarrow> get h j = Inr p"
  by (simp add: get_Inr remove_other)

end

section \<open>The store meets the contract\<close>

definition held :: "'h host \<Rightarrow> string \<Rightarrow> 'h \<Rightarrow> string \<Rightarrow> bool" where
  "held H sdir h i \<longleftrightarrow> directory_exists_and_not_empty H h (store_path sdir i) = Inr True"

text \<open>A source directory lies in the storage directory, apart from the store.\<close>

definition scratch_src :: "string \<Rightarrow> string \<Rightarrow> string \<Rightarrow> bool" where
  "scratch_src base sdir s \<longleftrightarrow> clean_abs s \<and> below base s \<and> unrelated sdir s"

lemma unrelated_below: "unrelated p q \<Longrightarrow> below p p' \<Longrightarrow> unrelated p' q"
  unfolding unrelated_def below_def
  by (meson prefix_order.trans prefix_same_cases)

lemma dir_nonempty_same:
  "same_at H h h' p \<Longrightarrow> directory_exists_and_not_empty H h' p = directory_exists_and_not_empty H h p"
  by (simp add: same_at_def directory_exists_and_not_empty_def split: sum.split)

lemma dir_nonempty_True:
  "directory_exists_and_not_empty H h p = Inr True \<longleftrightarrow>
   os_stat H h p = Inr KDir \<and> (\<exists>es. os_read_dir H h p = Inr es \<and> es \<noteq> [])"
  by (auto simp: directory_exists_and_not_empty_def split: sum.splits)

lemma dir_nonempty_gone: "gone H h p \<Longrightarrow> directory_exists_and_not_empty H h p = Inr False"
  by (auto simp: gone_def directory_exists_and_not_empty_def)

locale lib_store = host_laws H base for H :: "'h host" and base :: string +
  fixes sdir :: string
  assumes sdir_clean: "clean_abs sdir" and sdir_below: "below base sdir"
begin

lemma item_clean: "plain i \<Longrightarrow> clean_abs (store_path sdir i)"
  by (simp add: store_path_def clean_abs_join sdir_clean)

lemma item_below_sdir: "plain i \<Longrightarrow> below sdir (store_path sdir i)"
  by (simp add: store_path_def below_join sdir_clean)

lemma item_below: "plain i \<Longrightarrow> below base (store_path sdir i)"
  using item_below_sdir sdir_below below_trans by blast

lemma items_unrelated:
  "plain i \<Longrightarrow> plain j \<Longrightarrow> i \<noteq> j \<Longrightarrow> unrelated (store_path sdir i) (store_path sdir j)"
  unfolding store_path_def
  by (rule unrelated_siblings [of sdir i j]) (simp_all add: sdir_clean clean_abs_join)

lemma scratch_unrelated: "plain i \<Longrightarrow> scratch_src base sdir s \<Longrightarrow> unrelated s (store_path sdir i)"
  using item_below_sdir unrelated_below unrelated_sym by (metis scratch_src_def)

lemma same_held: "same_at H h h' (store_path sdir i) \<Longrightarrow> held H sdir h' i = held H sdir h i"
  by (simp add: held_def dir_nonempty_same)

lemma remove_all_scratch_held:
  "plain i \<Longrightarrow> scratch_src base sdir s \<Longrightarrow> held H sdir (snd (os_remove_all H h s)) i = held H sdir h i"
  by (intro same_held remove_all_frame)
     (auto simp: scratch_src_def item_clean item_below scratch_unrelated)

lemma rename_to_item:
  assumes "plain i" "scratch_src base sdir s" "os_rename H h s (store_path sdir i) = (None, h')"
    and "directory_exists_and_not_empty H h s = Inr True"
  shows "held H sdir h' i"
proof -
  have "os_stat H h s = Inr KDir" "\<exists>es. os_read_dir H h s = Inr es \<and> es \<noteq> []"
    using assms(4) by (simp_all add: dir_nonempty_True)
  moreover have "os_stat H h' (store_path sdir i) = Inr KDir \<and>
      os_read_dir H h' (store_path sdir i) = os_read_dir H h s"
    using assms calculation(1)
    by (intro rename_moves) (auto simp: scratch_src_def item_clean item_below)
  ultimately show ?thesis by (simp add: held_def dir_nonempty_True)
qed

lemma rename_other:
  assumes "plain i" "plain j" "i \<noteq> j" "scratch_src base sdir s"
  shows "held H sdir (snd (os_rename H h s (store_path sdir i))) j = held H sdir h j"
  using assms
  by (intro same_held rename_frame)
     (auto simp: scratch_src_def item_clean item_below items_unrelated scratch_unrelated)

lemma remove_item_other:
  assumes "plain i" "plain j" "i \<noteq> j"
  shows "held H sdir (snd (os_remove_all H h (store_path sdir i))) j = held H sdir h j"
  using assms
  by (intro same_held remove_all_frame) (auto simp: item_clean item_below items_unrelated)

end

sublocale lib_store \<subseteq> item_store "held H sdir" "store_path sdir" "scratch_src base sdir"
    "store_add H sdir" "store_get H sdir" "store_remove H sdir"
proof (unfold_locales, goal_cases)
  case (1 i)
  then show ?case using item_clean [OF 1] by (auto simp: clean_abs_def rooted_def)
next
  case (2 i h p)
  then show ?case by (auto simp: store_get_def store_exists_def held_def plain_def)
next
  case (3 i s h p h')
  then show ?case
    using rename_to_item [of i s h h']
    by (auto simp: store_add_def store_exists_def held_def plain_def
             split: if_splits sum.splits bool.splits prod.splits option.splits)
next
  case (4 i j s h)
  then show ?case
    using rename_other [of i j s h]
    by (auto simp: store_add_def split: sum.split bool.split prod.split option.split)
next
  case (5 i h s)
  then show ?case by (simp add: store_add_def store_exists_def held_def plain_def)
next
  case (6 i h h')
  have "os_remove_all H h (store_path sdir i) = (None, h') \<Longrightarrow> \<not> held H sdir h' i"
    using remove_all_gone [OF item_clean item_below, of i h h'] 6
    by (simp add: held_def dir_nonempty_gone)
  with 6 show ?case
    by (auto simp: store_remove_def store_exists_def held_def plain_def
             split: if_splits sum.splits bool.splits prod.splits option.splits)
next
  case (7 i j h)
  then show ?case
    using remove_item_other [of i j h]
    by (auto simp: store_remove_def split: sum.split bool.split prod.split option.split)
qed

context lib_store
begin

lemma contract:
  "item_store (held H sdir) (store_path sdir) (scratch_src base sdir)
     (store_add H sdir) (store_get H sdir) (store_remove H sdir)"
  by unfold_locales

lemma add_cases:
  assumes "plain i" "scratch_src base sdir src"
  shows "case store_add H sdir h i src of
           (Inr p, h') \<Rightarrow> p = store_path sdir i \<and> store_get H sdir h' i = Inr p
         | (Inl e, h') \<Rightarrow> store_get H sdir h i \<noteq> Inr (store_path sdir i)"
proof (cases "store_add H sdir h i src")
  case (Pair r h')
  show ?thesis
  proof (cases r)
    case (Inl e)
    then show ?thesis using Pair add_held [of i h src] assms(1) get_Inr by auto
  next
    case (Inr p)
    then show ?thesis
      using Pair assms add_Inr [of i src h p h'] add_then_get [of i src h p h'] by simp
  qed
qed

lemma remove_cases:
  assumes "plain i"
  shows "case store_remove H sdir h i of
           (Inr _, h') \<Rightarrow> store_get H sdir h' i \<noteq> Inr p
         | (Inl e, h') \<Rightarrow> True"
  using assms remove_then_get [of i h] by (auto split: prod.split sum.split)

end

interpretation mem_store: lib_store mem_host mem_base "path_join [mem_base, ''store'']"
  by unfold_locales (code_simp, code_simp)

section \<open>Properties\<close>

text \<open>A storage directory with one item in the store and one downloaded directory.\<close>

definition store_demo :: mem_state where
  "store_demo =
     \<lparr>mh_nodes = [([[], ''d''], MDir), ([[], ''d'', ''store''], MDir),
                  ([[], ''d'', ''store'', ''old''], MDir), ([[], ''d'', ''store'', ''old'', ''f''], MFile ''x''),
                  ([[], ''d'', ''tmp''], MDir), ([[], ''d'', ''tmp'', ''t''], MDir),
                  ([[], ''d'', ''tmp'', ''t'', ''lib.so''], MFile ''y'')],
      mh_mounts = [], mh_broken = [], mh_next = 0\<rparr>"

text \<open>
  \<open>Store.Add\<close> makes the item available: when it returns a path, that path is
  \<open>basePath/id\<close> and \<open>Store.Get\<close> returns it from then on; it fails only for an item that is
  not there yet; whether it succeeds or fails, \<open>Get\<close> of every other item is what it was; and
  an item that is already there is returned without touching the host.
\<close>
theorem store_add_get:
  assumes "lib_store H base sdir" "plain i" "plain j" "j \<noteq> i" "scratch_src base sdir src"
  shows "(case store_add H sdir h i src of
            (Inr p, h') \<Rightarrow> p = store_path sdir i \<and> store_get H sdir h' i = Inr p
          | (Inl e, h') \<Rightarrow> store_get H sdir h i \<noteq> Inr (store_path sdir i)) \<and>
         (store_get H sdir (snd (store_add H sdir h i src)) j = Inr q \<longleftrightarrow> store_get H sdir h j = Inr q) \<and>
         (store_get H sdir h i = Inr q \<longrightarrow> store_add H sdir h i src = (Inr q, h))"
proof -
  note item = lib_store.contract [OF assms(1)]
  have again: "store_get H sdir h i = Inr q \<longrightarrow> store_add H sdir h i src = (Inr q, h)"
    using item_store.get_Inr [OF item assms(2), of h q] item_store.add_held [OF item assms(2), of h src]
    by simp
  have "held H sdir (snd (store_add H sdir h i src)) j = held H sdir h j"
    by (rule item_store.add_other [OF item assms(2,3,5) assms(4) [symmetric]])
  then have "store_get H sdir (snd (store_add H sdir h i src)) j = Inr q \<longleftrightarrow> store_get H sdir h j = Inr q"
    by (simp add: item_store.get_Inr [OF item assms(3)])
  with again show ?thesis
    using lib_store.add_cases [OF assms(1,2,5), where h = h] by simp
qed

theorem store_add_get_witness:
  "store_get mem_host ''/d/store''
     (snd (store_add mem_host ''/d/store'' store_demo ''new'' ''/d/tmp/t'')) ''new'' = Inr ''/d/store/new'' \<and>
   (store_get mem_host ''/d/store''
     (snd (store_add mem_host ''/d/store'' store_demo ''new'' ''/d/tmp/t'')) ''old'' = Inr ''/d/store/old'')"
proof -
  have dir: "path_join [mem_base, ''store''] = ''/d/store''" by code_simp
  have st: "lib_store mem_host mem_base ''/d/store''"
    using mem_store.lib_store_axioms by (simp add: dir)
  have src: "scratch_src mem_base ''/d/store'' ''/d/tmp/t''" by code_simp
  have names: "plain ''new''" "plain ''old''" "''old'' \<noteq> ''new''" by code_simp+
  have run: "fst (store_add mem_host ''/d/store'' store_demo ''new'' ''/d/tmp/t'') = Inr ''/d/store/new''"
    by code_simp
  have old: "store_get mem_host ''/d/store'' store_demo ''old'' = Inr ''/d/store/old''" by code_simp
  show ?thesis
    using store_add_get [OF st names src, of store_demo "''/d/store/old''"] run old
    by (auto split: prod.splits)
qed

text \<open>
  \<open>Store.Remove\<close> makes the item unavailable: after a successful removal \<open>Get\<close> does not
  return it, removing an item that is not there succeeds and leaves the host alone, and whether it
  succeeds or fails every other item stays available.
\<close>
theorem store_remove_get:
  assumes "lib_store H base sdir" "plain i" "plain j" "j \<noteq> i"
  shows "(case store_remove H sdir h i of
            (Inr _, h') \<Rightarrow> store_get H sdir h' i \<noteq> Inr p
          | (Inl e, h') \<Rightarrow> True) \<and>
         (store_exists H sdir h i = Inr False \<longrightarrow> store_remove H sdir h i = (Inr (), h)) \<and>
         (store_get H sdir (snd (store_remove H sdir h i)) j = Inr q \<longleftrightarrow> store_get H sdir h j = Inr q)"
proof -
  note item = lib_store.contract [OF assms(1)]
  have "store_exists H sdir h i = Inr False \<longrightarrow> store_remove H sdir h i = (Inr (), h)"
    using assms(2) by (simp add: store_remove_def plain_def)
  then show ?thesis
    using lib_store.remove_cases [OF assms(1,2), where h = h and p = p]
      item_store.remove_keeps_get [OF item assms(2,3) assms(4) [symmetric]] by blast
qed

theorem store_remove_get_witness:
  "store_get mem_host ''/d/store''
     (snd (store_remove mem_host ''/d/store'' store_demo ''old'')) ''old'' \<noteq> Inr ''/d/store/old'' \<and>
   store_get mem_host ''/d/store''
     (snd (store_remove mem_host ''/d/store'' store_demo ''old'')) ''other'' \<noteq> Inr ''/d/store/other''"
proof -
  have dir: "path_join [mem_base, ''store''] = ''/d/store''" by code_simp
  have st: "lib_store mem_host mem_base ''/d/store''"
    using mem_store.lib_store_axioms by (simp add: dir)
  have names: "plain ''old''" "plain ''other''" "''other'' \<noteq> ''old''" by code_simp+
  have run: "fst (store_remove mem_host ''/d/store'' store_demo ''old'') = Inr ()" by code_simp
  have other: "store_get mem_host ''/d/store'' store_demo ''other'' = Inl ErrItemNotFound"
    by code_simp
  show ?thesis
    using store_remove_get [OF st names, where h = store_demo and p = "''/d/store/old''" and q = "''/d/store/other''"] run other
    by (auto split: prod.splits)
qed

end
