(* ===== verification/Bolt_Db.thy ===== *)
theory Bolt_Db
  imports Csi_Prelude
begin

text \<open>
  The embedded key/value store \<open>go.etcd.io/bbolt\<close> and the JSON codec, as parameters of the
  database model. \<open>bolt_laws\<close> and \<open>json_laws\<close> state the documented behaviour the database
  relies on; \<open>mem_bolt\<close> and \<open>mem_json\<close> are concrete instances for the witnesses.
\<close>

section \<open>Records of the database\<close>

text \<open>\<open>volumeRecord\<close> and \<open>libraryRecord\<close> of \<open>db.go\<close>; times are nanoseconds.\<close>

record volume_record =
  LibraryID :: string
  CreatedAt :: int
  FromCache :: bool

record library_record =
  Package :: string
  SizeBytes :: int
  VolumeCount :: int

definition zero_volume :: volume_record where
  "zero_volume = \<lparr>LibraryID = [], CreatedAt = 0, FromCache = False\<rparr>"

definition zero_library :: library_record where
  "zero_library = \<lparr>Package = [], SizeBytes = 0, VolumeCount = 0\<rparr>"

section \<open>bbolt\<close>

text \<open>
  A value of \<open>'d\<close> is the content of the database as a transaction sees it. \<open>tx_begin\<close> fails
  when no transaction can be started (for example after \<open>Close\<close>); \<open>tx_bucket d b\<close> says that
  bucket \<open>b\<close> exists; \<open>bk_items\<close> are the pairs \<open>ForEach\<close> visits, in its order; \<open>bk_subs\<close>
  and \<open>bk_sub_keys\<close> are the nested buckets \<open>ForEachBucket\<close> visits and the keys of one of
  them; \<open>tx_commit old new\<close> ends a write transaction. Values are of a type \<open>'r\<close>.
\<close>

record ('r, 'd) bolt =
  tx_begin :: "'d \<Rightarrow> goerr option"
  tx_bucket :: "'d \<Rightarrow> string \<Rightarrow> bool"
  bk_get :: "'d \<Rightarrow> string \<Rightarrow> string \<Rightarrow> 'r option"
  bk_put :: "'d \<Rightarrow> string \<Rightarrow> string \<Rightarrow> 'r \<Rightarrow> 'd res"
  bk_delete :: "'d \<Rightarrow> string \<Rightarrow> string \<Rightarrow> 'd res"
  bk_items :: "'d \<Rightarrow> string \<Rightarrow> (string \<times> 'r) list"
  bk_subs :: "'d \<Rightarrow> string \<Rightarrow> string list"
  bk_sub_keys :: "'d \<Rightarrow> string \<Rightarrow> string \<Rightarrow> string list"
  tx_create :: "'d \<Rightarrow> string \<Rightarrow> 'd res"
  tx_delete_bucket :: "'d \<Rightarrow> string \<Rightarrow> 'd res"
  tx_commit :: "'d \<Rightarrow> 'd \<Rightarrow> goerr option \<times> 'd"
  bolt_close :: "'d \<Rightarrow> goerr option \<times> 'd"

text \<open>Two states a reader cannot tell apart.\<close>

definition same_data :: "('r, 'd) bolt \<Rightarrow> 'd \<Rightarrow> 'd \<Rightarrow> bool" where
  "same_data B d d' \<longleftrightarrow>
     tx_bucket B d' = tx_bucket B d \<and> bk_get B d' = bk_get B d \<and>
     bk_subs B d' = bk_subs B d \<and> bk_sub_keys B d' = bk_sub_keys B d"

text \<open>
  \<open>DB.Update\<close> runs a function in a write transaction: an error rolls everything back, otherwise
  the transaction is committed. \<open>DB.View\<close> runs a function in a read-only one.
\<close>

definition db_update :: "('r, 'd) bolt \<Rightarrow> ('d \<Rightarrow> ('a \<times> 'd) res) \<Rightarrow> 'd \<Rightarrow> 'a res \<times> 'd" where
  "db_update B f d =
     (case tx_begin B d of
        Some e \<Rightarrow> (Inl e, d)
      | None \<Rightarrow>
          (case f d of
             Inl e \<Rightarrow> (Inl e, d)
           | Inr (a, t) \<Rightarrow>
               (case tx_commit B d t of (Some e, d') \<Rightarrow> (Inl e, d') | (None, d') \<Rightarrow> (Inr a, d'))))"

definition db_view :: "('r, 'd) bolt \<Rightarrow> ('d \<Rightarrow> 'a res) \<Rightarrow> 'd \<Rightarrow> 'a res" where
  "db_view B f d = (case tx_begin B d of Some e \<Rightarrow> Inl e | None \<Rightarrow> f d)"

locale bolt_laws =
  fixes B :: "('r, 'd) bolt"
  assumes put_get:
      "bk_put B d b k r = Inr d' \<Longrightarrow>
       bk_get B d' = (bk_get B d)(b := (bk_get B d b)(k \<mapsto> r))"
    and put_rest:
      "bk_put B d b k r = Inr d' \<Longrightarrow> tx_bucket B d' = tx_bucket B d \<and>
       bk_subs B d' = bk_subs B d \<and> bk_sub_keys B d' = bk_sub_keys B d"
    and delete_get:
      "bk_delete B d b k = Inr d' \<Longrightarrow>
       bk_get B d' = (bk_get B d)(b := (bk_get B d b)(k := None))"
    and delete_rest:
      "bk_delete B d b k = Inr d' \<Longrightarrow> tx_bucket B d' = tx_bucket B d \<and>
       bk_subs B d' = bk_subs B d \<and> bk_sub_keys B d' = bk_sub_keys B d"
    and items_get: "set (bk_items B d b) = {(k, r). bk_get B d b k = Some r}"
    and items_distinct: "distinct (map fst (bk_items B d b))"
    and create_bucket:
      "tx_create B d b = Inr d' \<Longrightarrow> tx_bucket B d' = (tx_bucket B d)(b := True) \<and>
       bk_get B d' = bk_get B d \<and> bk_subs B d' = bk_subs B d \<and> bk_sub_keys B d' = bk_sub_keys B d"
    and delete_bucket:
      "tx_delete_bucket B d b = Inr d' \<Longrightarrow> tx_bucket B d' = (tx_bucket B d)(b := False) \<and>
       bk_get B d' = (bk_get B d)(b := Map.empty) \<and>
       bk_subs B d' = (bk_subs B d)(b := [])"
    and no_bucket: "\<not> tx_bucket B d b \<Longrightarrow> bk_get B d b = Map.empty"
    and subs_distinct: "distinct (bk_subs B d b)"
    and commit_ok: "tx_commit B d t = (None, d') \<Longrightarrow> same_data B t d'"
    and commit_error: "tx_commit B d t = (Some e, d') \<Longrightarrow> same_data B d d'"
begin

lemma finite_bucket: "finite (dom (bk_get B d b))"
proof -
  have "dom (bk_get B d b) = fst ` set (bk_items B d b)"
    by (force simp: items_get)
  then show ?thesis by simp
qed

text \<open>A transaction that reports success has its function's effect; otherwise nothing changes.\<close>

lemma update_Inr:
  "db_update B f d = (Inr a, d') \<Longrightarrow> \<exists>t. f d = Inr (a, t) \<and> same_data B t d'"
  by (auto simp: db_update_def commit_ok split: option.splits sum.splits prod.splits)

lemma update_Inl: "db_update B f d = (Inl e, d') \<Longrightarrow> same_data B d d'"
  by (auto simp: db_update_def same_data_def dest: commit_error
           split: option.splits sum.splits prod.splits)

end

section \<open>JSON\<close>

text \<open>
  Encoders and decoders of the two record types, and the decoder of the legacy metadata. What
  the database relies on is that decoding returns what was encoded.
\<close>

record 'r json =
  enc_volume :: "volume_record \<Rightarrow> 'r res"
  dec_volume :: "'r \<Rightarrow> volume_record res"
  enc_library :: "library_record \<Rightarrow> 'r res"
  dec_library :: "'r \<Rightarrow> library_record res"
  dec_metadata :: "'r \<Rightarrow> (string \<times> int) res"

locale json_laws =
  fixes J :: "'r json"
  assumes volume_roundtrip: "enc_volume J v = Inr r \<Longrightarrow> dec_volume J r = Inr v"
    and library_roundtrip: "enc_library J l = Inr r \<Longrightarrow> dec_library J r = Inr l"

section \<open>Concrete instances\<close>

text \<open>
  A database in memory: buckets and nested buckets are association lists, \<open>mb_faults\<close> says for
  each of the next commits whether it fails, and \<open>mb_closed\<close> whether the database was closed.
\<close>

datatype mem_raw = RVolume volume_record | RLibrary library_record | RMeta string int | RGarbled

record mem_db =
  mb_buckets :: "(string \<times> (string \<times> mem_raw) list) list"
  mb_subs :: "(string \<times> (string \<times> string list) list) list"
  mb_faults :: "bool list"
  mb_closed :: bool

definition aget :: "(string \<times> 'a list) list \<Rightarrow> string \<Rightarrow> 'a list" where
  "aget m b = (case map_of m b of None \<Rightarrow> [] | Some x \<Rightarrow> x)"

definition aremove :: "string \<Rightarrow> (string \<times> 'a) list \<Rightarrow> (string \<times> 'a) list" where
  "aremove k m = filter (\<lambda>x. fst x \<noteq> k) m"

definition dedup :: "(string \<times> 'a) list \<Rightarrow> (string \<times> 'a) list" where
  "dedup m = map (\<lambda>k. (k, the (map_of m k))) (remdups (map fst m))"

definition mem_bolt :: "(mem_raw, mem_db) bolt" where
  "mem_bolt =
     \<lparr>tx_begin = (\<lambda>d. if mb_closed d then Some (ExtErr ''database not open'') else None),
      tx_bucket = (\<lambda>d b. map_of (mb_buckets d) b \<noteq> None),
      bk_get = (\<lambda>d b k. map_of (aget (mb_buckets d) b) k),
      bk_put = (\<lambda>d b k r. case map_of (mb_buckets d) b of
                    None \<Rightarrow> Inl (ExtErr ''bucket not found'')
                  | Some m \<Rightarrow> Inr (d\<lparr>mb_buckets := (b, (k, r) # aremove k m) # aremove b (mb_buckets d)\<rparr>)),
      bk_delete = (\<lambda>d b k. case map_of (mb_buckets d) b of
                    None \<Rightarrow> Inl (ExtErr ''bucket not found'')
                  | Some m \<Rightarrow> Inr (d\<lparr>mb_buckets := (b, aremove k m) # aremove b (mb_buckets d)\<rparr>)),
      bk_items = (\<lambda>d b. dedup (aget (mb_buckets d) b)),
      bk_subs = (\<lambda>d b. remdups (map fst (aget (mb_subs d) b))),
      bk_sub_keys = (\<lambda>d b s. aget (aget (mb_subs d) b) s),
      tx_create = (\<lambda>d b. Inr (if map_of (mb_buckets d) b \<noteq> None then d
                              else d\<lparr>mb_buckets := (b, []) # mb_buckets d\<rparr>)),
      tx_delete_bucket = (\<lambda>d b. Inr (d\<lparr>mb_buckets := aremove b (mb_buckets d),
                                       mb_subs := aremove b (mb_subs d)\<rparr>)),
      tx_commit = (\<lambda>d t. case mb_faults t of
                     True # fs \<Rightarrow> (Some (ExtErr ''commit failed''), d\<lparr>mb_faults := fs\<rparr>)
                   | False # fs \<Rightarrow> (None, t\<lparr>mb_faults := fs\<rparr>)
                   | [] \<Rightarrow> (None, t)),
      bolt_close = (\<lambda>d. (None, d\<lparr>mb_closed := True\<rparr>))\<rparr>"

definition mem_json :: "mem_raw json" where
  "mem_json =
     \<lparr>enc_volume = (\<lambda>v. Inr (RVolume v)),
      dec_volume = (\<lambda>r. case r of RVolume v \<Rightarrow> Inr v | _ \<Rightarrow> Inl (ExtErr ''json'')),
      enc_library = (\<lambda>l. Inr (RLibrary l)),
      dec_library = (\<lambda>r. case r of RLibrary l \<Rightarrow> Inr l | _ \<Rightarrow> Inl (ExtErr ''json'')),
      dec_metadata = (\<lambda>r. case r of RMeta p n \<Rightarrow> Inr (p, n) | _ \<Rightarrow> Inl (ExtErr ''json''))\<rparr>"

interpretation mem_js: json_laws mem_json
  by unfold_locales (simp_all add: mem_json_def)

lemma map_of_aremove: "map_of (aremove k m) = (map_of m)(k := None)"
  by (induction m) (auto simp: aremove_def fun_eq_iff)

lemma set_dedup: "(k, r) \<in> set (dedup m) \<longleftrightarrow> map_of m k = Some r"
proof -
  have "(k, r) \<in> set (dedup m) \<longleftrightarrow> k \<in> fst ` set m \<and> r = the (map_of m k)"
    by (auto simp: dedup_def)
  also have "\<dots> \<longleftrightarrow> map_of m k = Some r"
    using map_of_eq_None_iff [of m k] by (cases "map_of m k") auto
  finally show ?thesis .
qed

lemma distinct_dedup: "distinct (map fst (dedup m))"
  by (simp add: dedup_def comp_def)

interpretation mem_bt: bolt_laws mem_bolt
proof (unfold_locales, goal_cases)
  case (1 d b k r d')
  then show ?case
    by (auto simp: mem_bolt_def aget_def map_of_aremove fun_eq_iff split: option.splits if_splits)
next
  case (2 d b k r d')
  then show ?case
    by (auto simp: mem_bolt_def aget_def map_of_aremove fun_eq_iff split: option.splits if_splits)
next
  case (3 d b k d')
  then show ?case
    by (auto simp: mem_bolt_def aget_def map_of_aremove fun_eq_iff split: option.splits if_splits)
next
  case (4 d b k d')
  then show ?case
    by (auto simp: mem_bolt_def aget_def map_of_aremove fun_eq_iff split: option.splits if_splits)
next
  case (5 d b)
  show ?case by (auto simp: mem_bolt_def set_dedup)
next
  case (6 d b)
  show ?case by (simp add: mem_bolt_def distinct_dedup)
next
  case (7 d b d')
  then show ?case
    by (auto simp: mem_bolt_def aget_def fun_eq_iff split: option.splits if_splits)
next
  case (8 d b d')
  then show ?case
    by (auto simp: mem_bolt_def aget_def map_of_aremove fun_eq_iff split: option.splits if_splits)
next
  case (9 d b)
  then show ?case by (simp add: mem_bolt_def aget_def)
next
  case (10 d b)
  show ?case by (simp add: mem_bolt_def)
next
  case (11 d t d')
  then show ?case
    by (auto simp: mem_bolt_def same_data_def split: list.splits bool.splits)
next
  case (12 d t e d')
  then show ?case
    by (auto simp: mem_bolt_def same_data_def split: list.splits bool.splits)
qed

end
