(* ===== verification/Lib_Ledger.thy ===== *)
theory Lib_Ledger
  imports Bolt_Db
begin

text \<open>
  The abstract specification of the tracking database: a ledger of which volume uses which
  library, and of what is known about each library. The database of \<open>db.go\<close> is shown to
  implement it in \<open>Lib_Database\<close>; the library manager is reasoned about on the ledger.
\<close>

record ledger =
  lg_vols :: "string \<rightharpoonup> volume_record"
  lg_libs :: "string \<rightharpoonup> library_record"

definition lib_at :: "ledger \<Rightarrow> string \<Rightarrow> library_record" where
  "lib_at L l = (case lg_libs L l of None \<Rightarrow> zero_library | Some r \<Rightarrow> r)"

definition users :: "ledger \<Rightarrow> string \<Rightarrow> string set" where
  "users L l = {v. \<exists>r. lg_vols L v = Some r \<and> LibraryID r = l}"

definition lg_link :: "int \<Rightarrow> string \<Rightarrow> string \<Rightarrow> bool \<Rightarrow> ledger \<Rightarrow> ledger" where
  "lg_link now l v fc L =
     (if lg_vols L v \<noteq> None then L
      else L\<lparr>lg_vols := (lg_vols L)(v \<mapsto> \<lparr>LibraryID = l, CreatedAt = now, FromCache = fc\<rparr>),
             lg_libs := (lg_libs L)(l \<mapsto> (lib_at L l)\<lparr>VolumeCount := wrap64 (VolumeCount (lib_at L l) + 1)\<rparr>)\<rparr>)"

definition lg_unlink :: "string \<Rightarrow> ledger \<Rightarrow> (string \<times> string) \<times> ledger" where
  "lg_unlink v L =
     (case lg_vols L v of
        None \<Rightarrow> (([], []), L)
      | Some r \<Rightarrow>
          (let l = LibraryID r; lr = lib_at L l; L1 = L\<lparr>lg_vols := (lg_vols L)(v := None)\<rparr> in
           ((l, Package lr),
            if VolumeCount lr > 0
            then L1\<lparr>lg_libs := (lg_libs L)(l \<mapsto> lr\<lparr>VolumeCount := wrap64 (VolumeCount lr - 1)\<rparr>)\<rparr>
            else L1)))"

definition lg_add :: "string \<Rightarrow> string \<Rightarrow> int \<Rightarrow> ledger \<Rightarrow> ledger" where
  "lg_add l p n L = L\<lparr>lg_libs := (lg_libs L)(l \<mapsto> (lib_at L l)\<lparr>Package := p, SizeBytes := n\<rparr>)\<rparr>"

definition lg_remove :: "string \<Rightarrow> ledger \<Rightarrow> ledger" where
  "lg_remove l L = L\<lparr>lg_libs := (lg_libs L)(l := None)\<rparr>"

text \<open>
  A ledger is consistent when each library's count is the number of volumes that use it. The
  number of volumes stays below \<open>2 ^ 63\<close>, so that no count wraps around.
\<close>

definition consistent :: "ledger \<Rightarrow> bool" where
  "consistent L \<longleftrightarrow>
     finite (dom (lg_vols L)) \<and> int (card (dom (lg_vols L))) < 2 ^ 63 \<and>
     (\<forall>l. VolumeCount (lib_at L l) = int (card (users L l))) \<and>
     lg_vols L [] = None \<and> (\<forall>v r. lg_vols L v = Some r \<longrightarrow> LibraryID r \<noteq> [])"

definition empty_ledger :: ledger where
  "empty_ledger = \<lparr>lg_vols = Map.empty, lg_libs = Map.empty\<rparr>"

lemma consistent_empty: "consistent empty_ledger"
  by (simp add: consistent_def empty_ledger_def lib_at_def users_def zero_library_def)

lemma consistent_count: "consistent L \<Longrightarrow> VolumeCount (lib_at L l) = int (card (users L l))"
  by (simp add: consistent_def)

lemma users_finite: "consistent L \<Longrightarrow> finite (users L l)"
  unfolding consistent_def users_def
  by (elim conjE, rule finite_subset [of _ "dom (lg_vols L)"]) auto

lemma count_bound: "consistent L \<Longrightarrow> int (card (users L l)) < 2 ^ 63"
proof -
  assume L: "consistent L"
  have "card (users L l) \<le> card (dom (lg_vols L))"
    using L by (intro card_mono) (auto simp: consistent_def users_def)
  then show ?thesis using L by (simp add: consistent_def)
qed

lemma count_positive:
  "consistent L \<Longrightarrow> lg_vols L v = Some r \<Longrightarrow> VolumeCount (lib_at L (LibraryID r)) > 0"
proof -
  assume L: "consistent L" and v: "lg_vols L v = Some r"
  then have "users L (LibraryID r) \<noteq> {}" by (auto simp: users_def)
  then have "card (users L (LibraryID r)) > 0"
    using users_finite [OF L] by (simp add: card_gt_0_iff)
  then show ?thesis by (simp add: consistent_count [OF L])
qed

lemma count_zero_unused:
  "consistent L \<Longrightarrow> \<not> VolumeCount (lib_at L l) > 0 \<Longrightarrow> users L l = {}"
  by (simp add: consistent_count users_finite)

lemma users_link:
  "lg_vols L v = None \<Longrightarrow>
   users (lg_link now l v fc L) k = (if k = l then insert v (users L k) else users L k)"
  by (auto simp: users_def lg_link_def)

lemma users_unlink:
  "lg_vols L v = Some r \<Longrightarrow>
   users (snd (lg_unlink v L)) k = (if k = LibraryID r then users L k - {v} else users L k)"
  by (auto simp: users_def lg_unlink_def Let_def)

lemma users_add [simp]: "users (lg_add l p n L) k = users L k"
  by (simp add: users_def lg_add_def)

lemma users_remove [simp]: "users (lg_remove l L) k = users L k"
  by (simp add: users_def lg_remove_def)

lemma consistent_link:
  assumes "consistent L" "v \<noteq> []" "l \<noteq> []" "int (card (dom (lg_vols L))) + 1 < 2 ^ 63"
  shows "consistent (lg_link now l v fc L)"
proof (cases "lg_vols L v")
  case None
  let ?L = "lg_link now l v fc L"
  have v: "v \<notin> users L l" using None by (simp add: users_def)
  have "VolumeCount (lib_at ?L k) = int (card (users ?L k))" for k
  proof (cases "k = l")
    case True
    have "VolumeCount (lib_at ?L l) = wrap64 (int (card (users L l)) + 1)"
      using None assms(1) by (simp add: lg_link_def lib_at_def consistent_def)
    also have "\<dots> = int (card (insert v (users L l)))"
    proof -
      have "card (users L l) \<le> card (dom (lg_vols L))"
        using assms(1) by (intro card_mono) (auto simp: consistent_def users_def)
      then have "wrap64 (int (card (users L l)) + 1) = int (card (users L l)) + 1"
        using assms(4) by (intro wrap64_id) (simp add: in_int64_def)
      then show ?thesis using v users_finite [OF assms(1)] by simp
    qed
    finally show ?thesis using True by (simp add: users_link None)
  next
    case False
    then show ?thesis
      using None assms(1) by (simp add: users_link) (simp add: lg_link_def lib_at_def consistent_def)
  qed
  moreover have "dom (lg_vols ?L) = insert v (dom (lg_vols L))"
    using None by (auto simp: lg_link_def)
  moreover have "v \<notin> dom (lg_vols L)" using None by auto
  ultimately show ?thesis
    using assms None by (auto simp: consistent_def lg_link_def)
qed (use assms in \<open>simp add: lg_link_def\<close>)

lemma consistent_unlink:
  assumes "consistent L"
  shows "consistent (snd (lg_unlink v L))"
proof (cases "lg_vols L v")
  case (Some r)
  let ?L = "snd (lg_unlink v L)" and ?l = "LibraryID r"
  have pos: "VolumeCount (lib_at L ?l) > 0" using assms Some by (rule count_positive)
  have v: "v \<in> users L ?l" using Some by (simp add: users_def)
  have "VolumeCount (lib_at ?L k) = int (card (users ?L k))" for k
  proof (cases "k = ?l")
    case True
    have "VolumeCount (lib_at ?L ?l) = wrap64 (int (card (users L ?l)) - 1)"
      using Some pos assms by (simp add: lg_unlink_def Let_def lib_at_def consistent_def)
    also have "\<dots> = int (card (users L ?l)) - 1"
      using count_bound [OF assms, of ?l] by (intro wrap64_id) (simp add: in_int64_def)
    also have "\<dots> = int (card (users L ?l - {v}))"
      by (rule card_remove [OF users_finite [OF assms] v, symmetric])
    finally show ?thesis using True Some by (simp add: users_unlink)
  next
    case False
    then show ?thesis
      using Some assms pos
      by (simp add: users_unlink) (simp add: lg_unlink_def Let_def lib_at_def consistent_def)
  qed
  moreover have d: "dom (lg_vols ?L) = dom (lg_vols L) - {v}"
    using Some pos by (auto simp: lg_unlink_def Let_def)
  moreover have "card (dom (lg_vols L) - {v}) \<le> card (dom (lg_vols L))"
    using assms by (intro card_mono) (auto simp: consistent_def)
  ultimately show ?thesis
    using assms Some pos by (auto simp: consistent_def lg_unlink_def Let_def)
qed (use assms in \<open>simp add: lg_unlink_def\<close>)

lemma consistent_add: "consistent L \<Longrightarrow> consistent (lg_add l p n L)"
proof -
  assume L: "consistent L"
  have "VolumeCount (lib_at (lg_add l p n L) k) = VolumeCount (lib_at L k)" for k
    by (simp add: lg_add_def lib_at_def)
  with L show ?thesis by (simp add: consistent_def) (simp add: lg_add_def)
qed

lemma consistent_remove: "consistent L \<Longrightarrow> users L l = {} \<Longrightarrow> consistent (lg_remove l L)"
proof -
  assume L: "consistent L" and u: "users L l = {}"
  have "VolumeCount (lib_at (lg_remove l L) k) = VolumeCount (lib_at L k)" for k
    using L u by (cases "k = l") (simp_all add: lg_remove_def lib_at_def consistent_def zero_library_def)
  with L show ?thesis by (simp add: consistent_def) (simp add: lg_remove_def)
qed

end
