(* ===== verification/Lib_Database.thy ===== *)
theory Lib_Database
  imports Lib_Ledger
begin

text \<open>
  \<open>pkg/librarymanager/db.go\<close>: the volumes and libraries the driver keeps track of. First the
  operations, transaction by transaction; then the abstract ledger they implement, and the
  refinement between the two.
\<close>

section \<open>The operations of the database\<close>

definition VolumesBucket :: string where "VolumesBucket = ''volumes''"
definition LibrariesBucket :: string where "LibrariesBucket = ''libraries''"
definition legacyLibraryMappingBucket :: string where
  "legacyLibraryMappingBucket = ''library-mappings''"
definition legacyVolumeMappingBucket :: string where
  "legacyVolumeMappingBucket = ''volume-mappings''"
definition legacyLibraryMetadataBucket :: string where
  "legacyLibraryMetadataBucket = ''library-metadata''"

lemmas bucket_defs = VolumesBucket_def LibrariesBucket_def legacyLibraryMappingBucket_def
  legacyVolumeMappingBucket_def legacyLibraryMetadataBucket_def

lemma bucket_neq [simp]: "VolumesBucket \<noteq> LibrariesBucket" "LibrariesBucket \<noteq> VolumesBucket"
  by (simp_all add: bucket_defs)

subsection \<open>Records inside a transaction\<close>

definition getLibrary :: "'r json \<Rightarrow> ('r, 'd) bolt \<Rightarrow> 'd \<Rightarrow> string \<Rightarrow> library_record res" where
  "getLibrary J B t libraryID =
     (case bk_get B t LibrariesBucket libraryID of
        None \<Rightarrow> Inr zero_library
      | Some raw \<Rightarrow> wrap_err ''could not unmarshal library record: %w'' [] (dec_library J raw))"

definition putLibrary :: "'r json \<Rightarrow> ('r, 'd) bolt \<Rightarrow> 'd \<Rightarrow> string \<Rightarrow> library_record \<Rightarrow> 'd res" where
  "putLibrary J B t libraryID rec =
     and_then (wrap_err ''could not marshal library record: %w'' [] (enc_library J rec))
       (\<lambda>encoded. wrap_err ''could not write library record: %w'' []
          (bk_put B t LibrariesBucket libraryID encoded))"

definition getVolume :: "'r json \<Rightarrow> ('r, 'd) bolt \<Rightarrow> 'd \<Rightarrow> string \<Rightarrow> (volume_record \<times> bool) res" where
  "getVolume J B t volumeID =
     (case bk_get B t VolumesBucket volumeID of
        None \<Rightarrow> Inr (zero_volume, False)
      | Some raw \<Rightarrow>
          and_then (wrap_err ''could not unmarshal volume record: %w'' [] (dec_volume J raw))
            (\<lambda>rec. Inr (rec, True)))"

definition putVolume :: "'r json \<Rightarrow> ('r, 'd) bolt \<Rightarrow> 'd \<Rightarrow> string \<Rightarrow> volume_record \<Rightarrow> 'd res" where
  "putVolume J B t volumeID rec =
     and_then (wrap_err ''could not marshal volume record: %w'' [] (enc_volume J rec))
       (\<lambda>encoded. wrap_err ''could not write volume record: %w'' []
          (bk_put B t VolumesBucket volumeID encoded))"

subsection \<open>Writing operations\<close>

text \<open>Each write is a function on the transaction, as the closure the code passes to \<open>Update\<close>.\<close>

definition add_tx :: "'r json \<Rightarrow> ('r, 'd) bolt \<Rightarrow> string \<Rightarrow> string \<Rightarrow> int \<Rightarrow> 'd \<Rightarrow> (unit \<times> 'd) res" where
  "add_tx J B libraryID packageName sizeBytes t =
     (if \<not> tx_bucket B t LibrariesBucket then Inl (Errorf ''libraries bucket does not exist'' [])
      else and_then (getLibrary J B t libraryID)
        (\<lambda>rec. and_then (putLibrary J B t libraryID
                   (rec\<lparr>Package := packageName, SizeBytes := sizeBytes\<rparr>))
          (\<lambda>t'. Inr ((), t'))))"

definition AddLibrary ::
  "'r json \<Rightarrow> ('r, 'd) bolt \<Rightarrow> string \<Rightarrow> string \<Rightarrow> int \<Rightarrow> 'd \<Rightarrow> unit res \<times> 'd" where
  "AddLibrary J B libraryID packageName sizeBytes d =
     (if libraryID = [] then (Inl (Errorf ''library ID cannot be blank'' []), d)
      else if packageName = [] then (Inl (Errorf ''package name cannot be blank'' []), d)
      else db_update B (add_tx J B libraryID packageName sizeBytes) d)"

definition remove_tx :: "('r, 'd) bolt \<Rightarrow> string \<Rightarrow> 'd \<Rightarrow> (unit \<times> 'd) res" where
  "remove_tx B libraryID t =
     (if \<not> tx_bucket B t LibrariesBucket then Inl (Errorf ''libraries bucket does not exist'' [])
      else and_then (bk_delete B t LibrariesBucket libraryID) (\<lambda>t'. Inr ((), t')))"

definition RemoveLibrary :: "('r, 'd) bolt \<Rightarrow> string \<Rightarrow> 'd \<Rightarrow> unit res \<times> 'd" where
  "RemoveLibrary B libraryID d =
     (if libraryID = [] then (Inl (Errorf ''library ID cannot be blank'' []), d)
      else db_update B (remove_tx B libraryID) d)"

text \<open>\<open>now\<close> is the value of \<open>time.Now().UTC()\<close> inside the transaction.\<close>

definition link_tx ::
  "'r json \<Rightarrow> ('r, 'd) bolt \<Rightarrow> int \<Rightarrow> string \<Rightarrow> string \<Rightarrow> bool \<Rightarrow> 'd \<Rightarrow> (unit \<times> 'd) res" where
  "link_tx J B now libraryID volumeID fromCache t =
     (if \<not> tx_bucket B t VolumesBucket \<or> \<not> tx_bucket B t LibrariesBucket
      then Inl (Errorf ''database buckets do not exist'' [])
      else and_then (getVolume J B t volumeID) (\<lambda>(_, linked).
        if linked then Inr ((), t)
        else and_then (putVolume J B t volumeID
               \<lparr>LibraryID = libraryID, CreatedAt = now, FromCache = fromCache\<rparr>) (\<lambda>t1.
          and_then (getLibrary J B t1 libraryID) (\<lambda>rec.
          and_then (putLibrary J B t1 libraryID
                      (rec\<lparr>VolumeCount := wrap64 (VolumeCount rec + 1)\<rparr>)) (\<lambda>t2.
          Inr ((), t2))))))"

definition LinkVolume ::
  "'r json \<Rightarrow> ('r, 'd) bolt \<Rightarrow> int \<Rightarrow> string \<Rightarrow> string \<Rightarrow> bool \<Rightarrow> 'd \<Rightarrow> unit res \<times> 'd" where
  "LinkVolume J B now libraryID volumeID fromCache d =
     (if libraryID = [] then (Inl (Errorf ''library ID cannot be blank'' []), d)
      else if volumeID = [] then (Inl (Errorf ''volume ID cannot be blank'' []), d)
      else db_update B (link_tx J B now libraryID volumeID fromCache) d)"

text \<open>The closure also assigns the library ID and the package name the function returns.\<close>

definition unlink_tx ::
  "'r json \<Rightarrow> ('r, 'd) bolt \<Rightarrow> string \<Rightarrow> 'd \<Rightarrow> ((string \<times> string) \<times> 'd) res" where
  "unlink_tx J B volumeID t =
     (if \<not> tx_bucket B t VolumesBucket \<or> \<not> tx_bucket B t LibrariesBucket
      then Inl (Errorf ''database buckets do not exist'' [])
      else and_then (getVolume J B t volumeID) (\<lambda>(rec, linked).
        if \<not> linked then Inr (([], []), t)
        else and_then (wrap_err ''could not delete volume record %s: %w'' [volumeID]
                         (bk_delete B t VolumesBucket volumeID)) (\<lambda>t1.
          and_then (getLibrary J B t1 (LibraryID rec)) (\<lambda>libRec.
          if VolumeCount libRec > 0
          then and_then (putLibrary J B t1 (LibraryID rec)
                           (libRec\<lparr>VolumeCount := wrap64 (VolumeCount libRec - 1)\<rparr>)) (\<lambda>t2.
               Inr ((LibraryID rec, Package libRec), t2))
          else Inr ((LibraryID rec, Package libRec), t1)))))"

definition UnlinkVolume ::
  "'r json \<Rightarrow> ('r, 'd) bolt \<Rightarrow> string \<Rightarrow> 'd \<Rightarrow> (string \<times> string) res \<times> 'd" where
  "UnlinkVolume J B volumeID d =
     (if volumeID = [] then (Inl (Errorf ''volume ID cannot be blank'' []), d)
      else db_update B (unlink_tx J B volumeID) d)"

subsection \<open>Reading operations\<close>

definition db_GetLibraryForVolume ::
  "'r json \<Rightarrow> ('r, 'd) bolt \<Rightarrow> string \<Rightarrow> 'd \<Rightarrow> string res" where
  "db_GetLibraryForVolume J B volumeID d =
     (if volumeID = [] then Inl (Errorf ''volume ID cannot be blank'' [])
      else db_view B (\<lambda>t.
        if \<not> tx_bucket B t VolumesBucket then Inl (Errorf ''volumes bucket does not exist'' [])
        else and_then (getVolume J B t volumeID) (\<lambda>(rec, _). Inr (LibraryID rec))) d)"

text \<open>\<open>LibraryInfo\<close> has the fields of \<open>libraryRecord\<close>, and the conversion copies them.\<close>

type_synonym library_info = library_record

definition GetLibrary ::
  "'r json \<Rightarrow> ('r, 'd) bolt \<Rightarrow> string \<Rightarrow> 'd \<Rightarrow> (library_info \<times> bool) res" where
  "GetLibrary J B libraryID d =
     (if libraryID = [] then Inl (Errorf ''library ID cannot be blank'' [])
      else db_view B (\<lambda>t.
        if \<not> tx_bucket B t LibrariesBucket then Inl (Errorf ''libraries bucket does not exist'' [])
        else case bk_get B t LibrariesBucket libraryID of
               None \<Rightarrow> Inr (zero_library, False)
             | Some raw \<Rightarrow>
                 and_then (wrap_err ''could not unmarshal library record: %w'' [] (dec_library J raw))
                   (\<lambda>rec. Inr (rec, True))) d)"

record snapshot =
  CachedCountByLibrary :: "string \<rightharpoonup> int"
  CachedBytesByLibrary :: "string \<rightharpoonup> int"
  VolumeLinksByLibrary :: "string \<rightharpoonup> int"

definition empty_snapshot :: snapshot where
  "empty_snapshot = \<lparr>CachedCountByLibrary = Map.empty, CachedBytesByLibrary = Map.empty,
                     VolumeLinksByLibrary = Map.empty\<rparr>"

text \<open>Indexing a Go map: a missing key reads as zero. \<open>map_add m k x\<close> is \<open>m[k] += x\<close>.\<close>

definition map_index :: "(string \<rightharpoonup> int) \<Rightarrow> string \<Rightarrow> int" where
  "map_index m k = (case m k of None \<Rightarrow> 0 | Some x \<Rightarrow> x)"

definition map_add_at :: "(string \<rightharpoonup> int) \<Rightarrow> string \<Rightarrow> int \<Rightarrow> (string \<rightharpoonup> int)" where
  "map_add_at m k x = m(k \<mapsto> wrap64 (map_index m k + x))"

definition snapshot_add :: "library_record \<Rightarrow> snapshot \<Rightarrow> snapshot" where
  "snapshot_add rec snap =
     (if Package rec = [] then snap
      else \<lparr>CachedCountByLibrary = map_add_at (CachedCountByLibrary snap) (Package rec) 1,
            CachedBytesByLibrary = map_add_at (CachedBytesByLibrary snap) (Package rec) (SizeBytes rec),
            VolumeLinksByLibrary = map_add_at (VolumeLinksByLibrary snap) (Package rec) (VolumeCount rec)\<rparr>)"

definition snapshot_step :: "'r json \<Rightarrow> string \<times> 'r \<Rightarrow> snapshot \<Rightarrow> snapshot res" where
  "snapshot_step J kv snap =
     and_then (wrap_err ''could not unmarshal library record: %w'' [] (dec_library J (snd kv)))
       (\<lambda>rec. Inr (snapshot_add rec snap))"

definition Snapshot :: "'r json \<Rightarrow> ('r, 'd) bolt \<Rightarrow> 'd \<Rightarrow> snapshot res" where
  "Snapshot J B d =
     db_view B (\<lambda>t.
       if \<not> tx_bucket B t LibrariesBucket then Inr empty_snapshot
       else for_each (snapshot_step J) (bk_items B t LibrariesBucket) empty_snapshot) d"

section \<open>The database implements the ledger\<close>

text \<open>
  \<open>ledger_of\<close> reads the ledger off the two buckets; \<open>db_ok\<close> says that the buckets exist
  and that every stored value decodes.
\<close>

definition ledger_of :: "'r json \<Rightarrow> ('r, 'd) bolt \<Rightarrow> 'd \<Rightarrow> ledger" where
  "ledger_of J B d =
     \<lparr>lg_vols = (\<lambda>v. case bk_get B d VolumesBucket v of None \<Rightarrow> None
                   | Some raw \<Rightarrow> (case dec_volume J raw of Inl _ \<Rightarrow> None | Inr r \<Rightarrow> Some r)),
      lg_libs = (\<lambda>l. case bk_get B d LibrariesBucket l of None \<Rightarrow> None
                   | Some raw \<Rightarrow> (case dec_library J raw of Inl _ \<Rightarrow> None | Inr r \<Rightarrow> Some r))\<rparr>"

definition db_ok :: "'r json \<Rightarrow> ('r, 'd) bolt \<Rightarrow> 'd \<Rightarrow> bool" where
  "db_ok J B d \<longleftrightarrow>
     tx_bucket B d VolumesBucket \<and> tx_bucket B d LibrariesBucket \<and>
     (\<forall>v raw. bk_get B d VolumesBucket v = Some raw \<longrightarrow> (\<exists>r. dec_volume J raw = Inr r)) \<and>
     (\<forall>l raw. bk_get B d LibrariesBucket l = Some raw \<longrightarrow> (\<exists>r. dec_library J raw = Inr r))"

lemma same_data_refl [simp]: "same_data B d d"
  by (simp add: same_data_def)

lemma same_data_ledger: "same_data B d d' \<Longrightarrow> ledger_of J B d' = ledger_of J B d"
  by (simp add: same_data_def ledger_of_def)

lemma same_data_ok: "same_data B d d' \<Longrightarrow> db_ok J B d' = db_ok J B d"
  by (simp add: same_data_def db_ok_def)

lemma db_ok_buckets: "db_ok J B d \<Longrightarrow> tx_bucket B d VolumesBucket \<and> tx_bucket B d LibrariesBucket"
  by (simp add: db_ok_def)

lemma db_ok_volume:
  "db_ok J B d \<Longrightarrow> bk_get B d VolumesBucket v = Some raw \<Longrightarrow> \<exists>r. dec_volume J raw = Inr r"
  by (simp add: db_ok_def)

lemma db_ok_library:
  "db_ok J B d \<Longrightarrow> bk_get B d LibrariesBucket l = Some raw \<Longrightarrow> \<exists>r. dec_library J raw = Inr r"
  by (simp add: db_ok_def)

lemma getVolume_ok:
  assumes "db_ok J B d"
  shows "getVolume J B d v =
     (case lg_vols (ledger_of J B d) v of None \<Rightarrow> Inr (zero_volume, False) | Some r \<Rightarrow> Inr (r, True))"
proof (cases "bk_get B d VolumesBucket v")
  case (Some raw)
  then obtain r where "dec_volume J raw = Inr r" using db_ok_volume [OF assms] by blast
  with Some show ?thesis by (simp add: getVolume_def ledger_of_def)
qed (simp add: getVolume_def ledger_of_def)

lemma getLibrary_ok:
  assumes "db_ok J B d"
  shows "getLibrary J B d l = Inr (lib_at (ledger_of J B d) l)"
proof (cases "bk_get B d LibrariesBucket l")
  case (Some raw)
  then obtain r where "dec_library J raw = Inr r" using db_ok_library [OF assms] by blast
  with Some show ?thesis by (simp add: getLibrary_def ledger_of_def lib_at_def)
qed (simp add: getLibrary_def ledger_of_def lib_at_def)

text \<open>The contract the library manager relies on: each operation does its ledger's work.\<close>

locale tracker =
  fixes ok :: "'d \<Rightarrow> bool" and ledger :: "'d \<Rightarrow> ledger"
    and link :: "int \<Rightarrow> string \<Rightarrow> string \<Rightarrow> bool \<Rightarrow> 'd \<Rightarrow> unit res \<times> 'd"
    and unlink :: "string \<Rightarrow> 'd \<Rightarrow> (string \<times> string) res \<times> 'd"
    and add_lib :: "string \<Rightarrow> string \<Rightarrow> int \<Rightarrow> 'd \<Rightarrow> unit res \<times> 'd"
    and remove_lib :: "string \<Rightarrow> 'd \<Rightarrow> unit res \<times> 'd"
  assumes link_Inr: "ok d \<Longrightarrow> link now l v fc d = (Inr (), d') \<Longrightarrow>
      ok d' \<and> ledger d' = lg_link now l v fc (ledger d) \<and> l \<noteq> [] \<and> v \<noteq> []"
    and link_Inl: "ok d \<Longrightarrow> link now l v fc d = (Inl e, d') \<Longrightarrow> ok d' \<and> ledger d' = ledger d"
    and unlink_Inr: "ok d \<Longrightarrow> unlink v d = (Inr r, d') \<Longrightarrow>
      ok d' \<and> (r, ledger d') = lg_unlink v (ledger d)"
    and unlink_Inl: "ok d \<Longrightarrow> unlink v d = (Inl e, d') \<Longrightarrow> ok d' \<and> ledger d' = ledger d"
    and add_lib_Inr: "ok d \<Longrightarrow> add_lib l p n d = (Inr (), d') \<Longrightarrow>
      ok d' \<and> ledger d' = lg_add l p n (ledger d) \<and> l \<noteq> [] \<and> p \<noteq> []"
    and add_lib_Inl: "ok d \<Longrightarrow> add_lib l p n d = (Inl e, d') \<Longrightarrow> ok d' \<and> ledger d' = ledger d"
    and remove_lib_Inr: "ok d \<Longrightarrow> remove_lib l d = (Inr (), d') \<Longrightarrow>
      ok d' \<and> ledger d' = lg_remove l (ledger d)"
    and remove_lib_Inl: "ok d \<Longrightarrow> remove_lib l d = (Inl e, d') \<Longrightarrow> ok d' \<and> ledger d' = ledger d"
begin

text \<open>Every operation keeps a consistent ledger consistent, whether it succeeds or fails.\<close>

lemma link_consistent:
  assumes "ok d" "consistent (ledger d)" "int (card (dom (lg_vols (ledger d)))) + 1 < 2 ^ 63"
  shows "ok (snd (link now l v fc d)) \<and> consistent (ledger (snd (link now l v fc d)))"
proof (cases "link now l v fc d")
  case (Pair r d')
  show ?thesis
  proof (cases r)
    case (Inl e)
    then show ?thesis using link_Inl [OF assms(1), of now l v fc e d'] assms Pair by simp
  next
    case (Inr u)
    then show ?thesis
      using link_Inr [OF assms(1), of now l v fc d'] assms Pair by (simp add: consistent_link)
  qed
qed

lemma unlink_consistent:
  assumes "ok d" "consistent (ledger d)"
  shows "ok (snd (unlink v d)) \<and> consistent (ledger (snd (unlink v d)))"
proof (cases "unlink v d")
  case (Pair r d')
  show ?thesis
  proof (cases r)
    case (Inl e)
    then show ?thesis using assms unlink_Inl Pair by auto
  next
    case (Inr a)
    then have "ok d'" "ledger d' = snd (lg_unlink v (ledger d))"
      using unlink_Inr [OF assms(1), of v a d'] Pair by (auto simp: prod_eq_iff)
    then show ?thesis using consistent_unlink [OF assms(2)] Pair by simp
  qed
qed

lemma add_consistent:
  assumes "ok d" "consistent (ledger d)"
  shows "ok (snd (add_lib l p n d)) \<and> consistent (ledger (snd (add_lib l p n d)))"
proof (cases "add_lib l p n d")
  case (Pair r d')
  show ?thesis
  proof (cases r)
    case (Inl e)
    then show ?thesis using add_lib_Inl [OF assms(1), of l p n e d'] assms Pair by simp
  next
    case (Inr u)
    then show ?thesis
      using add_lib_Inr [OF assms(1), of l p n d'] assms Pair by (simp add: consistent_add)
  qed
qed

lemma remove_consistent:
  assumes "ok d" "consistent (ledger d)" "users (ledger d) l = {}"
  shows "ok (snd (remove_lib l d)) \<and> consistent (ledger (snd (remove_lib l d)))"
proof (cases "remove_lib l d")
  case (Pair r d')
  show ?thesis
  proof (cases r)
    case (Inl e)
    then show ?thesis using remove_lib_Inl [OF assms(1), of l e d'] assms Pair by simp
  next
    case (Inr u)
    then show ?thesis
      using remove_lib_Inr [OF assms(1), of l d'] assms Pair by (simp add: consistent_remove)
  qed
qed

end

locale lib_database = bolt_laws B + json_laws J
  for B :: "('r, 'd) bolt" and J :: "'r json"
begin

lemma putVolume_Inr:
  assumes "putVolume J B d v r = Inr d'"
  shows "ledger_of J B d' = (ledger_of J B d)\<lparr>lg_vols := (lg_vols (ledger_of J B d))(v \<mapsto> r)\<rparr>"
    and "db_ok J B d \<Longrightarrow> db_ok J B d'"
proof -
  obtain raw where raw: "enc_volume J r = Inr raw" "bk_put B d VolumesBucket v raw = Inr d'"
    using assms by (auto simp: putVolume_def)
  note facts = put_get [OF raw(2)] put_rest [OF raw(2)] volume_roundtrip [OF raw(1)]
  show "ledger_of J B d' = (ledger_of J B d)\<lparr>lg_vols := (lg_vols (ledger_of J B d))(v \<mapsto> r)\<rparr>"
    using facts by (auto simp: ledger_of_def fun_eq_iff)
  show "db_ok J B d \<Longrightarrow> db_ok J B d'"
    using facts by (auto simp: db_ok_def)
qed

lemma putLibrary_Inr:
  assumes "putLibrary J B d l r = Inr d'"
  shows "ledger_of J B d' = (ledger_of J B d)\<lparr>lg_libs := (lg_libs (ledger_of J B d))(l \<mapsto> r)\<rparr>"
    and "db_ok J B d \<Longrightarrow> db_ok J B d'"
proof -
  obtain raw where raw: "enc_library J r = Inr raw" "bk_put B d LibrariesBucket l raw = Inr d'"
    using assms by (auto simp: putLibrary_def)
  note facts = put_get [OF raw(2)] put_rest [OF raw(2)] library_roundtrip [OF raw(1)]
  show "ledger_of J B d' = (ledger_of J B d)\<lparr>lg_libs := (lg_libs (ledger_of J B d))(l \<mapsto> r)\<rparr>"
    using facts by (auto simp: ledger_of_def fun_eq_iff)
  show "db_ok J B d \<Longrightarrow> db_ok J B d'"
    using facts by (auto simp: db_ok_def)
qed

lemma delete_volume:
  assumes "bk_delete B d VolumesBucket v = Inr d'"
  shows "ledger_of J B d' = (ledger_of J B d)\<lparr>lg_vols := (lg_vols (ledger_of J B d))(v := None)\<rparr>"
    and "db_ok J B d \<Longrightarrow> db_ok J B d'"
  using delete_get [OF assms] delete_rest [OF assms]
  by (auto simp: ledger_of_def db_ok_def fun_eq_iff)

lemma delete_library:
  assumes "bk_delete B d LibrariesBucket l = Inr d'"
  shows "ledger_of J B d' = (ledger_of J B d)\<lparr>lg_libs := (lg_libs (ledger_of J B d))(l := None)\<rparr>"
    and "db_ok J B d \<Longrightarrow> db_ok J B d'"
  using delete_get [OF assms] delete_rest [OF assms]
  by (auto simp: ledger_of_def db_ok_def fun_eq_iff)

text \<open>A successful update has the effect its function has on the ledger.\<close>

lemma update_ledger:
  assumes "db_update B f d = (Inr a, d')" "db_ok J B d"
    and "\<And>t. f d = Inr (a, t) \<Longrightarrow> db_ok J B t \<and> P (ledger_of J B t)"
  shows "db_ok J B d' \<and> P (ledger_of J B d')"
  using update_Inr [OF assms(1)] assms(3) same_data_ledger same_data_ok by metis

lemma update_error:
  assumes "db_update B f d = (Inl e, d')" "db_ok J B d"
  shows "db_ok J B d' \<and> ledger_of J B d' = ledger_of J B d"
  using update_Inl [OF assms(1)] assms(2) same_data_ledger same_data_ok by metis

lemma LinkVolume_Inr:
  assumes "db_ok J B d" "LinkVolume J B now l v fc d = (Inr (), d')"
  shows "db_ok J B d' \<and> ledger_of J B d' = lg_link now l v fc (ledger_of J B d)"
proof -
  let ?L = "ledger_of J B d"
  have upd: "db_update B (link_tx J B now l v fc) d = (Inr (), d')"
    using assms(2) by (auto simp: LinkVolume_def split: if_splits)
  have "db_ok J B t \<and> ledger_of J B t = lg_link now l v fc ?L" if t: "link_tx J B now l v fc d = Inr ((), t)" for t
  proof (cases "lg_vols ?L v")
    case (Some r)
    then have "t = d"
      using t assms(1) by (auto simp: link_tx_def getVolume_ok split: if_splits)
    with Some assms(1) show ?thesis by (simp add: lg_link_def)
  next
    case None
    let ?r = "\<lparr>LibraryID = l, CreatedAt = now, FromCache = fc\<rparr>"
    obtain t1 rec where t1: "putVolume J B d v ?r = Inr t1" "getLibrary J B t1 l = Inr rec"
        "putLibrary J B t1 l (rec\<lparr>VolumeCount := wrap64 (VolumeCount rec + 1)\<rparr>) = Inr t"
      using t None assms(1) by (auto simp: link_tx_def getVolume_ok split: if_splits)
    have "db_ok J B t1" using putVolume_Inr(2) [OF t1(1) assms(1)] .
    moreover have "rec = lib_at ?L l"
      using t1(2) getLibrary_ok [OF calculation, of l] putVolume_Inr(1) [OF t1(1)]
      by (simp add: lib_at_def)
    ultimately show ?thesis
      using None putLibrary_Inr [OF t1(3)] putVolume_Inr(1) [OF t1(1)] by (simp add: lg_link_def)
  qed
  from update_ledger [OF upd assms(1), where P = "\<lambda>L. L = lg_link now l v fc ?L"] this
  show ?thesis by blast
qed

lemma UnlinkVolume_Inr:
  assumes "db_ok J B d" "UnlinkVolume J B v d = (Inr a, d')"
  shows "db_ok J B d' \<and> (a, ledger_of J B d') = lg_unlink v (ledger_of J B d)"
proof -
  let ?L = "ledger_of J B d"
  have upd: "db_update B (unlink_tx J B v) d = (Inr a, d')"
    using assms(2) by (auto simp: UnlinkVolume_def split: if_splits)
  have "db_ok J B t \<and> (a, ledger_of J B t) = lg_unlink v ?L" if t: "unlink_tx J B v d = Inr (a, t)" for t
  proof (cases "lg_vols ?L v")
    case None
    then have "t = d" "a = ([], [])"
      using t assms(1) by (auto simp: unlink_tx_def getVolume_ok split: if_splits)
    with None assms(1) show ?thesis by (simp add: lg_unlink_def)
  next
    case (Some r)
    let ?l = "LibraryID r"
    obtain t1 rec where t1: "bk_delete B d VolumesBucket v = Inr t1" "getLibrary J B t1 ?l = Inr rec"
        and a: "a = (?l, Package rec)"
        and t2: "if VolumeCount rec > 0
           then putLibrary J B t1 ?l (rec\<lparr>VolumeCount := wrap64 (VolumeCount rec - 1)\<rparr>) = Inr t
           else t = t1"
      using t Some assms(1) by (auto simp: unlink_tx_def getVolume_ok split: if_splits)
    have ok1: "db_ok J B t1" using delete_volume(2) [OF t1(1) assms(1)] .
    have rec: "rec = lib_at ?L ?l"
      using t1(2) getLibrary_ok [OF ok1, of ?l] delete_volume(1) [OF t1(1)]
      by (simp add: lib_at_def)
    show ?thesis
    proof (cases "VolumeCount rec > 0")
      case True
      with t2 have put: "putLibrary J B t1 ?l (rec\<lparr>VolumeCount := wrap64 (VolumeCount rec - 1)\<rparr>) = Inr t"
        by simp
      show ?thesis
        using Some True a rec ok1 putLibrary_Inr [OF put] delete_volume(1) [OF t1(1)]
        by (simp add: lg_unlink_def Let_def)
    next
      case False
      then show ?thesis
        using Some a rec ok1 t2 delete_volume(1) [OF t1(1)] by (simp add: lg_unlink_def Let_def)
    qed
  qed
  from update_ledger [OF upd assms(1), where P = "\<lambda>L. (a, L) = lg_unlink v ?L"] this
  show ?thesis by blast
qed

lemma AddLibrary_Inr:
  assumes "db_ok J B d" "AddLibrary J B l p n d = (Inr (), d')"
  shows "db_ok J B d' \<and> ledger_of J B d' = lg_add l p n (ledger_of J B d)"
proof -
  let ?L = "ledger_of J B d"
  have upd: "db_update B (add_tx J B l p n) d = (Inr (), d')"
    using assms(2) by (auto simp: AddLibrary_def split: if_splits)
  have "db_ok J B t \<and> ledger_of J B t = lg_add l p n ?L" if t: "add_tx J B l p n d = Inr ((), t)" for t
  proof -
    have "putLibrary J B d l ((lib_at ?L l)\<lparr>Package := p, SizeBytes := n\<rparr>) = Inr t"
      using t assms(1) by (auto simp: add_tx_def getLibrary_ok split: if_splits)
    from putLibrary_Inr [OF this] assms(1) show ?thesis by (simp add: lg_add_def)
  qed
  from update_ledger [OF upd assms(1), where P = "\<lambda>L. L = lg_add l p n ?L"] this
  show ?thesis by blast
qed

lemma RemoveLibrary_Inr:
  assumes "db_ok J B d" "RemoveLibrary B l d = (Inr (), d')"
  shows "db_ok J B d' \<and> ledger_of J B d' = lg_remove l (ledger_of J B d)"
proof -
  let ?L = "ledger_of J B d"
  have upd: "db_update B (remove_tx B l) d = (Inr (), d')"
    using assms(2) by (auto simp: RemoveLibrary_def split: if_splits)
  have "db_ok J B t \<and> ledger_of J B t = lg_remove l ?L" if t: "remove_tx B l d = Inr ((), t)" for t
  proof -
    have "bk_delete B d LibrariesBucket l = Inr t"
      using t by (auto simp: remove_tx_def split: if_splits)
    from delete_library [OF this] assms(1) show ?thesis by (simp add: lg_remove_def)
  qed
  from update_ledger [OF upd assms(1), where P = "\<lambda>L. L = lg_remove l ?L"] this
  show ?thesis by blast
qed

lemma LinkVolume_Inl: "db_ok J B d \<Longrightarrow> LinkVolume J B now l v fc d = (Inl e, d') \<Longrightarrow>
    db_ok J B d' \<and> ledger_of J B d' = ledger_of J B d"
  by (auto simp: LinkVolume_def split: if_splits dest: update_error)

lemma UnlinkVolume_Inl: "db_ok J B d \<Longrightarrow> UnlinkVolume J B v d = (Inl e, d') \<Longrightarrow>
    db_ok J B d' \<and> ledger_of J B d' = ledger_of J B d"
  by (auto simp: UnlinkVolume_def split: if_splits dest: update_error)

lemma AddLibrary_Inl: "db_ok J B d \<Longrightarrow> AddLibrary J B l p n d = (Inl e, d') \<Longrightarrow>
    db_ok J B d' \<and> ledger_of J B d' = ledger_of J B d"
  by (auto simp: AddLibrary_def split: if_splits dest: update_error)

lemma RemoveLibrary_Inl: "db_ok J B d \<Longrightarrow> RemoveLibrary B l d = (Inl e, d') \<Longrightarrow>
    db_ok J B d' \<and> ledger_of J B d' = ledger_of J B d"
  by (auto simp: RemoveLibrary_def split: if_splits dest: update_error)

end

sublocale lib_database \<subseteq> tracker "db_ok J B" "ledger_of J B" "LinkVolume J B" "UnlinkVolume J B"
    "AddLibrary J B" "RemoveLibrary B"
proof (unfold_locales, goal_cases)
  case (1 d now l v fc d')
  then show ?case using LinkVolume_Inr [OF 1] by (auto simp: LinkVolume_def split: if_splits)
next
  case (5 d l p n d')
  then show ?case using AddLibrary_Inr [OF 5] by (auto simp: AddLibrary_def split: if_splits)
qed (erule (1) LinkVolume_Inl UnlinkVolume_Inr UnlinkVolume_Inl AddLibrary_Inl RemoveLibrary_Inr
       RemoveLibrary_Inl)+

interpretation mem_tracker: lib_database mem_bolt mem_json ..

section \<open>Histories\<close>

text \<open>
  The calls the library manager makes, in the way it makes them: a library is only removed after
  its record was read and shows no volume.
\<close>

datatype db_call =
    CallAdd string string int
  | CallLink int string string bool
  | CallUnlink string
  | CallCleanup string

fun db_do :: "'r json \<Rightarrow> ('r, 'd) bolt \<Rightarrow> db_call \<Rightarrow> 'd \<Rightarrow> 'd" where
  "db_do J B (CallAdd l p n) d = snd (AddLibrary J B l p n d)"
| "db_do J B (CallLink now l v fc) d = snd (LinkVolume J B now l v fc d)"
| "db_do J B (CallUnlink v) d = snd (UnlinkVolume J B v d)"
| "db_do J B (CallCleanup l) d =
     (case GetLibrary J B l d of
        Inl _ \<Rightarrow> d
      | Inr (info, found) \<Rightarrow>
          if \<not> found \<or> VolumeCount info > 0 then d else snd (RemoveLibrary B l d))"

context lib_database
begin

lemma is_tracker:
  "tracker (db_ok J B) (ledger_of J B) (LinkVolume J B) (UnlinkVolume J B) (AddLibrary J B) (RemoveLibrary B)"
  by unfold_locales

lemma GetLibrary_ok:
  assumes "db_ok J B d" "GetLibrary J B l d = Inr (info, found)"
  shows "info = lib_at (ledger_of J B d) l \<and> (found \<longleftrightarrow> lg_libs (ledger_of J B d) l \<noteq> None)"
proof (cases "bk_get B d LibrariesBucket l")
  case None
  then show ?thesis using assms
    by (auto simp: GetLibrary_def db_view_def ledger_of_def lib_at_def split: if_splits option.splits)
next
  case (Some raw)
  then obtain r where r: "dec_library J raw = Inr r" using db_ok_library [OF assms(1)] by blast
  with Some show ?thesis using assms
    by (auto simp: GetLibrary_def db_view_def ledger_of_def lib_at_def split: if_splits option.splits)
qed

lemma GetLibraryForVolume_ok:
  assumes "db_ok J B d" "db_GetLibraryForVolume J B v d = Inr l"
  shows "l = (case lg_vols (ledger_of J B d) v of None \<Rightarrow> [] | Some r \<Rightarrow> LibraryID r)"
  using assms
  by (cases "lg_vols (ledger_of J B d) v")
     (auto simp: db_GetLibraryForVolume_def db_view_def getVolume_ok zero_volume_def
           split: if_splits option.splits)

lemma cleanup_consistent:
  assumes "db_ok J B d" "consistent (ledger_of J B d)"
  shows "db_ok J B (db_do J B (CallCleanup l) d) \<and> consistent (ledger_of J B (db_do J B (CallCleanup l) d))"
proof (cases "GetLibrary J B l d")
  case (Inr r)
  obtain info found where r: "r = (info, found)" by force
  show ?thesis
  proof (cases "\<not> found \<or> VolumeCount info > 0")
    case False
    then have "users (ledger_of J B d) l = {}"
      using GetLibrary_ok [OF assms(1), of l info found] Inr r count_zero_unused [OF assms(2)] by simp
    from remove_consistent [OF assms this] show ?thesis using False Inr r by simp
  qed (simp add: Inr r assms)
qed (simp add: assms)

lemma link_dom:
  assumes "db_ok J B d" "finite (dom (lg_vols (ledger_of J B d)))"
  shows "card (dom (lg_vols (ledger_of J B (snd (LinkVolume J B now l v fc d))))) \<le>
         Suc (card (dom (lg_vols (ledger_of J B d))))"
proof -
  obtain r d' where r: "LinkVolume J B now l v fc d = (r, d')" by force
  show ?thesis
  proof (cases r)
    case (Inl e)
    then show ?thesis using r link_Inl [OF assms(1), of now l v fc e d'] by simp
  next
    case (Inr u)
    then show ?thesis
      using r link_Inr [OF assms(1), of now l v fc d'] assms(2)
      by (simp add: lg_link_def card_insert_if)
  qed
qed

text \<open>The other calls add no volume.\<close>

lemma unlink_dom:
  assumes "db_ok J B d" "finite (dom (lg_vols (ledger_of J B d)))"
  shows "card (dom (lg_vols (ledger_of J B (snd (UnlinkVolume J B v d))))) \<le>
         card (dom (lg_vols (ledger_of J B d)))"
proof -
  obtain r d' where r: "UnlinkVolume J B v d = (r, d')" by force
  have less: "dom (lg_vols (snd (lg_unlink v L))) \<subseteq> dom (lg_vols L)" for L
    by (auto simp: lg_unlink_def Let_def split: option.splits if_splits)
  show ?thesis
  proof (cases r)
    case (Inl e)
    then show ?thesis using r unlink_Inl [OF assms(1), of v e d'] by simp
  next
    case (Inr a)
    then have "ledger_of J B d' = snd (lg_unlink v (ledger_of J B d))"
      using r unlink_Inr [OF assms(1), of v a d'] by (metis snd_conv)
    then show ?thesis using r less card_mono [OF assms(2)] by simp
  qed
qed

lemma add_vols:
  assumes "db_ok J B d"
  shows "lg_vols (ledger_of J B (snd (AddLibrary J B l p n d))) = lg_vols (ledger_of J B d)"
proof -
  obtain r d' where r: "AddLibrary J B l p n d = (r, d')" by force
  show ?thesis
    using r add_lib_Inl [OF assms, of l p n _ d'] add_lib_Inr [OF assms, of l p n d']
    by (cases r) (auto simp: lg_add_def)
qed

lemma remove_vols:
  assumes "db_ok J B d"
  shows "lg_vols (ledger_of J B (snd (RemoveLibrary B l d))) = lg_vols (ledger_of J B d)"
proof -
  obtain r d' where r: "RemoveLibrary B l d = (r, d')" by force
  show ?thesis
    using r remove_lib_Inl [OF assms, of l _ d'] remove_lib_Inr [OF assms, of l d']
    by (cases r) (auto simp: lg_remove_def)
qed

lemma cleanup_vols:
  assumes "db_ok J B d"
  shows "lg_vols (ledger_of J B (db_do J B (CallCleanup l) d)) = lg_vols (ledger_of J B d)"
  using remove_vols [OF assms] by (auto split: sum.split prod.split)

definition sound :: "'d \<Rightarrow> bool" where
  "sound d \<longleftrightarrow> db_ok J B d \<and> consistent (ledger_of J B d)"

lemma sound_finite: "sound d \<Longrightarrow> db_ok J B d \<and> finite (dom (lg_vols (ledger_of J B d)))"
  by (simp add: sound_def consistent_def)

lemma db_do_sound:
  assumes "sound d" "int (card (dom (lg_vols (ledger_of J B d)))) + 1 < 2 ^ 63"
  shows "sound (db_do J B c d)"
  using assms link_consistent [of d] unlink_consistent [of d] add_consistent [of d]
    cleanup_consistent [of d]
  by (cases c) (simp_all add: sound_def del: db_do.simps(4))

lemma db_do_dom:
  assumes "sound d"
  shows "card (dom (lg_vols (ledger_of J B (db_do J B c d)))) \<le>
         Suc (card (dom (lg_vols (ledger_of J B d))))"
proof (cases c)
  case (CallUnlink v)
  then show ?thesis using unlink_dom [of d v] sound_finite [OF assms] by simp
qed (use link_dom [of d] add_vols [of d] cleanup_vols [of d] sound_finite [OF assms] in
      \<open>simp_all del: db_do.simps(4)\<close>)

lemma history_sound:
  assumes "sound d" "int (card (dom (lg_vols (ledger_of J B d)))) + int (length cs) < 2 ^ 63"
  shows "sound (fold (db_do J B) cs d)"
  using assms
proof (induction cs arbitrary: d)
  case (Cons c cs)
  have "sound (db_do J B c d)" using Cons.prems by (intro db_do_sound) auto
  then show ?case using Cons.IH [of "db_do J B c d"] Cons.prems db_do_dom [of d c] by simp
qed simp

end

section \<open>Properties\<close>

text \<open>An open database with a library used by two volumes.\<close>

definition demo_db :: mem_db where
  "demo_db =
     \<lparr>mb_buckets =
        [(VolumesBucket, [(''v1'', RVolume \<lparr>LibraryID = ''aa'', CreatedAt = 1, FromCache = False\<rparr>),
                          (''v2'', RVolume \<lparr>LibraryID = ''aa'', CreatedAt = 2, FromCache = True\<rparr>)]),
         (LibrariesBucket, [(''aa'', RLibrary \<lparr>Package = ''java'', SizeBytes = 7, VolumeCount = 2\<rparr>)])],
      mb_subs = [], mb_faults = [], mb_closed = False\<rparr>"

lemma demo_ledger:
  "ledger_of mem_json mem_bolt demo_db =
     \<lparr>lg_vols = [''v1'' \<mapsto> \<lparr>LibraryID = ''aa'', CreatedAt = 1, FromCache = False\<rparr>,
                 ''v2'' \<mapsto> \<lparr>LibraryID = ''aa'', CreatedAt = 2, FromCache = True\<rparr>],
      lg_libs = [''aa'' \<mapsto> \<lparr>Package = ''java'', SizeBytes = 7, VolumeCount = 2\<rparr>]\<rparr>"
  by (simp add: ledger_of_def mem_bolt_def mem_json_def demo_db_def aget_def bucket_defs fun_eq_iff)

lemma demo_ok: "db_ok mem_json mem_bolt demo_db"
  by (auto simp: db_ok_def mem_bolt_def mem_json_def demo_db_def aget_def bucket_defs split: if_splits)

lemma demo_consistent: "consistent (ledger_of mem_json mem_bolt demo_db)"
proof -
  have "users (ledger_of mem_json mem_bolt demo_db) l = (if l = ''aa'' then {''v1'', ''v2''} else {})" for l
    by (auto simp: users_def demo_ledger split: if_splits)
  then show ?thesis by (auto simp: consistent_def demo_ledger lib_at_def zero_library_def)
qed

text \<open>
  C26: \<open>LinkVolume\<close> implements the ledger's link: on success an unknown volume is recorded under
  the library, whose volume count goes up by one, a volume that is already recorded is left as it
  is, and blank identifiers are never stored; on an error nothing has changed.
\<close>
theorem link_refines:
  assumes "lib_database B J" "db_ok J B d"
  shows "case LinkVolume J B now l v fc d of
      (Inr _, d') \<Rightarrow> db_ok J B d' \<and> ledger_of J B d' = lg_link now l v fc (ledger_of J B d) \<and> l \<noteq> [] \<and> v \<noteq> []
    | (Inl e, d') \<Rightarrow> db_ok J B d' \<and> ledger_of J B d' = ledger_of J B d"
  using tracker.link_Inr [OF lib_database.is_tracker [OF assms(1)] assms(2), of now l v fc]
    tracker.link_Inl [OF lib_database.is_tracker [OF assms(1)] assms(2), of now l v fc]
  by (auto split: prod.split sum.split)

theorem link_refines_witness:
  "VolumeCount (lib_at (ledger_of mem_json mem_bolt
     (snd (LinkVolume mem_json mem_bolt 9 ''aa'' ''v3'' True demo_db))) ''aa'') = 3"
proof -
  obtain d' where "LinkVolume mem_json mem_bolt 9 ''aa'' ''v3'' True demo_db = (Inr (), d')"
    by (simp add: LinkVolume_def db_update_def link_tx_def getVolume_def putVolume_def
        getLibrary_def putLibrary_def mem_bolt_def mem_json_def demo_db_def bucket_defs
        aget_def aremove_def)
  then show ?thesis
    using link_refines [OF mem_tracker.lib_database_axioms demo_ok, of 9 "''aa''" "''v3''" True]
    by (simp add: lg_link_def demo_ledger lib_at_def wrap64_def)
qed

text \<open>
  C27: \<open>UnlinkVolume\<close> implements the ledger's unlink: on success the volume's record is gone,
  the count of its library goes down by one but never below zero, and the library and its package
  are returned, or blanks for an unknown volume; on an error nothing has changed.
\<close>
theorem unlink_refines:
  assumes "lib_database B J" "db_ok J B d"
  shows "case UnlinkVolume J B v d of
      (Inr a, d') \<Rightarrow> db_ok J B d' \<and> (a, ledger_of J B d') = lg_unlink v (ledger_of J B d)
    | (Inl e, d') \<Rightarrow> db_ok J B d' \<and> ledger_of J B d' = ledger_of J B d"
  using tracker.unlink_Inr [OF lib_database.is_tracker [OF assms(1)] assms(2), of v]
    tracker.unlink_Inl [OF lib_database.is_tracker [OF assms(1)] assms(2), of v]
  by (auto split: prod.split sum.split)

theorem unlink_refines_witness:
  "VolumeCount (lib_at (ledger_of mem_json mem_bolt
     (snd (UnlinkVolume mem_json mem_bolt ''v1'' demo_db))) ''aa'') = 1"
proof -
  obtain a d' where "UnlinkVolume mem_json mem_bolt ''v1'' demo_db = (Inr a, d')"
    by (simp add: UnlinkVolume_def db_update_def unlink_tx_def getVolume_def
        getLibrary_def putLibrary_def mem_bolt_def mem_json_def demo_db_def bucket_defs
        aget_def aremove_def)
  then show ?thesis
    using unlink_refines [OF mem_tracker.lib_database_axioms demo_ok, of "''v1''"]
    by (simp add: lg_unlink_def demo_ledger lib_at_def wrap64_def Let_def)
qed

text \<open>
  C25: The volume counts stay true over every history of calls: starting from a database whose
  counts agree with its volume records, after any sequence of \<open>AddLibrary\<close>, \<open>LinkVolume\<close>,
  \<open>UnlinkVolume\<close> and guarded \<open>RemoveLibrary\<close> calls, failing ones included, every stored
  value still decodes and each library's count is the number of volumes recorded under it.
\<close>
theorem history_consistent:
  assumes "lib_database B J" "db_ok J B d" "consistent (ledger_of J B d)"
    and "int (card (dom (lg_vols (ledger_of J B d)))) + int (length cs) < 2 ^ 63"
  shows "db_ok J B (fold (db_do J B) cs d) \<and> consistent (ledger_of J B (fold (db_do J B) cs d))"
  using lib_database.history_sound [OF assms(1) _ assms(4)] assms(2,3)
  by (simp add: lib_database.sound_def [OF assms(1)])

definition demo_calls :: "db_call list" where
  "demo_calls = [CallAdd ''bb'' ''ruby'' 3, CallLink 5 ''bb'' ''v3'' False, CallUnlink ''v1'',
     CallUnlink ''v2'', CallCleanup ''aa'', CallCleanup ''bb'']"

theorem history_consistent_witness:
  "consistent (ledger_of mem_json mem_bolt (fold (db_do mem_json mem_bolt) demo_calls demo_db))"
proof -
  have "dom (lg_vols (ledger_of mem_json mem_bolt demo_db)) = {''v1'', ''v2''}"
    by (auto simp: demo_ledger)
  then have "int (card (dom (lg_vols (ledger_of mem_json mem_bolt demo_db)))) + int (length demo_calls) < 2 ^ 63"
    by (simp add: demo_calls_def)
  from history_consistent [OF mem_tracker.lib_database_axioms demo_ok demo_consistent this]
  show ?thesis by blast
qed

end
