(* ===== verification/Lib_Snapshot.thy ===== *)
theory Lib_Snapshot
  imports Lib_Database
begin

text \<open>
  What \<open>Database.Snapshot\<close> computes: for every package label, the number of cached versions,
  their bytes and their volume links, as sums over the ledger.
\<close>

definition labelled :: "ledger \<Rightarrow> string \<Rightarrow> string set" where
  "labelled L p = {l. \<exists>r. lg_libs L l = Some r \<and> Package r = p}"

definition label_sum :: "(library_record \<Rightarrow> int) \<Rightarrow> ledger \<Rightarrow> string \<Rightarrow> int" where
  "label_sum f L p = (\<Sum>l\<in>labelled L p. f (lib_at L l))"

section \<open>One step of the scan\<close>

definition decoded :: "'r json \<Rightarrow> string \<times> 'r \<Rightarrow> library_record" where
  "decoded J kv = projr (dec_library J (snd kv))"

lemma map_index_add_at:
  "map_index (map_add_at m k x) j = (if j = k then wrap64 (map_index m k + x) else map_index m j)"
  by (simp add: map_index_def map_add_at_def)

lemma map_index_empty [simp]: "map_index Map.empty k = 0"
  by (simp add: map_index_def)

lemma snapshot_step_Inr:
  "dec_library J (snd kv) = Inr r \<Longrightarrow> snapshot_step J kv s = Inr (snapshot_add r s)"
  by (simp add: snapshot_step_def)

text \<open>
  The scan adds, for each label, the values of the records that carry it. \<open>agg\<close> picks one of
  the three maps and \<open>f\<close> the value it collects.
\<close>

definition collects :: "(snapshot \<Rightarrow> string \<Rightarrow> int) \<Rightarrow> (library_record \<Rightarrow> int) \<Rightarrow> bool" where
  "collects agg f \<longleftrightarrow>
     (\<forall>r s p. agg (snapshot_add r s) p =
        (if Package r \<noteq> [] \<and> Package r = p then wrap64 (agg s p + f r) else agg s p))"

lemma collects_count: "collects (\<lambda>s. map_index (CachedCountByLibrary s)) (\<lambda>r. 1)"
  by (auto simp: collects_def snapshot_add_def map_index_add_at)

lemma collects_bytes: "collects (\<lambda>s. map_index (CachedBytesByLibrary s)) SizeBytes"
  by (auto simp: collects_def snapshot_add_def map_index_add_at)

lemma collects_links: "collects (\<lambda>s. map_index (VolumeLinksByLibrary s)) VolumeCount"
  by (auto simp: collects_def snapshot_add_def map_index_add_at)

lemma scan_total:
  "\<forall>kv\<in>set xs. \<exists>r. dec_library J (snd kv) = Inr r \<Longrightarrow> \<exists>s'. for_each (snapshot_step J) xs s = Inr s'"
  by (induction xs arbitrary: s) (auto simp: snapshot_step_Inr)

lemma scan_collects:
  assumes "collects agg f" "for_each (snapshot_step J) xs s = Inr s'" "p \<noteq> []"
    and "\<forall>kv\<in>set xs. \<exists>r. dec_library J (snd kv) = Inr r" "in_int64 (agg s p)"
  shows "agg s' p = wrap64 (agg s p + (\<Sum>kv\<leftarrow>xs. if Package (decoded J kv) = p then f (decoded J kv) else 0))"
  using assms(2,4,5)
proof (induction xs arbitrary: s)
  case Nil
  then show ?case by (simp add: wrap64_id)
next
  case (Cons kv xs)
  then obtain r s1 where r: "dec_library J (snd kv) = Inr r" "snapshot_step J kv s = Inr s1"
      "for_each (snapshot_step J) xs s1 = Inr s'"
    by (auto split: sum.splits)
  have s1: "agg s1 p = (if Package r = p then wrap64 (agg s p + f r) else agg s p)"
    using assms(1,3) r by (auto simp: collects_def snapshot_step_Inr)
  have "in_int64 (agg s1 p)" using s1 Cons.prems(3) by (simp add: wrap64_range)
  then have "agg s' p = wrap64 (agg s1 p + (\<Sum>kv\<leftarrow>xs. if Package (decoded J kv) = p then f (decoded J kv) else 0))"
    using Cons.IH r(3) Cons.prems(2) by simp
  also have "\<dots> = wrap64 (agg s p + (\<Sum>kv\<leftarrow>kv # xs. if Package (decoded J kv) = p then f (decoded J kv) else 0))"
    using s1 r(1) by (simp add: decoded_def add.assoc)
  finally show ?case .
qed

lemma scan_unlabelled:
  assumes "collects agg f" "for_each (snapshot_step J) xs s = Inr s'"
    and "\<forall>kv\<in>set xs. \<exists>r. dec_library J (snd kv) = Inr r"
  shows "agg s' [] = agg s []"
  using assms(2,3)
proof (induction xs arbitrary: s)
  case (Cons kv xs)
  then obtain r s1 where r: "dec_library J (snd kv) = Inr r" "snapshot_step J kv s = Inr s1"
      "for_each (snapshot_step J) xs s1 = Inr s'"
    by (auto split: sum.splits)
  then have "agg s1 [] = agg s []" using assms(1) by (auto simp: collects_def snapshot_step_Inr)
  then show ?case using Cons.IH [OF r(3)] Cons.prems(2) by simp
qed simp

context lib_database
begin

lemma scan_sum:
  assumes "db_ok J B d"
  shows "(\<Sum>kv\<leftarrow>bk_items B d LibrariesBucket.
            if Package (decoded J kv) = p then f (decoded J kv) else 0) = label_sum f (ledger_of J B d) p"
proof -
  let ?xs = "bk_items B d LibrariesBucket" and ?L = "ledger_of J B d"
  have dist: "distinct ?xs"
    using items_distinct [of d LibrariesBucket] by (simp add: distinct_map)
  have inj: "inj_on fst (set ?xs)"
    using items_distinct [of d LibrariesBucket] by (simp add: distinct_map)
  have lib: "lg_libs ?L k = Some (decoded J (k, raw))" if "(k, raw) \<in> set ?xs" for k raw
    using that db_ok_library [OF assms] by (force simp: items_get ledger_of_def decoded_def)
  have img: "labelled ?L p = fst ` {kv \<in> set ?xs. Package (decoded J kv) = p}"
  proof (rule set_eqI)
    fix l
    have "l \<in> labelled ?L p \<longleftrightarrow> (\<exists>raw. (l, raw) \<in> set ?xs \<and> Package (decoded J (l, raw)) = p)"
    proof
      assume "l \<in> labelled ?L p"
      then obtain r where r: "lg_libs ?L l = Some r" "Package r = p" by (auto simp: labelled_def)
      then obtain raw where "(l, raw) \<in> set ?xs"
        by (auto simp: ledger_of_def items_get split: option.splits)
      with r lib show "\<exists>raw. (l, raw) \<in> set ?xs \<and> Package (decoded J (l, raw)) = p" by fastforce
    qed (use lib in \<open>auto simp: labelled_def\<close>)
    then show "l \<in> labelled ?L p \<longleftrightarrow> l \<in> fst ` {kv \<in> set ?xs. Package (decoded J kv) = p}"
      by force
  qed
  have "(\<Sum>kv\<leftarrow>?xs. if Package (decoded J kv) = p then f (decoded J kv) else 0) =
        (\<Sum>kv\<in>set ?xs. if Package (decoded J kv) = p then f (decoded J kv) else 0)"
    using dist by (rule sum_list_distinct_conv_sum_set)
  also have "\<dots> = (\<Sum>kv\<in>{kv \<in> set ?xs. Package (decoded J kv) = p}. f (decoded J kv))"
    by (simp add: sum.inter_filter)
  also have "\<dots> = (\<Sum>kv\<in>{kv \<in> set ?xs. Package (decoded J kv) = p}. f (lib_at ?L (fst kv)))"
    using lib by (intro sum.cong) (auto simp: lib_at_def)
  also have "\<dots> = label_sum f ?L p"
    unfolding label_sum_def img
    by (rule sum.reindex [symmetric, unfolded comp_def]) (use inj in \<open>auto intro: inj_on_subset\<close>)
  finally show ?thesis .
qed

lemma Snapshot_ok:
  assumes "db_ok J B d" "tx_begin B d = None"
  obtains s where "Snapshot J B d = Inr s"
    "\<And>agg f p. collects agg f \<Longrightarrow> p \<noteq> [] \<Longrightarrow> agg empty_snapshot p = 0 \<Longrightarrow>
       agg s p = wrap64 (label_sum f (ledger_of J B d) p)"
    "\<And>agg f. collects agg f \<Longrightarrow> agg s [] = agg empty_snapshot []"
proof -
  let ?xs = "bk_items B d LibrariesBucket"
  have dec: "\<forall>kv\<in>set ?xs. \<exists>r. dec_library J (snd kv) = Inr r"
    using db_ok_library [OF assms(1)] by (auto simp: items_get)
  obtain s where s: "for_each (snapshot_step J) ?xs empty_snapshot = Inr s"
    using scan_total [OF dec] by blast
  then have "Snapshot J B d = Inr s"
    using assms by (simp add: Snapshot_def db_view_def db_ok_def)
  moreover have "agg s p = wrap64 (label_sum f (ledger_of J B d) p)"
    if "collects agg f" "p \<noteq> []" "agg empty_snapshot p = 0" for agg f p
    using scan_collects [OF that(1) s that(2) dec] that(3)
    by (simp add: scan_sum [OF assms(1)] in_int64_def)
  moreover have "agg s [] = agg empty_snapshot []" if "collects agg f" for agg f
    using scan_unlabelled [OF that s dec] .
  ultimately show ?thesis using that by blast
qed

end

section \<open>Links by label\<close>

lemma labelled_finite: "finite (dom (lg_libs L)) \<Longrightarrow> finite (labelled L p)"
  by (rule finite_subset [of _ "dom (lg_libs L)"]) (auto simp: labelled_def)

text \<open>The volumes whose library carries a label.\<close>

definition label_users :: "ledger \<Rightarrow> string \<Rightarrow> string set" where
  "label_users L p = {v. \<exists>r. lg_vols L v = Some r \<and> LibraryID r \<in> labelled L p}"

lemma label_links:
  assumes "consistent L" "finite (dom (lg_libs L))"
  shows "label_sum VolumeCount L p = int (card (label_users L p))"
proof -
  have "label_users L p = (\<Union>l\<in>labelled L p. users L l)"
    by (auto simp: label_users_def users_def)
  moreover have "card (\<Union>l\<in>labelled L p. users L l) = (\<Sum>l\<in>labelled L p. card (users L l))"
  proof (rule card_UN_disjoint)
    show "\<forall>l\<in>labelled L p. \<forall>k\<in>labelled L p. l \<noteq> k \<longrightarrow> users L l \<inter> users L k = {}"
      by (auto simp: users_def)
  qed (simp_all add: assms labelled_finite users_finite)
  ultimately show ?thesis
    by (simp add: label_sum_def consistent_count [OF assms(1)])
qed

lemma label_links_bound:
  assumes "consistent L"
  shows "in_int64 (int (card (label_users L p)))"
proof -
  have "card (label_users L p) \<le> card (dom (lg_vols L))"
    using assms by (intro card_mono) (auto simp: consistent_def label_users_def)
  then show ?thesis using assms by (simp add: consistent_def in_int64_def)
qed

context lib_database
begin

lemma libs_finite: "finite (dom (lg_libs (ledger_of J B d)))"
proof (rule finite_subset)
  show "dom (lg_libs (ledger_of J B d)) \<subseteq> fst ` set (bk_items B d LibrariesBucket)"
    by (force simp: ledger_of_def items_get split: option.splits)
qed simp

lemma snapshot_totals:
  assumes "db_ok J B d" "tx_begin B d = None" "consistent (ledger_of J B d)"
  shows "\<exists>s. Snapshot J B d = Inr s \<and>
    map_index (VolumeLinksByLibrary s) [] = 0 \<and>
    (p \<noteq> [] \<longrightarrow>
       map_index (CachedCountByLibrary s) p = wrap64 (int (card (labelled (ledger_of J B d) p))) \<and>
       map_index (CachedBytesByLibrary s) p = wrap64 (label_sum SizeBytes (ledger_of J B d) p) \<and>
       map_index (VolumeLinksByLibrary s) p = int (card (label_users (ledger_of J B d) p)))"
proof -
  let ?L = "ledger_of J B d"
  obtain s where s: "Snapshot J B d = Inr s"
    and sums: "\<And>agg f p. collects agg f \<Longrightarrow> p \<noteq> [] \<Longrightarrow> agg empty_snapshot p = 0 \<Longrightarrow>
       agg s p = wrap64 (label_sum f ?L p)"
    and blank: "\<And>agg f. collects agg f \<Longrightarrow> agg s [] = agg empty_snapshot []"
    using Snapshot_ok [OF assms(1,2)] by metis
  have "label_sum (\<lambda>r. 1) ?L p = int (card (labelled ?L p))" by (simp add: label_sum_def)
  moreover have "wrap64 (label_sum VolumeCount ?L p) = int (card (label_users ?L p))"
    using label_links [OF assms(3) libs_finite] label_links_bound [OF assms(3)] by (simp add: wrap64_id)
  ultimately show ?thesis
    using s sums [OF collects_count, of p] sums [OF collects_bytes, of p] sums [OF collects_links, of p]
      blank [OF collects_links]
    by (auto simp: empty_snapshot_def)
qed

end

section \<open>Properties\<close>

text \<open>
  C28: On an open, well-formed and consistent database the snapshot succeeds, and for every package
  label it reports the number of cached libraries with that label, the sum of their sizes (as an
  \<open>int64\<close>), and exactly as many links as there are volumes whose library carries the label;
  libraries without a label are not reported.
\<close>
theorem snapshot_counts:
  assumes "lib_database B J" "db_ok J B d" "tx_begin B d = None"
    and "consistent (ledger_of J B d)"
  shows "\<exists>s. Snapshot J B d = Inr s \<and>
    map_index (VolumeLinksByLibrary s) [] = 0 \<and>
    (p \<noteq> [] \<longrightarrow>
       map_index (CachedCountByLibrary s) p = wrap64 (int (card (labelled (ledger_of J B d) p))) \<and>
       map_index (CachedBytesByLibrary s) p = wrap64 (label_sum SizeBytes (ledger_of J B d) p) \<and>
       map_index (VolumeLinksByLibrary s) p = int (card (label_users (ledger_of J B d) p)))"
  using lib_database.snapshot_totals [OF assms] .

theorem snapshot_counts_witness:
  "\<exists>s. Snapshot mem_json mem_bolt demo_db = Inr s \<and> map_index (VolumeLinksByLibrary s) ''java'' = 2"
proof -
  have open_db: "tx_begin mem_bolt demo_db = None" by (simp add: mem_bolt_def demo_db_def)
  have "label_users (ledger_of mem_json mem_bolt demo_db) ''java'' = {''v1'', ''v2''}"
    by (auto simp: label_users_def labelled_def demo_ledger split: if_splits)
  then show ?thesis
    using snapshot_counts [OF mem_tracker.lib_database_axioms demo_ok open_db demo_consistent,
        of "''java''"] by auto
qed

end
