(* ===== verification/Lib_Migration.thy ===== *)
theory Lib_Migration
  imports Lib_Database Go_Paths
begin

text \<open>
  \<open>migrate\<close> and \<open>NewDatabase\<close> of \<open>db.go\<close>: the upgrade of the legacy nested buckets to the
  flat schema, run in one transaction each time the database is opened.
\<close>

section \<open>The migration\<close>

text \<open>One entry of the legacy metadata bucket becomes a library record without volumes.\<close>

definition migrate_metadata :: "'r json \<Rightarrow> ('r, 'd) bolt \<Rightarrow> string \<times> 'r \<Rightarrow> 'd \<Rightarrow> 'd res" where
  "migrate_metadata J B kv t =
     and_then (wrap_err ''could not unmarshal legacy library metadata: %w'' [] (dec_metadata J (snd kv)))
       (\<lambda>(pkg, size). putLibrary J B t (fst kv) \<lparr>Package = pkg, SizeBytes = size, VolumeCount = 0\<rparr>)"

text \<open>
  One volume below a legacy library: it is recorded once, under the first library that maps it.
\<close>

definition migrate_volume :: "'r json \<Rightarrow> ('r, 'd) bolt \<Rightarrow> string \<Rightarrow> string \<Rightarrow> 'd \<Rightarrow> 'd res" where
  "migrate_volume J B libraryID volumeKey t =
     and_then (getVolume J B t volumeKey) (\<lambda>(_, migrated).
       if migrated then Inr t
       else and_then (putVolume J B t volumeKey (zero_volume\<lparr>LibraryID := libraryID\<rparr>)) (\<lambda>t1.
         and_then (getLibrary J B t1 libraryID) (\<lambda>rec.
           putLibrary J B t1 libraryID (rec\<lparr>VolumeCount := wrap64 (VolumeCount rec + 1)\<rparr>))))"

definition migrate_library :: "'r json \<Rightarrow> ('r, 'd) bolt \<Rightarrow> string \<Rightarrow> 'd \<Rightarrow> 'd res" where
  "migrate_library J B libraryID t =
     for_each (migrate_volume J B libraryID) (bk_sub_keys B t legacyLibraryMappingBucket libraryID) t"

definition drop_legacy :: "('r, 'd) bolt \<Rightarrow> string \<Rightarrow> 'd \<Rightarrow> 'd res" where
  "drop_legacy B name t =
     (if tx_bucket B t name
      then wrap_err ''could not delete legacy bucket %s: %w'' [name] (tx_delete_bucket B t name)
      else Inr t)"

definition create_buckets :: "('r, 'd) bolt \<Rightarrow> 'd \<Rightarrow> 'd res" where
  "create_buckets B t =
     and_then (wrap_err ''could not create bucket %s: %w'' [VolumesBucket] (tx_create B t VolumesBucket))
       (\<lambda>t1. wrap_err ''could not create bucket %s: %w'' [LibrariesBucket] (tx_create B t1 LibrariesBucket))"

definition seed_libraries :: "'r json \<Rightarrow> ('r, 'd) bolt \<Rightarrow> 'd \<Rightarrow> 'd res" where
  "seed_libraries J B t =
     (if tx_bucket B t legacyLibraryMetadataBucket
      then for_each (migrate_metadata J B) (bk_items B t legacyLibraryMetadataBucket) t
      else Inr t)"

definition rebuild_volumes :: "'r json \<Rightarrow> ('r, 'd) bolt \<Rightarrow> 'd \<Rightarrow> 'd res" where
  "rebuild_volumes J B t =
     (if tx_bucket B t legacyLibraryMappingBucket
      then for_each (migrate_library J B) (bk_subs B t legacyLibraryMappingBucket) t
      else Inr t)"

definition migrate :: "'r json \<Rightarrow> ('r, 'd) bolt \<Rightarrow> 'd \<Rightarrow> 'd res" where
  "migrate J B t =
     and_then (create_buckets B t) (\<lambda>t1.
     and_then (seed_libraries J B t1) (\<lambda>t2.
     and_then (rebuild_volumes J B t2) (\<lambda>t3.
       for_each (drop_legacy B)
         [legacyLibraryMappingBucket, legacyVolumeMappingBucket, legacyLibraryMetadataBucket] t3)))"

definition DatabaseFileName :: string where "DatabaseFileName = ''datadog-csi-driver.db''"

text \<open>
  \<open>open_db\<close> is \<open>bbolt.Open\<close>. The second result is the file that was opened and closed again
  when the initialization failed.
\<close>

definition NewDatabase ::
  "'r json \<Rightarrow> ('r, 'd) bolt \<Rightarrow> (string \<Rightarrow> 'd res) \<Rightarrow> string \<Rightarrow> 'd res \<times> 'd option" where
  "NewDatabase J B open_db basePath =
     (let path = path_join [basePath, DatabaseFileName] in
      case open_db path of
        Inl e \<Rightarrow> (Inl (Wrapf ''could not open database at %s: %w'' [path] e), None)
      | Inr d \<Rightarrow>
          (case db_update B (\<lambda>t. and_then (migrate J B t) (\<lambda>t'. Inr ((), t'))) d of
             (Inl e, d') \<Rightarrow>
               (Inl (Wrapf ''could not initialize database: %w'' [] e), Some (snd (bolt_close B d')))
           | (Inr _, d') \<Rightarrow> (Inr d', None)))"

definition db_Close :: "('r, 'd) bolt \<Rightarrow> 'd \<Rightarrow> goerr option \<times> 'd" where
  "db_Close B d = bolt_close B d"

section \<open>What it does to the ledger\<close>

text \<open>The volumes of the legacy mapping in the order they are visited.\<close>

definition legacy_links :: "('r, 'd) bolt \<Rightarrow> 'd \<Rightarrow> (string \<times> string) list" where
  "legacy_links B d =
     (if tx_bucket B d legacyLibraryMappingBucket
      then concat (map (\<lambda>l. map (\<lambda>v. (l, v)) (bk_sub_keys B d legacyLibraryMappingBucket l))
             (bk_subs B d legacyLibraryMappingBucket))
      else [])"

fun link_all :: "(string \<times> string) list \<Rightarrow> ledger \<Rightarrow> ledger" where
  "link_all [] L = L"
| "link_all (p # ps) L = link_all ps (lg_link 0 (fst p) (snd p) False L)"

lemma link_all_append: "link_all (ps @ qs) L = link_all qs (link_all ps L)"
  by (induction ps arbitrary: L) auto

lemma dom_link: "dom (lg_vols (lg_link now l v fc L)) = insert v (dom (lg_vols L))"
  by (auto simp: lg_link_def)

lemma lg_link_keeps: "lg_vols L v = Some r \<Longrightarrow> lg_vols (lg_link now l w fc L) v = Some r"
  by (auto simp: lg_link_def)

lemma link_all_dom: "dom (lg_vols (link_all ps L)) = snd ` set ps \<union> dom (lg_vols L)"
  by (induction ps arbitrary: L) (simp_all add: dom_link)

lemma link_all_keeps: "lg_vols L v = Some r \<Longrightarrow> lg_vols (link_all ps L) v = Some r"
  by (induction ps arbitrary: L) (simp_all add: lg_link_keeps)

text \<open>First writer wins.\<close>

lemma link_all_first:
  "lg_vols L v = None \<Longrightarrow>
   lg_vols (link_all ps L) v =
     map_option (\<lambda>p. \<lparr>LibraryID = fst p, CreatedAt = 0, FromCache = False\<rparr>) (find (\<lambda>p. snd p = v) ps)"
proof (induction ps arbitrary: L)
  case (Cons p ps)
  show ?case
  proof (cases "snd p = v")
    case True
    have "lg_vols (lg_link 0 (fst p) v False L) v = Some \<lparr>LibraryID = fst p, CreatedAt = 0, FromCache = False\<rparr>"
      using Cons.prems by (simp add: lg_link_def)
    from link_all_keeps [OF this] show ?thesis using True by simp
  next
    case False
    then have "lg_vols (lg_link 0 (fst p) (snd p) False L) v = None"
      using Cons.prems by (simp add: lg_link_def)
    from Cons.IH [OF this] show ?thesis using False by simp
  qed
qed simp

lemma consistent_link_all:
  assumes "consistent L" "\<forall>p\<in>set ps. fst p \<noteq> [] \<and> snd p \<noteq> []"
    and "int (card (dom (lg_vols L))) + int (length ps) < 2 ^ 63"
  shows "consistent (link_all ps L)"
  using assms
proof (induction ps arbitrary: L)
  case (Cons p ps)
  let ?L = "lg_link 0 (fst p) (snd p) False L"
  have fin: "finite (dom (lg_vols L))" using Cons.prems(1) by (simp add: consistent_def)
  have "consistent ?L"
    using Cons.prems by (intro consistent_link) auto
  moreover have "card (dom (lg_vols ?L)) \<le> Suc (card (dom (lg_vols L)))"
    using fin by (simp add: dom_link card_insert_if)
  ultimately have "consistent (link_all ps ?L)"
    using Cons.prems by (intro Cons.IH) auto
  then show ?case by simp
qed simp

text \<open>Seeding a library record leaves it without volumes.\<close>

definition lg_seed :: "string \<Rightarrow> string \<Rightarrow> int \<Rightarrow> ledger \<Rightarrow> ledger" where
  "lg_seed l p n L = L\<lparr>lg_libs := (lg_libs L)(l \<mapsto> \<lparr>Package = p, SizeBytes = n, VolumeCount = 0\<rparr>)\<rparr>"

definition no_links :: "ledger \<Rightarrow> bool" where
  "no_links L \<longleftrightarrow> lg_vols L = Map.empty \<and> (\<forall>l. VolumeCount (lib_at L l) = 0)"

lemma no_links_consistent: "no_links L \<Longrightarrow> consistent L"
  by (simp add: no_links_def consistent_def users_def)

lemma no_links_seed: "no_links L \<Longrightarrow> no_links (lg_seed l p n L)"
  by (simp add: no_links_def lg_seed_def lib_at_def)

text \<open>The current records, if any, decode.\<close>

definition readable :: "'r json \<Rightarrow> ('r, 'd) bolt \<Rightarrow> 'd \<Rightarrow> bool" where
  "readable J B d \<longleftrightarrow>
     (\<forall>v raw. bk_get B d VolumesBucket v = Some raw \<longrightarrow> (\<exists>r. dec_volume J raw = Inr r)) \<and>
     (\<forall>l raw. bk_get B d LibrariesBucket l = Some raw \<longrightarrow> (\<exists>r. dec_library J raw = Inr r))"

text \<open>What a loop of the migration keeps, and the ledger it has built so far.\<close>

definition after :: "'r json \<Rightarrow> ('r, 'd) bolt \<Rightarrow> 'd \<Rightarrow> ledger \<Rightarrow> 'd \<Rightarrow> bool" where
  "after J B d0 L d \<longleftrightarrow> db_ok J B d \<and> ledger_of J B d = L \<and>
     bk_subs B d = bk_subs B d0 \<and> bk_sub_keys B d = bk_sub_keys B d0 \<and> tx_bucket B d = tx_bucket B d0"

context lib_database
begin

lemma migrate_volume_Inr:
  assumes "db_ok J B d" "migrate_volume J B l v d = Inr d'"
  shows "db_ok J B d' \<and> ledger_of J B d' = lg_link 0 l v False (ledger_of J B d) \<and>
    bk_subs B d' = bk_subs B d \<and> bk_sub_keys B d' = bk_sub_keys B d \<and> tx_bucket B d' = tx_bucket B d"
proof (cases "lg_vols (ledger_of J B d) v")
  case (Some r)
  then have "d' = d" using assms by (simp add: migrate_volume_def getVolume_ok)
  then show ?thesis using Some assms(1) by (simp add: lg_link_def)
next
  case None
  obtain t1 rec where t: "putVolume J B d v (zero_volume\<lparr>LibraryID := l\<rparr>) = Inr t1"
      "getLibrary J B t1 l = Inr rec"
      "putLibrary J B t1 l (rec\<lparr>VolumeCount := wrap64 (VolumeCount rec + 1)\<rparr>) = Inr d'"
    using None assms by (auto simp: migrate_volume_def getVolume_ok)
  have ok: "db_ok J B t1" using putVolume_Inr(2) [OF t(1) assms(1)] .
  have rec: "rec = lib_at (ledger_of J B d) l"
    using t(2) getLibrary_ok [OF ok, of l] putVolume_Inr(1) [OF t(1)] by (simp add: lib_at_def)
  have "bk_subs B d' = bk_subs B d \<and> bk_sub_keys B d' = bk_sub_keys B d \<and> tx_bucket B d' = tx_bucket B d"
    using t(1,3) by (auto simp: putVolume_def putLibrary_def dest!: put_rest)
  then show ?thesis
    using None ok rec putLibrary_Inr [OF t(3)] putVolume_Inr(1) [OF t(1)]
    by (simp add: lg_link_def zero_volume_def)
qed

lemma migrate_volumes_Inr:
  assumes "after J B d0 L d" "for_each (migrate_volume J B l) vs d = Inr d'"
  shows "after J B d0 (link_all (map (\<lambda>v. (l, v)) vs) L) d'"
  using assms
proof (induction vs arbitrary: d L)
  case (Cons v vs)
  then obtain d1 where d1: "migrate_volume J B l v d = Inr d1"
      "for_each (migrate_volume J B l) vs d1 = Inr d'"
    by (auto split: sum.splits)
  have "after J B d0 (lg_link 0 l v False L) d1"
    using migrate_volume_Inr [OF _ d1(1)] Cons.prems(1) by (simp add: after_def)
  from Cons.IH [OF this d1(2)] show ?case by (simp add: link_all_append)
qed simp

lemma migrate_libraries_Inr:
  assumes "after J B d0 L d" "for_each (migrate_library J B) ls d = Inr d'"
  shows "after J B d0 (link_all (concat (map (\<lambda>l. map (\<lambda>v. (l, v))
           (bk_sub_keys B d0 legacyLibraryMappingBucket l)) ls)) L) d'"
  using assms
proof (induction ls arbitrary: d L)
  case (Cons l ls)
  then obtain d1 where d1: "migrate_library J B l d = Inr d1"
      "for_each (migrate_library J B) ls d1 = Inr d'"
    by (auto split: sum.splits)
  have "after J B d0 (link_all (map (\<lambda>v. (l, v)) (bk_sub_keys B d0 legacyLibraryMappingBucket l)) L) d1"
    using migrate_volumes_Inr [OF Cons.prems(1)] d1(1) Cons.prems(1)
    by (simp add: migrate_library_def after_def)
  from Cons.IH [OF this d1(2)] show ?case by (simp add: link_all_append)
qed simp

lemma create_buckets_Inr:
  assumes "create_buckets B t = Inr t'"
  shows "bk_get B t' = bk_get B t" "bk_subs B t' = bk_subs B t" "bk_sub_keys B t' = bk_sub_keys B t"
    and "tx_bucket B t' = (tx_bucket B t)(VolumesBucket := True, LibrariesBucket := True)"
  using assms by (auto simp: create_buckets_def dest!: create_bucket)

lemma drop_legacy_Inr:
  assumes "drop_legacy B b t = Inr t'" "b \<noteq> VolumesBucket" "b \<noteq> LibrariesBucket"
  shows "ledger_of J B t' = ledger_of J B t" "db_ok J B t \<Longrightarrow> db_ok J B t'"
    and "tx_bucket B t' = (tx_bucket B t)(b := False)"
  using assms
  by (auto simp: drop_legacy_def ledger_of_def db_ok_def fun_eq_iff split: if_splits dest!: delete_bucket)

lemma seed_metadata_Inr:
  assumes "db_ok J B t" "migrate_metadata J B kv t = Inr t'"
  obtains p n where "ledger_of J B t' = lg_seed (fst kv) p n (ledger_of J B t)" "db_ok J B t'"
    "bk_subs B t' = bk_subs B t" "bk_sub_keys B t' = bk_sub_keys B t" "tx_bucket B t' = tx_bucket B t"
proof -
  obtain p n where put: "putLibrary J B t (fst kv) \<lparr>Package = p, SizeBytes = n, VolumeCount = 0\<rparr> = Inr t'"
    using assms(2) by (auto simp: migrate_metadata_def)
  have "bk_subs B t' = bk_subs B t \<and> bk_sub_keys B t' = bk_sub_keys B t \<and> tx_bucket B t' = tx_bucket B t"
    using put by (auto simp: putLibrary_def dest!: put_rest)
  then show ?thesis
    using putLibrary_Inr [OF put] assms(1) that [of p n] by (simp add: lg_seed_def)
qed

text \<open>Seeding keeps a ledger without links, and the legacy mapping it will be rebuilt from.\<close>

lemma seed_libraries_Inr:
  assumes "db_ok J B t" "no_links (ledger_of J B t)" "seed_libraries J B t = Inr t'"
  shows "no_links (ledger_of J B t') \<and> after J B t (ledger_of J B t') t'"
proof (cases "tx_bucket B t legacyLibraryMetadataBucket")
  case True
  then have "for_each (migrate_metadata J B) (bk_items B t legacyLibraryMetadataBucket) t = Inr t'"
    using assms(3) by (simp add: seed_libraries_def)
  then show ?thesis
  proof (rule for_each_invariant)
    show "no_links (ledger_of J B t) \<and> after J B t (ledger_of J B t) t"
      using assms by (simp add: after_def)
    fix kv s s'
    assume IH: "no_links (ledger_of J B s) \<and> after J B t (ledger_of J B s) s"
      and step: "migrate_metadata J B kv s = Inr s'"
    then have "db_ok J B s" by (simp add: after_def)
    from seed_metadata_Inr [OF this step] show "no_links (ledger_of J B s') \<and> after J B t (ledger_of J B s') s'"
      using IH by (metis after_def no_links_seed)
  qed
next
  case False
  then show ?thesis using assms by (simp add: seed_libraries_def after_def)
qed

lemma rebuild_volumes_Inr:
  assumes "db_ok J B t" "rebuild_volumes J B t = Inr t'"
  shows "db_ok J B t' \<and> ledger_of J B t' = link_all (legacy_links B t) (ledger_of J B t) \<and>
    tx_bucket B t' = tx_bucket B t"
proof -
  have "after J B t (ledger_of J B t) t" using assms(1) by (simp add: after_def)
  from migrate_libraries_Inr [OF this] show ?thesis
    using assms by (auto simp: rebuild_volumes_def legacy_links_def after_def split: if_splits)
qed

lemma drop_all_Inr:
  assumes "for_each (drop_legacy B)
     [legacyLibraryMappingBucket, legacyVolumeMappingBucket, legacyLibraryMetadataBucket] t = Inr t'"
  shows "ledger_of J B t' = ledger_of J B t" "db_ok J B t \<Longrightarrow> db_ok J B t'"
    and "\<not> tx_bucket B t' legacyLibraryMappingBucket \<and> \<not> tx_bucket B t' legacyVolumeMappingBucket \<and>
         \<not> tx_bucket B t' legacyLibraryMetadataBucket"
proof -
  obtain t1 t2 where t: "drop_legacy B legacyLibraryMappingBucket t = Inr t1"
      "drop_legacy B legacyVolumeMappingBucket t1 = Inr t2"
      "drop_legacy B legacyLibraryMetadataBucket t2 = Inr t'"
    using assms by (auto split: sum.splits)
  note d = drop_legacy_Inr [OF t(1)] drop_legacy_Inr [OF t(2)] drop_legacy_Inr [OF t(3)]
  show "ledger_of J B t' = ledger_of J B t" "db_ok J B t \<Longrightarrow> db_ok J B t'"
    and "\<not> tx_bucket B t' legacyLibraryMappingBucket \<and> \<not> tx_bucket B t' legacyVolumeMappingBucket \<and>
         \<not> tx_bucket B t' legacyLibraryMetadataBucket"
    using d by (simp_all add: bucket_defs)
qed

text \<open>The first upgrade: the flat buckets do not exist yet.\<close>

lemma migrate_fresh:
  assumes "\<not> tx_bucket B d VolumesBucket" "\<not> tx_bucket B d LibrariesBucket" "migrate J B d = Inr d'"
    and "\<forall>p\<in>set (legacy_links B d). fst p \<noteq> [] \<and> snd p \<noteq> []"
    and "int (length (legacy_links B d)) < 2 ^ 63"
  shows "db_ok J B d' \<and> consistent (ledger_of J B d') \<and>
    lg_vols (ledger_of J B d') v =
      map_option (\<lambda>p. \<lparr>LibraryID = fst p, CreatedAt = 0, FromCache = False\<rparr>)
        (find (\<lambda>p. snd p = v) (legacy_links B d))"
proof -
  obtain t1 t2 t3 where t: "create_buckets B d = Inr t1" "seed_libraries J B t1 = Inr t2"
      "rebuild_volumes J B t2 = Inr t3"
      "for_each (drop_legacy B)
         [legacyLibraryMappingBucket, legacyVolumeMappingBucket, legacyLibraryMetadataBucket] t3 = Inr d'"
    using assms(3) by (auto simp: migrate_def simp del: for_each.simps)
  note c = create_buckets_Inr [OF t(1)]
  have none: "bk_get B d VolumesBucket = Map.empty" "bk_get B d LibrariesBucket = Map.empty"
    using no_bucket assms(1,2) by blast+
  have ok1: "db_ok J B t1" and L1: "ledger_of J B t1 = empty_ledger"
    using c none by (auto simp: db_ok_def ledger_of_def empty_ledger_def)
  have no1: "no_links (ledger_of J B t1)"
    by (simp add: L1 no_links_def empty_ledger_def lib_at_def zero_library_def)
  note s = seed_libraries_Inr [OF ok1 no1 t(2)]
  have ok2: "db_ok J B t2" using s by (simp add: after_def)
  have links: "legacy_links B t2 = legacy_links B d"
    using s c by (auto simp: after_def legacy_links_def bucket_defs)
  note r = rebuild_volumes_Inr [OF ok2 t(3)]
  note f = drop_all_Inr [OF t(4)]
  have L: "ledger_of J B d' = link_all (legacy_links B d) (ledger_of J B t2)"
    using f r links by simp
  have "consistent (ledger_of J B d')"
    unfolding L using s assms(4,5)
    by (intro consistent_link_all no_links_consistent) (auto simp: no_links_def)
  moreover have "lg_vols (ledger_of J B t2) v = None" using s by (simp add: no_links_def)
  then have "lg_vols (ledger_of J B d') v =
      map_option (\<lambda>p. \<lparr>LibraryID = fst p, CreatedAt = 0, FromCache = False\<rparr>)
        (find (\<lambda>p. snd p = v) (legacy_links B d))"
    unfolding L by (rule link_all_first)
  ultimately show ?thesis using r f by blast
qed

text \<open>Every run leaves a well-formed database.\<close>

lemma migrate_ok:
  assumes "readable J B d" "migrate J B d = Inr d'"
  shows "db_ok J B d'"
proof -
  obtain t1 t2 t3 where t: "create_buckets B d = Inr t1" "seed_libraries J B t1 = Inr t2"
      "rebuild_volumes J B t2 = Inr t3"
      "for_each (drop_legacy B)
         [legacyLibraryMappingBucket, legacyVolumeMappingBucket, legacyLibraryMetadataBucket] t3 = Inr d'"
    using assms(2) by (auto simp: migrate_def simp del: for_each.simps)
  have ok1: "db_ok J B t1"
    using create_buckets_Inr [OF t(1)] assms(1) by (auto simp: db_ok_def readable_def)
  have "db_ok J B t2"
  proof (cases "tx_bucket B t1 legacyLibraryMetadataBucket")
    case True
    then have "for_each (migrate_metadata J B) (bk_items B t1 legacyLibraryMetadataBucket) t1 = Inr t2"
      using t(2) by (simp add: seed_libraries_def)
    then show ?thesis
      by (rule for_each_invariant [where P = "db_ok J B", OF _ ok1]) (metis seed_metadata_Inr)
  next
    case False
    then show ?thesis using t(2) ok1 by (simp add: seed_libraries_def)
  qed
  then show ?thesis using rebuild_volumes_Inr [OF _ t(3)] drop_all_Inr(2) [OF t(4)] by blast
qed

text \<open>Once the legacy buckets are gone, opening the database again changes nothing.\<close>

lemma migrate_again:
  assumes "db_ok J B d" "\<not> tx_bucket B d legacyLibraryMappingBucket"
    "\<not> tx_bucket B d legacyLibraryMetadataBucket" "migrate J B d = Inr d'"
  shows "db_ok J B d' \<and> ledger_of J B d' = ledger_of J B d"
proof -
  obtain t1 t2 t3 where t: "create_buckets B d = Inr t1" "seed_libraries J B t1 = Inr t2"
      "rebuild_volumes J B t2 = Inr t3"
      "for_each (drop_legacy B)
         [legacyLibraryMappingBucket, legacyVolumeMappingBucket, legacyLibraryMetadataBucket] t3 = Inr d'"
    using assms(4) by (auto simp: migrate_def simp del: for_each.simps)
  note c = create_buckets_Inr [OF t(1)]
  have ok1: "db_ok J B t1" and L1: "ledger_of J B t1 = ledger_of J B d"
    using c assms(1) by (auto simp: db_ok_def ledger_of_def)
  have "t2 = t1" "t3 = t2"
    using t c assms(2,3) by (auto simp: seed_libraries_def rebuild_volumes_def bucket_defs)
  then show ?thesis using drop_all_Inr [OF t(4)] ok1 L1 by simp
qed

lemma migrate_drops_legacy:
  assumes "migrate J B d = Inr d'"
  shows "\<not> tx_bucket B d' legacyLibraryMappingBucket \<and> \<not> tx_bucket B d' legacyVolumeMappingBucket \<and>
         \<not> tx_bucket B d' legacyLibraryMetadataBucket"
proof -
  obtain t3 where "for_each (drop_legacy B)
         [legacyLibraryMappingBucket, legacyVolumeMappingBucket, legacyLibraryMetadataBucket] t3 = Inr d'"
    using assms by (auto simp: migrate_def simp del: for_each.simps)
  then show ?thesis using drop_all_Inr(3) by blast
qed

end

section \<open>Properties\<close>

text \<open>A database of the legacy schema: volume \<open>v1\<close> is mapped under two libraries.\<close>

definition legacy_db :: mem_db where
  "legacy_db =
     \<lparr>mb_buckets = [(legacyLibraryMappingBucket, []), (legacyVolumeMappingBucket, []),
                    (legacyLibraryMetadataBucket, [(''aa'', RMeta ''java'' 7)])],
      mb_subs = [(legacyLibraryMappingBucket, [(''aa'', [''v1'']), (''bb'', [''v1'', ''v2''])])],
      mb_faults = [], mb_closed = False\<rparr>"

text \<open>
  A database whose library \<open>aa\<close> is used by \<open>v1\<close>, beside the metadata an older version of
  the driver wrote for the same library.
\<close>

definition mixed_db :: mem_db where
  "mixed_db =
     \<lparr>mb_buckets =
        [(VolumesBucket, [(''v1'', RVolume \<lparr>LibraryID = ''aa'', CreatedAt = 1, FromCache = False\<rparr>)]),
         (LibrariesBucket, [(''aa'', RLibrary \<lparr>Package = ''java'', SizeBytes = 7, VolumeCount = 1\<rparr>)]),
         (legacyLibraryMetadataBucket, [(''aa'', RMeta ''java'' 7)])],
      mb_subs = [], mb_faults = [], mb_closed = False\<rparr>"

lemmas mem_eval = mem_bolt_def mem_json_def aget_def aremove_def dedup_def bucket_defs
  zero_volume_def zero_library_def wrap64_def

text \<open>
  C29: Upgrading a database of the legacy schema, where the flat buckets do not exist yet, yields a
  well-formed database whose library counts agree with the volume records, drops the legacy
  buckets, and records each legacy volume exactly once, under the first library that maps it.
\<close>
theorem migrate_upgrade:
  assumes "bolt_laws B" "json_laws J"
    and "\<not> tx_bucket B d VolumesBucket" "\<not> tx_bucket B d LibrariesBucket" "migrate J B d = Inr d'"
    and "\<forall>p\<in>set (legacy_links B d). fst p \<noteq> [] \<and> snd p \<noteq> []"
    and "int (length (legacy_links B d)) < 2 ^ 63"
  shows "db_ok J B d' \<and> consistent (ledger_of J B d') \<and>
    \<not> tx_bucket B d' legacyLibraryMappingBucket \<and> \<not> tx_bucket B d' legacyLibraryMetadataBucket \<and>
    lg_vols (ledger_of J B d') v =
      map_option (\<lambda>p. \<lparr>LibraryID = fst p, CreatedAt = 0, FromCache = False\<rparr>)
        (find (\<lambda>p. snd p = v) (legacy_links B d))"
  using lib_database.migrate_fresh [OF lib_database.intro [OF assms(1,2)] assms(3-7)]
    lib_database.migrate_drops_legacy [OF lib_database.intro [OF assms(1,2)] assms(5)]
  by blast

theorem migrate_upgrade_witness:
  "\<exists>d'. migrate mem_json mem_bolt legacy_db = Inr d' \<and> consistent (ledger_of mem_json mem_bolt d') \<and>
     lg_vols (ledger_of mem_json mem_bolt d') ''v1'' = Some \<lparr>LibraryID = ''aa'', CreatedAt = 0, FromCache = False\<rparr>"
proof -
  obtain d' where run: "migrate mem_json mem_bolt legacy_db = Inr d'"
    and links: "legacy_links mem_bolt legacy_db = [(''aa'', ''v1''), (''bb'', ''v1''), (''bb'', ''v2'')]"
  proof
    show "migrate mem_json mem_bolt legacy_db =
        Inr (case migrate mem_json mem_bolt legacy_db of Inr d \<Rightarrow> d | Inl _ \<Rightarrow> legacy_db)" by code_simp
    show "legacy_links mem_bolt legacy_db = [(''aa'', ''v1''), (''bb'', ''v1''), (''bb'', ''v2'')]"
      by code_simp
  qed
  have fresh: "\<not> tx_bucket mem_bolt legacy_db VolumesBucket" "\<not> tx_bucket mem_bolt legacy_db LibrariesBucket"
    by code_simp+
  show ?thesis
    using migrate_upgrade [OF mem_bt.bolt_laws_axioms mem_js.json_laws_axioms fresh run, of "''v1''"]
      run links by simp
qed

text \<open>
  C30: Opening the database gives a well-formed one, with every stored record decodable and both
  buckets present; when the migration or its commit fails, the error is reported, nothing of the
  stored data has changed and the file has been closed.
\<close>
theorem new_database_ok:
  assumes "bolt_laws B" "json_laws J" "open_db (path_join [basePath, DatabaseFileName]) = Inr d"
    and "readable J B d"
  shows "case NewDatabase J B open_db basePath of
      (Inr d', _) \<Rightarrow> db_ok J B d'
    | (Inl e, f) \<Rightarrow> (\<exists>d'. f = Some (snd (bolt_close B d')) \<and> same_data B d d')"
proof -
  let ?f = "\<lambda>t. and_then (migrate J B t) (\<lambda>t'. Inr ((), t'))"
  obtain r d' where upd: "db_update B ?f d = (r, d')" by force
  show ?thesis
  proof (cases r)
    case (Inl e)
    then show ?thesis
      using upd assms(3) bolt_laws.update_Inl [OF assms(1), of ?f d e d']
      by (auto simp: NewDatabase_def)
  next
    case (Inr u)
    then obtain t where t: "migrate J B d = Inr t" "same_data B t d'"
      using upd bolt_laws.update_Inr [OF assms(1), of ?f d u d'] by auto
    have "db_ok J B t"
      by (rule lib_database.migrate_ok [OF lib_database.intro [OF assms(1,2)] assms(4) t(1)])
    then show ?thesis using Inr upd assms(3) same_data_ok [OF t(2)] by (simp add: NewDatabase_def)
  qed
qed

theorem new_database_ok_witness:
  "\<exists>d'. NewDatabase mem_json mem_bolt (\<lambda>_. Inr mixed_db) ''/d'' = (Inr d', None) \<and> db_ok mem_json mem_bolt d'"
proof -
  define d' where "d' = (case fst (NewDatabase mem_json mem_bolt (\<lambda>_. Inr mixed_db) ''/d'') of
      Inr d \<Rightarrow> d | Inl _ \<Rightarrow> mixed_db)"
  have run: "NewDatabase mem_json mem_bolt (\<lambda>_. Inr mixed_db) ''/d'' = (Inr d', None)"
    unfolding d'_def by code_simp
  have "readable mem_json mem_bolt mixed_db"
    by (auto simp: readable_def mem_bolt_def mem_json_def mixed_db_def aget_def bucket_defs
        split: if_splits)
  from new_database_ok [OF mem_bt.bolt_laws_axioms mem_js.json_laws_axioms _ this,
      of "\<lambda>_. Inr mixed_db" "''/d''"] run
  show ?thesis by (auto split: prod.splits)
qed

text \<open>
  The migration is idempotent: whatever mixture of legacy and current buckets it is run on,
  as long as the current records decode, it leaves a well-formed database on which running it
  again, as the next start does, changes no volume and no library.
\<close>
theorem migrate_idempotent:
  assumes "bolt_laws B" "json_laws J" "readable J B d" "migrate J B d = Inr d1"
  shows "db_ok J B d1 \<and>
    (migrate J B d1 = Inr d2 \<longrightarrow> ledger_of J B d2 = ledger_of J B d1 \<and> db_ok J B d2)"
  using lib_database.migrate_ok [OF lib_database.intro [OF assms(1,2)] assms(3,4)]
    lib_database.migrate_again [OF lib_database.intro [OF assms(1,2)], of d1 d2]
    lib_database.migrate_drops_legacy [OF lib_database.intro [OF assms(1,2)] assms(4)]
  by blast

theorem migrate_idempotent_witness:
  "\<exists>d1 d2. migrate mem_json mem_bolt mixed_db = Inr d1 \<and> migrate mem_json mem_bolt d1 = Inr d2 \<and>
     ledger_of mem_json mem_bolt d2 = ledger_of mem_json mem_bolt d1"
proof -
  define d1 where "d1 = (case migrate mem_json mem_bolt mixed_db of Inr d \<Rightarrow> d | Inl _ \<Rightarrow> mixed_db)"
  define d2 where "d2 = (case migrate mem_json mem_bolt d1 of Inr d \<Rightarrow> d | Inl _ \<Rightarrow> mixed_db)"
  have d1: "migrate mem_json mem_bolt mixed_db = Inr d1" unfolding d1_def by code_simp
  have d2: "migrate mem_json mem_bolt d1 = Inr d2" unfolding d2_def d1_def by code_simp
  have "readable mem_json mem_bolt mixed_db"
    by (auto simp: readable_def mem_bolt_def mem_json_def mixed_db_def aget_def bucket_defs
        split: if_splits)
  from migrate_idempotent [OF mem_bt.bolt_laws_axioms mem_js.json_laws_axioms this d1, of d2] d1 d2
  show ?thesis by blast
qed


end
