(* ===== verification/Lib_Events.thy ===== *)
theory Lib_Events
  imports Go_Paths Lib_Database
begin

text \<open>
  \<open>pkg/librarymanager/library.go\<close>, the library a volume asks for, and
  \<open>pkg/libraryevents/libraryevents.go\<close>, the vocabulary the library manager reports its
  activity in.
\<close>

section \<open>Libraries\<close>

record library =
  lib_name :: string
  lib_registry :: string
  lib_version :: string
  lib_pull :: bool

definition NewLibrary :: "string \<Rightarrow> string \<Rightarrow> string \<Rightarrow> bool \<Rightarrow> library res" where
  "NewLibrary name registry version pull =
     (if name = [] then Inl (Errorf ''name must be provided and cannot be empty'' [])
      else if registry = [] then Inl (Errorf ''registry must be provided and cannot be empty'' [])
      else if version = [] then Inl (Errorf ''version must be provided and cannot be empty'' [])
      else Inr \<lparr>lib_name = name, lib_registry = registry, lib_version = version, lib_pull = pull\<rparr>)"

definition Image :: "library \<Rightarrow> string" where
  "Image l =
     (let separator =
        (if str_contains (lib_version l) '':'' \<and> \<not> str_contains (lib_version l) ''@'' then ''@'' else '':'')
      in lib_registry l @ ''/'' @ lib_name l @ separator @ lib_version l)"

section \<open>Events\<close>

datatype resolution = ResolutionCacheHit | ResolutionDownloaded | ResolutionFailed

datatype cleanup_status = CleanupSuccess | CleanupFailed | CleanupSkippedInUse

datatype event =
    OnLibraryResolved string resolution
  | OnLibraryDownload string string int
  | OnLibraryCleanup string cleanup_status string
  | OnLibraryCached string int int
  | OnLibraryEvicted string int int
  | OnVolumeLinked string int
  | OnVolumeUnlinked string int
  | OnSnapshot snapshot

text \<open>
  A \<open>Listener\<close> is what it does with an event; \<open>None\<close> stands for a panic. The default one
  discards every event.
\<close>

type_synonym 'm listener = "event \<Rightarrow> 'm \<Rightarrow> 'm option"

fun NoopListener :: "'m listener" where
  "NoopListener (OnLibraryResolved l r) m = Some m"
| "NoopListener (OnLibraryDownload l g d) m = Some m"
| "NoopListener (OnLibraryCleanup l s strat) m = Some m"
| "NoopListener (OnLibraryCached l c b) m = Some m"
| "NoopListener (OnLibraryEvicted l c b) m = Some m"
| "NoopListener (OnVolumeLinked l n) m = Some m"
| "NoopListener (OnVolumeUnlinked l n) m = Some m"
| "NoopListener (OnSnapshot s) m = Some m"

section \<open>Properties\<close>

lemma str_contains_single: "str_contains s [c] \<longleftrightarrow> c \<in> set s"
proof -
  have "list_ex (prefix [c]) (suffixes s) \<longleftrightarrow> (\<exists>t. suffix t s \<and> prefix [c] t)"
    by (auto simp: list_ex_iff)
  also have "\<dots> \<longleftrightarrow> c \<in> set s"
    unfolding prefix_def suffix_def by (metis append_Cons append_Nil in_set_conv_decomp)
  finally show ?thesis by (simp add: str_contains_def)
qed

lemma image_separator:
  "Image l = lib_registry l @ ''/'' @ lib_name l @
     (if CHR '':'' \<in> set (lib_version l) \<and> CHR ''@'' \<notin> set (lib_version l) then ''@'' else '':'') @
     lib_version l"
  by (simp add: Image_def str_contains_single)

text \<open>
  The image reference separates a tag with a colon, a pure digest with an at sign and a tag
  followed by a digest with a colon; and the version can be read back from the reference, so two
  versions of the same package never share an entry of the digest cache.
\<close>
theorem image_reference:
  "Image \<lparr>lib_name = n, lib_registry = r, lib_version = ''sha256:'' @ hex, lib_pull = p\<rparr> =
     (if CHR ''@'' \<in> set hex then r @ ''/'' @ n @ '':sha256:'' @ hex else r @ ''/'' @ n @ ''@sha256:'' @ hex) \<and>
   (CHR '':'' \<notin> set tag \<longrightarrow>
     Image \<lparr>lib_name = n, lib_registry = r, lib_version = tag, lib_pull = p\<rparr> = r @ ''/'' @ n @ '':'' @ tag) \<and>
   Image \<lparr>lib_name = n, lib_registry = r, lib_version = tag @ ''@'' @ hex, lib_pull = p\<rparr> =
     r @ ''/'' @ n @ '':'' @ tag @ ''@'' @ hex \<and>
   (lib_registry a = lib_registry b \<and> lib_name a = lib_name b \<and> Image a = Image b \<longrightarrow>
     lib_version a = lib_version b)"
  by (auto simp: image_separator split: if_splits)

theorem image_reference_witness:
  "Image \<lparr>lib_name = ''java'', lib_registry = ''gcr.io'', lib_version = ''v1'', lib_pull = True\<rparr> = ''gcr.io/java:v1'' \<and>
   lib_version \<lparr>lib_name = ''java'', lib_registry = ''gcr.io'', lib_version = ''v1'', lib_pull = True\<rparr> = ''v1''"
  using image_reference [where tag = "''v1''" and n = "''java''" and r = "''gcr.io''" and p = True
      and hex = "''0''" and a = "\<lparr>lib_name = ''java'', lib_registry = ''gcr.io'', lib_version = ''v1'', lib_pull = True\<rparr>"
      and b = "\<lparr>lib_name = ''java'', lib_registry = ''gcr.io'', lib_version = ''v1'', lib_pull = False\<rparr>"]
  by simp

end
