(* ===== verification/Img_Cache.thy ===== *)
theory Img_Cache
  imports Lib_Events
begin

text \<open>
  \<open>pkg/librarymanager/imagecache.go\<close> and the digest part of \<open>downloader.go\<close>: the in-memory
  cache of image digests in front of the registry. The registry client (\<open>crane\<close>), the reference
  parser and the clock are parameters of the model.
\<close>

section \<open>The world outside\<close>

text \<open>
  One entry of a tar stream: its name, the kind its mode gives, the link target, the error of
  opening it, and its content.
\<close>

datatype entry_mode = ModeDir | ModeSymlink | ModeRegular | ModeOther

record tar_entry =
  NameInArchive :: string
  te_mode :: entry_mode
  LinkTarget :: string
  te_open :: "goerr option"
  te_content :: string

text \<open>
  \<open>crane_pull\<close> answers with the entries of the exported file system and the error that ends the
  stream early, if any; \<open>tar_error\<close> is how the tar reader reports an error of its handler.
\<close>

record 'n net =
  parse_reference :: "string \<Rightarrow> goerr option"
  crane_digest :: "'n \<Rightarrow> string \<Rightarrow> string res \<times> 'n"
  crane_pull :: "'n \<Rightarrow> string \<Rightarrow> (tar_entry list \<times> goerr option) res \<times> 'n"
  tar_error :: "string \<Rightarrow> goerr \<Rightarrow> goerr"
  time_now :: "'n \<Rightarrow> int \<times> 'n"

section \<open>Downloader.FetchDigest\<close>

definition downloader_FetchDigest :: "'n net \<Rightarrow> string \<Rightarrow> 'n \<Rightarrow> string res \<times> 'n" where
  "downloader_FetchDigest N img n =
     (case crane_digest N n img of
        (Inl e, n') \<Rightarrow> (Inl (Wrapf ''could not get digest %s: %w'' [img] e), n')
      | (Inr digest, n') \<Rightarrow>
          if \<not> has_prefix digest ''sha256:''
          then (Inl (Errorf ''digest does not have expected prefix: %s'' [digest]), n')
          else (Inr (trim_prefix digest ''sha256:''), n'))"

section \<open>The cache\<close>

record cache_entry =
  validUntil :: int
  cached_value :: string

text \<open>The state of an \<open>ImageCache\<close> is its map; its time to live is an argument.\<close>

type_synonym image_cache = "string \<rightharpoonup> cache_entry"

definition NewImageCache :: "int \<Rightarrow> image_cache \<times> int" where
  "NewImageCache ttl = (Map.empty, ttl)"

definition digestFromCache :: "int \<Rightarrow> string \<Rightarrow> image_cache \<Rightarrow> string \<times> image_cache" where
  "digestFromCache now img c =
     (case c img of
        None \<Rightarrow> ([], c)
      | Some entry \<Rightarrow>
          if now > validUntil entry then ([], c(img := None)) else (cached_value entry, c))"

definition cacheDigest :: "int \<Rightarrow> int \<Rightarrow> string \<Rightarrow> string \<Rightarrow> image_cache \<Rightarrow> image_cache" where
  "cacheDigest now ttl img digest c =
     c(img \<mapsto> \<lparr>validUntil = now + ttl, cached_value = digest\<rparr>)"

definition cache_lookup :: "'n net \<Rightarrow> bool \<Rightarrow> string \<Rightarrow> image_cache \<Rightarrow> 'n \<Rightarrow> string \<times> image_cache \<times> 'n" where
  "cache_lookup N pull img c n =
     (if pull then ([], c, n)
      else let (now, n1) = time_now N n; (v, c1) = digestFromCache now img c in (v, c1, n1))"

definition FetchDigest ::
  "'n net \<Rightarrow> int \<Rightarrow> string \<Rightarrow> bool \<Rightarrow> image_cache \<Rightarrow> 'n \<Rightarrow> string res \<times> image_cache \<times> 'n" where
  "FetchDigest N ttl img pull c n =
     (case parse_reference N img of
        Some e \<Rightarrow> (Inl (Wrapf ''invalid image reference %q: %w'' [img] e), c, n)
      | None \<Rightarrow>
          (let (cached, c1, n1) = cache_lookup N pull img c n in
           if cached \<noteq> [] then (Inr cached, c1, n1)
           else case downloader_FetchDigest N img n1 of
             (Inl e, n2) \<Rightarrow> (Inl e, c1, n2)
           | (Inr digest, n2) \<Rightarrow>
               (let (now, n3) = time_now N n2 in
                (Inr digest, cacheDigest now ttl img digest c1, n3))))"

section \<open>Facts\<close>

text \<open>A fresh entry is one that has not expired.\<close>

definition fresh_at :: "int \<Rightarrow> string \<Rightarrow> image_cache \<Rightarrow> bool" where
  "fresh_at now img c \<longleftrightarrow> (\<exists>e. c img = Some e \<and> now \<le> validUntil e \<and> cached_value e \<noteq> [])"

lemma FetchDigest_other:
  "j \<noteq> img \<Longrightarrow> fst (snd (FetchDigest N ttl img pull c n)) j = c j"
  by (auto simp: FetchDigest_def cache_lookup_def digestFromCache_def cacheDigest_def Let_def
           split: option.split prod.split sum.split)

lemma FetchDigest_hit:
  assumes "parse_reference N img = None" "\<not> pull" "time_now N n = (now, n1)"
    and "c img = Some e" "now \<le> validUntil e" "cached_value e \<noteq> []"
  shows "FetchDigest N ttl img pull c n = (Inr (cached_value e), c, n1)"
  using assms by (simp add: FetchDigest_def cache_lookup_def digestFromCache_def)

lemma FetchDigest_miss:
  assumes "parse_reference N img = None"
    and "pull \<or> \<not> fresh_at (fst (time_now N n)) img c"
  shows "case downloader_FetchDigest N img (if pull then n else snd (time_now N n)) of
     (Inl e, n2) \<Rightarrow> fst (FetchDigest N ttl img pull c n) = Inl e
   | (Inr d, n2) \<Rightarrow> fst (FetchDigest N ttl img pull c n) = Inr d \<and>
       fst (snd (FetchDigest N ttl img pull c n)) img =
         Some \<lparr>validUntil = fst (time_now N n2) + ttl, cached_value = d\<rparr>"
proof (cases pull)
  case True
  then show ?thesis
    using assms(1)
    by (simp add: FetchDigest_def cache_lookup_def cacheDigest_def Let_def split: prod.split sum.split)
next
  case False
  obtain now n1 where now: "time_now N n = (now, n1)" by force
  have blank: "fst (digestFromCache now img c) = []"
    using assms(2) False now by (auto simp: digestFromCache_def fresh_at_def split: option.split)
  then show ?thesis
    using assms(1) False now
    by (cases "digestFromCache now img c")
       (simp add: FetchDigest_def cache_lookup_def cacheDigest_def Let_def split: prod.split sum.split)
qed

section \<open>A registry with a clock\<close>

text \<open>
  A network for the witnesses: the clock is a counter that each reading advances by one, the
  registry maps images to digests, and every image consists of one file.
\<close>

record mem_net =
  mn_clock :: int
  mn_digests :: "(string \<times> string) list"

definition mem_network :: "mem_net net" where
  "mem_network =
     \<lparr>parse_reference = (\<lambda>i. if i = [] then Some (ExtErr ''bad reference'') else None),
      crane_digest = (\<lambda>n i. (case map_of (mn_digests n) i of
                               None \<Rightarrow> Inl (ExtErr ''not found'')
                             | Some d \<Rightarrow> if plain (trim_prefix d ''sha256:'') \<and>
                                            CHR '':'' \<notin> set (trim_prefix d ''sha256:'') then Inr d
                                         else Inl (ExtErr ''invalid digest''), n)),
      crane_pull = (\<lambda>n i. (Inr ([\<lparr>NameInArchive = ''lib.so'', te_mode = ModeRegular, LinkTarget = [],
                                 te_open = None, te_content = ''abc''\<rparr>], None), n)),
      tar_error = (\<lambda>name e. e),
      time_now = (\<lambda>n. (mn_clock n, n\<lparr>mn_clock := mn_clock n + 1\<rparr>))\<rparr>"

section \<open>Properties\<close>

text \<open>
  C32: \<open>FetchDigest\<close> is right about the cache: without \<open>pull\<close>, an entry that has not expired is
  returned without asking the registry; otherwise (\<open>pull\<close>, no entry, or an expired one) the answer
  is the registry's, a successful answer is kept for exactly the time to live, an error is passed
  on; and the entries of the other images are never touched.
\<close>
theorem fetch_digest_cache:
  assumes "parse_reference N img = None"
  shows "(\<not> pull \<and> c img = Some e \<and> fst (time_now N n) \<le> validUntil e \<and> cached_value e \<noteq> [] \<longrightarrow>
            FetchDigest N ttl img pull c n = (Inr (cached_value e), c, snd (time_now N n))) \<and>
         (pull \<or> \<not> fresh_at (fst (time_now N n)) img c \<longrightarrow>
            (case downloader_FetchDigest N img (if pull then n else snd (time_now N n)) of
               (Inl err, n2) \<Rightarrow> fst (FetchDigest N ttl img pull c n) = Inl err
             | (Inr d, n2) \<Rightarrow> fst (FetchDigest N ttl img pull c n) = Inr d \<and>
                 fst (snd (FetchDigest N ttl img pull c n)) img =
                   Some \<lparr>validUntil = fst (time_now N n2) + ttl, cached_value = d\<rparr>)) \<and>
         (j \<noteq> img \<longrightarrow> fst (snd (FetchDigest N ttl img pull c n)) j = c j)"
proof (intro conjI impI)
  assume hit: "\<not> pull \<and> c img = Some e \<and> fst (time_now N n) \<le> validUntil e \<and> cached_value e \<noteq> []"
  then show "FetchDigest N ttl img pull c n = (Inr (cached_value e), c, snd (time_now N n))"
    using FetchDigest_hit [OF assms, of pull n "fst (time_now N n)" "snd (time_now N n)" c e ttl] by simp
next
  assume "pull \<or> \<not> fresh_at (fst (time_now N n)) img c"
  then show "case downloader_FetchDigest N img (if pull then n else snd (time_now N n)) of
      (Inl err, n2) \<Rightarrow> fst (FetchDigest N ttl img pull c n) = Inl err
    | (Inr d, n2) \<Rightarrow> fst (FetchDigest N ttl img pull c n) = Inr d \<and>
        fst (snd (FetchDigest N ttl img pull c n)) img =
          Some \<lparr>validUntil = fst (time_now N n2) + ttl, cached_value = d\<rparr>"
    by (rule FetchDigest_miss [OF assms])
next
  assume "j \<noteq> img"
  then show "fst (snd (FetchDigest N ttl img pull c n)) j = c j" by (rule FetchDigest_other)
qed

theorem fetch_digest_cache_witness:
  "FetchDigest mem_network 60 ''img'' False [''img'' \<mapsto> \<lparr>validUntil = 5, cached_value = ''aa''\<rparr>]
     \<lparr>mn_clock = 5, mn_digests = []\<rparr> =
     (Inr ''aa'', [''img'' \<mapsto> \<lparr>validUntil = 5, cached_value = ''aa''\<rparr>], \<lparr>mn_clock = 6, mn_digests = []\<rparr>) \<and>
   fst (FetchDigest mem_network 60 ''img'' True [''img'' \<mapsto> \<lparr>validUntil = 5, cached_value = ''aa''\<rparr>]
     \<lparr>mn_clock = 5, mn_digests = [(''img'', ''sha256:bb'')]\<rparr>) = Inr ''bb''"
  using fetch_digest_cache [of mem_network "''img''" False
      "[''img'' \<mapsto> \<lparr>validUntil = 5, cached_value = ''aa''\<rparr>]" "\<lparr>validUntil = 5, cached_value = ''aa''\<rparr>"
      "\<lparr>mn_clock = 5, mn_digests = []\<rparr>" 60]
    fetch_digest_cache [of mem_network "''img''" True
      "[''img'' \<mapsto> \<lparr>validUntil = 5, cached_value = ''aa''\<rparr>]" "\<lparr>validUntil = 5, cached_value = ''aa''\<rparr>"
      "\<lparr>mn_clock = 5, mn_digests = [(''img'', ''sha256:bb'')]\<rparr>" 60]
  by (simp add: mem_network_def downloader_FetchDigest_def has_prefix_def trim_prefix_def plain_def slash_def)

end
