(* ===== verification/Lib_Archive.thy ===== *)
theory Lib_Archive
  imports Img_Cache Host_Os
begin

text \<open>
  \<open>pkg/librarymanager/archive.go\<close> and \<open>Downloader.Download\<close>: the files of a container image
  are written below a destination directory, through an \<open>os.Root\<close> opened on it.
\<close>

section \<open>The extractor\<close>

record archive_extractor =
  ax_src :: string
  ax_dst :: string

text \<open>\<open>filepath.Abs\<close>; \<open>wd\<close> is what \<open>os.Getwd\<close> returns.\<close>

definition path_abs :: "string res \<Rightarrow> string \<Rightarrow> string res" where
  "path_abs wd p = (if rooted p then Inr (path_clean p) else and_then wd (\<lambda>d. Inr (path_join [d, p])))"

definition NewArchiveExtractor ::
  "'h host \<Rightarrow> string res \<Rightarrow> string \<Rightarrow> string \<Rightarrow> 'h \<Rightarrow> archive_extractor res \<times> 'h" where
  "NewArchiveExtractor H wd src dst h =
     (case path_abs wd (path_clean dst) of
        Inl e \<Rightarrow> (Inl (Wrapf ''could not get absolute path for destination %s: %w'' [dst] e), h)
      | Inr destination \<Rightarrow>
          (case os_mkdir_all H h destination of
             (Some e, h') \<Rightarrow> (Inl (Wrapf ''could not create destination %s: %w'' [destination] e), h')
           | (None, h') \<Rightarrow> (Inr \<lparr>ax_src = path_clean (''/'' @ src), ax_dst = destination\<rparr>, h')))"

text \<open>The path below the root an entry is written to.\<close>

definition dest_path :: "archive_extractor \<Rightarrow> string \<Rightarrow> string res" where
  "dest_path ax archivePath =
     and_then (wrap_err ''could not determine relative path: %w'' [] (path_rel (ax_src ax) archivePath))
       (\<lambda>relativePath. Inr (path_clean relativePath))"

text \<open>
  The state of an extraction is the host and \<open>bytesExtracted\<close>. The three cases of
  \<open>processFile\<close> that write.
\<close>

definition extract_symlink ::
  "'h host \<Rightarrow> string \<Rightarrow> string \<Rightarrow> string \<Rightarrow> 'h \<times> int \<Rightarrow> goerr option \<times> 'h \<times> int" where
  "extract_symlink H root destPath linkTarget s =
     (if linkTarget = [] then (Some (Errorf ''symlink %s has no target'' [destPath]), s)
      else case root_symlink H (fst s) root linkTarget destPath of
        (None, h') \<Rightarrow> (None, h', snd s)
      | (Some e, h') \<Rightarrow>
          (if root_readlink H h' root destPath = Inr linkTarget then (None, h', snd s)
           else (Some (Wrapf ''could not create symlink %s -> %s: %w'' [destPath, linkTarget] e),
                 h', snd s)))"

definition extract_regular ::
  "'h host \<Rightarrow> string \<Rightarrow> string \<Rightarrow> tar_entry \<Rightarrow> 'h \<times> int \<Rightarrow> goerr option \<times> 'h \<times> int" where
  "extract_regular H root destPath f s =
     (case te_open f of
        Some e \<Rightarrow> (Some (Wrapf ''could not open file in archive: %w'' [] e), s)
      | None \<Rightarrow>
          (case root_open_file H (fst s) root destPath of
             (Some e, h1) \<Rightarrow> (Some (Wrapf ''could not create destination file: %w'' [] e), h1, snd s)
           | (None, h1) \<Rightarrow>
               (case root_copy H h1 root destPath (te_content f) of
                  (Inl e, h2) \<Rightarrow> (Some (Wrapf ''could not copy destination file: %w'' [] e), h2, snd s)
                | (Inr n, h2) \<Rightarrow> (None, h2, wrap64 (snd s + n)))))"

definition processFile ::
  "'h host \<Rightarrow> archive_extractor \<Rightarrow> tar_entry \<Rightarrow> 'h \<times> int \<Rightarrow> goerr option \<times> 'h \<times> int" where
  "processFile H ax f s =
     (let archivePath = path_clean (''/'' @ NameInArchive f) in
      if \<not> has_prefix archivePath (ax_src ax) then (None, s)
      else case dest_path ax archivePath of
        Inl e \<Rightarrow> (Some e, s)
      | Inr destPath \<Rightarrow>
          if destPath = ''.'' then (None, s)
          else (case te_mode f of
                  ModeDir \<Rightarrow>
                    (case root_mkdir H (fst s) (ax_dst ax) destPath of (e, h') \<Rightarrow> (e, h', snd s))
                | ModeSymlink \<Rightarrow> extract_symlink H (ax_dst ax) destPath (LinkTarget f) s
                | ModeRegular \<Rightarrow> extract_regular H (ax_dst ax) destPath f s
                | ModeOther \<Rightarrow> (None, s)))"

text \<open>
  The tar reader hands over the entries in order and stops at the first error of the handler,
  which it reports with \<open>wrap\<close>, or at the error that ends the stream.
\<close>

fun extract_entries ::
  "'h host \<Rightarrow> (string \<Rightarrow> goerr \<Rightarrow> goerr) \<Rightarrow> archive_extractor \<Rightarrow> tar_entry list \<Rightarrow> goerr option \<Rightarrow>
   'h \<times> int \<Rightarrow> goerr option \<times> 'h \<times> int" where
  "extract_entries H wrap ax [] e s = (e, s)"
| "extract_entries H wrap ax (f # fs) e s =
     (case processFile H ax f s of
        (Some x, s') \<Rightarrow> (Some (wrap (NameInArchive f) x), s')
      | (None, s') \<Rightarrow> extract_entries H wrap ax fs e s')"

definition Extract ::
  "'h host \<Rightarrow> (string \<Rightarrow> goerr \<Rightarrow> goerr) \<Rightarrow> archive_extractor \<Rightarrow> tar_entry list \<Rightarrow> goerr option \<Rightarrow>
   'h \<Rightarrow> int res \<times> 'h" where
  "Extract H wrap ax fs e h =
     (case root_open H h (ax_dst ax) of
        Some x \<Rightarrow> (Inl (Wrapf ''could not open destination root %s: %w'' [ax_dst ax] x), h)
      | None \<Rightarrow>
          (case extract_entries H wrap ax fs e (h, 0) of
             (Some x, h', n) \<Rightarrow> (Inl x, h')
           | (None, h', n) \<Rightarrow> (Inr n, h')))"

section \<open>Download\<close>

definition Download ::
  "'h host \<Rightarrow> 'n net \<Rightarrow> string res \<Rightarrow> string \<Rightarrow> string \<Rightarrow> 'h \<Rightarrow> 'n \<Rightarrow> int res \<times> 'h \<times> 'n" where
  "Download H N wd img dst h n =
     (case crane_pull N n img of
        (Inl e, n') \<Rightarrow> (Inl (Wrapf ''could not pull %s: %w'' [img] e), h, n')
      | (Inr (fs, e), n') \<Rightarrow>
          (case NewArchiveExtractor H wd ''/'' dst h of
             (Inl x, h1) \<Rightarrow> (Inl (Wrapf ''could not setup archive extractor: %w'' [] x), h1, n')
           | (Inr ax, h1) \<Rightarrow>
               (case Extract H (tar_error N) ax fs e h1 of
                  (Inl x, h2) \<Rightarrow> (Inl (Wrapf ''could not extract archive: %w'' [] x), h2, n')
                | (Inr bytes, h2) \<Rightarrow> (Inr bytes, h2, n'))))"

section \<open>The construction of a downloader\<close>

text \<open>
  A downloader holds the HTTP transport and the keychain of its requests; both are values of
  libraries, and so are the default transport, the keychain without any credentials and the
  platform the program runs on. Every request to the registry is made with the same options, so the
  registry client a downloader uses, a \<open>net\<close>, is a function of them.
\<close>

record ('t, 'k) http_lib =
  DefaultTransport :: 't
  NewMultiKeychain :: 'k
  GOOS :: string
  GOARCH :: string

record ('t, 'k) downloader =
  roundTripper :: 't
  dl_keychain :: 'k

definition userAgent :: string where "userAgent = ''datadog-csi-driver''"

definition newDownloader :: "('t, 'k) http_lib \<Rightarrow> 't \<Rightarrow> 'k option \<Rightarrow> ('t, 'k) downloader" where
  "newDownloader L rt kc =
     \<lparr>roundTripper = rt, dl_keychain = (case kc of None \<Rightarrow> NewMultiKeychain L | Some k \<Rightarrow> k)\<rparr>"

definition NewDownloader :: "('t, 'k) http_lib \<Rightarrow> ('t, 'k) downloader" where
  "NewDownloader L = newDownloader L (DefaultTransport L) None"

definition NewDownloaderWithKeychain :: "('t, 'k) http_lib \<Rightarrow> 'k \<Rightarrow> ('t, 'k) downloader" where
  "NewDownloaderWithKeychain L kc = newDownloader L (DefaultTransport L) (Some kc)"

definition NewDownloaderWithRoundTripper :: "('t, 'k) http_lib \<Rightarrow> 't \<Rightarrow> ('t, 'k) downloader" where
  "NewDownloaderWithRoundTripper L rt = newDownloader L rt None"

record ('t, 'k) crane_options =
  WithAuthFromKeychain :: 'k
  WithUserAgent :: string
  WithTransport :: 't
  WithPlatform :: "string \<times> string"

definition crane_options_of :: "('t, 'k) http_lib \<Rightarrow> ('t, 'k) downloader \<Rightarrow> ('t, 'k) crane_options" where
  "crane_options_of L d =
     \<lparr>WithAuthFromKeychain = dl_keychain d, WithUserAgent = userAgent, WithTransport = roundTripper d,
      WithPlatform = (GOOS L, GOARCH L)\<rparr>"

section \<open>Paths stay below the destination\<close>

lemma path_clean_words:
  assumes "\<forall>w\<in>set ws. plain w" "ws \<noteq> []"
  shows "path_clean (join_on slash ws) = join_on slash ws"
proof -
  obtain w ws' where ws: "ws = w # ws'" using assms(2) by (cases ws) auto
  then obtain c cs where w: "w = c # cs" "c \<noteq> slash" using assms(1) by (cases w) (auto simp: plain_def)
  have "\<not> rooted (join_on slash ws)" using ws w by (cases ws') (auto simp: rooted_def)
  moreover have "words_of (join_on slash ws) = ws"
    using assms by (intro split_join) (auto simp: plain_def)
  ultimately show ?thesis
    using assms by (simp add: path_clean_def clean_words_plain render_def)
qed

text \<open>The path an entry below the source is written to is made of plain names only.\<close>

lemma dest_path_plain:
  assumes "clean_abs (ax_src ax)" "clean_abs archivePath" "below (ax_src ax) archivePath"
  obtains "dest_path ax archivePath = Inr ''.''"
  | ws where "dest_path ax archivePath = Inr (join_on slash ws)" "ws \<noteq> []" "\<forall>w\<in>set ws. plain w"
proof -
  obtain ss where ss: "ax_src ax = abs_path ss" "\<forall>w\<in>set ss. plain w"
    using assms(1) by (auto simp: clean_abs_iff)
  obtain ps where ps: "archivePath = abs_path ps" "\<forall>w\<in>set ps. plain w"
    using assms(2) by (auto simp: clean_abs_iff)
  obtain ts where ts: "ps = ss @ ts" using assms(3) ss ps by (auto simp: below_abs prefix_def)
  show ?thesis
  proof (cases "ts = []")
    case True
    have "path_rel (abs_path ss) (abs_path ss) = Inr ''.''" by (simp add: path_rel_def)
    then have "dest_path ax archivePath = Inr ''.''"
      using True ts ss ps by (simp add: dest_path_def) code_simp
    then show ?thesis using that(1) by blast
  next
    case False
    have "\<forall>w\<in>set ts. plain w" using ps ts by simp
    then have "dest_path ax archivePath = Inr (join_on slash ts)"
      using path_rel_below [OF ss(2) _ False] False ts ss ps
      by (simp add: dest_path_def path_clean_words)
    then show ?thesis using that(2) False \<open>\<forall>w\<in>set ts. plain w\<close> by blast
  qed
qed

lemma below_root: "clean_abs p \<Longrightarrow> below ''/'' p"
proof -
  assume "clean_abs p"
  then obtain ws where "p = abs_path ws" "\<forall>w\<in>set ws. plain w" by (auto simp: clean_abs_iff)
  then show ?thesis using below_abs [of "[]" ws] by (simp add: abs_path_def slash_def)
qed

lemma archive_path_clean: "clean_abs (path_clean (''/'' @ name))"
  by (rule clean_abs_path_clean) (simp add: rooted_def slash_def)

section \<open>What an extraction may change\<close>

context host_laws
begin

lemma symlink_frame:
  assumes "clean_abs root" "clean_abs q" "below base root" "below base q" "unrelated root q"
  shows "same_at H (fst s) (fst (snd (extract_symlink H root p t s))) q"
  using root_symlink_frame [OF assms]
  by (auto simp: extract_symlink_def split: prod.split option.split) (metis snd_conv)+

lemma regular_frame:
  assumes "clean_abs root" "clean_abs q" "below base root" "below base q" "unrelated root q"
  shows "same_at H (fst s) (fst (snd (extract_regular H root p f s))) q"
proof (cases "te_open f")
  case None
  obtain e h1 where h1: "root_open_file H (fst s) root p = (e, h1)" by force
  obtain r h2 where h2: "root_copy H h1 root p (te_content f) = (r, h2)" by force
  have "same_at H (fst s) h1 q" using root_open_file_frame [OF assms] h1 by (metis snd_conv)
  moreover have "same_at H h1 h2 q" using root_copy_frame [OF assms] h2 by (metis snd_conv)
  ultimately have "same_at H (fst s) h2 q" by (rule same_at_trans)
  then show ?thesis
    using None h1 h2 \<open>same_at H (fst s) h1 q\<close>
    by (auto simp: extract_regular_def split: option.split sum.split)
qed (simp add: extract_regular_def)

lemma process_frame:
  assumes "clean_abs (ax_dst ax)" "clean_abs q" "below base (ax_dst ax)" "below base q"
    "unrelated (ax_dst ax) q"
  shows "same_at H (fst s) (fst (snd (processFile H ax f s))) q"
proof -
  have "same_at H (fst s) (snd (root_mkdir H (fst s) (ax_dst ax) p)) q" for p
    by (rule root_mkdir_frame [OF assms])
  then show ?thesis
    using symlink_frame [OF assms] regular_frame [OF assms]
    by (auto simp: processFile_def Let_def split: sum.split entry_mode.split prod.split)
       (metis snd_conv)+
qed

lemma entries_frame:
  assumes "clean_abs (ax_dst ax)" "clean_abs q" "below base (ax_dst ax)" "below base q"
    "unrelated (ax_dst ax) q"
  shows "same_at H (fst s) (fst (snd (extract_entries H wrap ax fs e s))) q"
proof (induction fs arbitrary: s)
  case (Cons f fs)
  obtain x s' where s': "processFile H ax f s = (x, s')" by (rule prod.exhaust)
  then have "same_at H (fst s) (fst s') q" using process_frame [OF assms, of s f] by simp
  then show ?case
    using s' same_at_trans [OF _ Cons.IH [of s']] by (auto split: option.split)
qed simp

lemma Extract_frame:
  assumes "clean_abs (ax_dst ax)" "clean_abs q" "below base (ax_dst ax)" "below base q"
    "unrelated (ax_dst ax) q"
  shows "same_at H h (snd (Extract H wrap ax fs e h)) q"
  using entries_frame [OF assms, of "(h, 0)" wrap fs e]
  by (auto simp: Extract_def split: option.split prod.split)

lemma Download_frame:
  assumes "clean_abs dst" "clean_abs q" "below base dst" "below base q" "unrelated dst q"
  shows "same_at H h (fst (snd (Download H N wd img dst h n))) q"
proof -
  have dst: "path_abs wd (path_clean dst) = Inr dst"
    using assms(1) by (simp add: path_abs_def clean_abs_def)
  obtain e h1 where h1: "os_mkdir_all H h dst = (e, h1)" by force
  have s1: "same_at H h h1 q" using mkdir_all_frame [OF assms] h1 by (metis snd_conv)
  have "same_at H h1 (snd (Extract H w \<lparr>ax_src = p, ax_dst = dst\<rparr> fs x h1)) q" for w p fs x
    using assms by (intro Extract_frame) auto
  then have "same_at H h (snd (Extract H w \<lparr>ax_src = p, ax_dst = dst\<rparr> fs x h1)) q" for w p fs x
    by (rule same_at_trans [OF s1])
  then show ?thesis
    using s1 h1 dst
    by (auto simp: Download_def NewArchiveExtractor_def split: sum.split prod.split option.split)
       (metis snd_conv)+
qed

end

section \<open>Properties\<close>

text \<open>
  Whatever name an entry of the archive has (absolute, with \<open>..\<close> in any place, with
  empty elements), the path handed to the root of the destination is the destination itself,
  which is skipped, or a relative path made of plain names only: it never goes up.
\<close>
theorem extraction_path_plain:
  "dest_path \<lparr>ax_src = ''/'', ax_dst = dst\<rparr> (path_clean (''/'' @ name)) = Inr ''.'' \<or>
   (\<exists>ws. dest_path \<lparr>ax_src = ''/'', ax_dst = dst\<rparr> (path_clean (''/'' @ name)) = Inr (join_on slash ws) \<and>
      ws \<noteq> [] \<and> list_all plain ws)"
proof -
  have "clean_abs ''/''" by code_simp
  then show ?thesis
    using dest_path_plain [of "\<lparr>ax_src = ''/'', ax_dst = dst\<rparr>" "path_clean (''/'' @ name)"]
      archive_path_clean [of name] below_root [OF archive_path_clean [of name]]
    by (metis archive_extractor.select_convs(1) list_all_iff)
qed

text \<open>
  C31: Downloading an image writes only below the destination: every path of the storage directory
  that is neither above nor below it has the same kind and the same entries afterwards, whether
  the download succeeds or fails at any point.
\<close>
theorem download_confined:
  assumes "host_laws H base" "clean_abs dst" "below base dst" "clean_abs q" "below base q"
    and "unrelated dst q"
  shows "os_stat H (fst (snd (Download H N wd img dst h n))) q = os_stat H h q \<and>
         os_read_dir H (fst (snd (Download H N wd img dst h n))) q = os_read_dir H h q"
  using host_laws.Download_frame [OF assms(1,2,4,3,5,6)] by (simp add: same_at_def)

definition archive_demo :: mem_state where
  "archive_demo =
     \<lparr>mh_nodes = [([[], ''d''], MDir), ([[], ''d'', ''store''], MDir), ([[], ''d'', ''tmp''], MDir),
                  ([[], ''d'', ''tmp'', ''t''], MDir)],
      mh_mounts = [], mh_broken = [], mh_next = 0\<rparr>"

theorem download_confined_witness:
  "fst (Download mem_host mem_network (Inl ErrNotExist) ''img'' ''/d/tmp/t'' archive_demo
      \<lparr>mn_clock = 0, mn_digests = []\<rparr>) = Inr 3 \<and>
   os_read_dir mem_host (fst (snd (Download mem_host mem_network (Inl ErrNotExist) ''img'' ''/d/tmp/t''
      archive_demo \<lparr>mn_clock = 0, mn_digests = []\<rparr>))) ''/d/store'' = Inr []"
proof -
  have paths: "clean_abs ''/d/tmp/t''" "below mem_base ''/d/tmp/t''" "clean_abs ''/d/store''"
      "below mem_base ''/d/store''" "unrelated ''/d/tmp/t'' ''/d/store''"
    by code_simp+
  have run: "fst (Download mem_host mem_network (Inl ErrNotExist) ''img'' ''/d/tmp/t'' archive_demo
      \<lparr>mn_clock = 0, mn_digests = []\<rparr>) = Inr 3" by code_simp
  have before: "os_read_dir mem_host archive_demo ''/d/store'' = Inr []" by code_simp
  show ?thesis
    using download_confined [OF mem.host_laws_axioms paths, where N = mem_network and wd = "Inl ErrNotExist"
        and img = "''img''" and h = archive_demo and n = "\<lparr>mn_clock = 0, mn_digests = []\<rparr>"] run before
    by simp
qed

end
