(* ===== verification/Lib_Cleanup.thy ===== *)
theory Lib_Cleanup
  imports Csi_Prelude "HOL-Library.Multiset"
begin

text \<open>
  \<open>pkg/librarymanager/cleanup.go\<close>: when a library that is no longer used is cleaned up. A
  cleanup function is a value of type \<open>'f\<close>; \<open>call f l w\<close> runs it on library \<open>l\<close> in the world
  \<open>w\<close>, and its error is only logged. Timers are numbered: \<open>armed\<close> are the ones that run,
  \<open>waiting\<close> those that have expired and whose callback waits for the mutex, and \<open>running\<close> are
  the cleanups a callback has claimed and not finished yet.
\<close>

section \<open>The immediate strategy\<close>

type_synonym ('f, 'w) caller = "'f \<Rightarrow> string \<Rightarrow> 'w \<Rightarrow> unit res \<times> 'w"

definition immediate_ScheduleCleanup :: "('f, 'w) caller \<Rightarrow> 'f \<Rightarrow> string \<Rightarrow> unit \<times> 'w \<Rightarrow> unit \<times> 'w" where
  "immediate_ScheduleCleanup call f libraryID sw = ((), snd (call f libraryID (snd sw)))"

definition immediate_Stop :: "('f, 'w) caller \<Rightarrow> string list \<Rightarrow> unit \<times> 'w \<Rightarrow> unit \<times> 'w" where
  "immediate_Stop call order sw = sw"

definition NewImmediateCleanupStrategy :: unit where "NewImmediateCleanupStrategy = ()"

definition immediate_Name :: string where "immediate_Name = ''immediate''"

section \<open>The delayed strategy\<close>

record 'f pending_cleanup =
  pc_timer :: nat
  cleanupFunc :: 'f

record 'f timer =
  tm_id :: nat
  tm_library :: string
  tm_func :: 'f

record 'f delayed =
  delay :: int
  pending :: "string \<rightharpoonup> 'f pending_cleanup"
  stopped :: bool
  next_timer :: nat
  armed :: "'f timer list"
  waiting :: "'f timer list"
  running :: "'f timer list"

definition NewDelayedCleanupStrategy :: "int \<Rightarrow> 'f delayed" where
  "NewDelayedCleanupStrategy d =
     \<lparr>delay = d, pending = Map.empty, stopped = False, next_timer = 0, armed = [], waiting = [],
      running = []\<rparr>"

text \<open>\<open>Timer.Stop\<close> keeps a timer from expiring; it does nothing to one that has expired.\<close>

definition stop_timer :: "nat \<Rightarrow> 'f delayed \<Rightarrow> 'f delayed" where
  "stop_timer t s = s\<lparr>armed := filter (\<lambda>x. tm_id x \<noteq> t) (armed s)\<rparr>"

definition after_func :: "string \<Rightarrow> 'f \<Rightarrow> 'f delayed \<Rightarrow> nat \<times> 'f delayed" where
  "after_func l f s =
     (next_timer s,
      s\<lparr>armed := \<lparr>tm_id = next_timer s, tm_library = l, tm_func = f\<rparr> # armed s,
        next_timer := Suc (next_timer s)\<rparr>)"

definition delayed_ScheduleCleanup ::
  "('f, 'w) caller \<Rightarrow> 'f \<Rightarrow> string \<Rightarrow> 'f delayed \<times> 'w \<Rightarrow> 'f delayed \<times> 'w" where
  "delayed_ScheduleCleanup call f libraryID sw =
     (let (s, w) = sw in
      if stopped s then (s, snd (call f libraryID w))
      else
        let s1 = (case pending s libraryID of
                    None \<Rightarrow> s
                  | Some existing \<Rightarrow>
                      (stop_timer (pc_timer existing) s)\<lparr>pending := (pending s)(libraryID := None)\<rparr>);
            (t, s2) = after_func libraryID f s1
        in (s2\<lparr>pending := (pending s2)(libraryID \<mapsto> \<lparr>pc_timer = t, cleanupFunc = f\<rparr>)\<rparr>, w))"

definition delayed_Name :: string where "delayed_Name = ''delayed''"

text \<open>\<open>order\<close> is the order in which the loop visits the pending map.\<close>

definition delayed_Stop ::
  "('f, 'w) caller \<Rightarrow> string list \<Rightarrow> 'f delayed \<times> 'w \<Rightarrow> 'f delayed \<times> 'w" where
  "delayed_Stop call order sw =
     (let (s, w) = sw in
      if stopped s then (s, w)
      else
        (let (s1, w1) =
           fold (\<lambda>l (s1, w1).
             (case pending s l of
                None \<Rightarrow> (s1, w1)
              | Some p \<Rightarrow> (stop_timer (pc_timer p) s1, snd (call (cleanupFunc p) l w1))))
           order (s\<lparr>stopped := True\<rparr>, w)
         in (s1\<lparr>pending := Map.empty\<rparr>, w1)))"

subsection \<open>The life of a timer\<close>

text \<open>
  A timer expires; its callback takes the mutex and gives up if the library is no longer pending,
  else it claims the cleanup and releases the mutex; the claimed cleanup then runs.
\<close>

definition timer_expire :: "nat \<Rightarrow> 'f delayed \<Rightarrow> 'f delayed" where
  "timer_expire t s =
     s\<lparr>armed := filter (\<lambda>x. tm_id x \<noteq> t) (armed s),
       waiting := filter (\<lambda>x. tm_id x = t) (armed s) @ waiting s\<rparr>"

definition callback_claim :: "'f timer \<Rightarrow> 'f delayed \<Rightarrow> 'f delayed" where
  "callback_claim x s =
     (if x \<notin> set (waiting s) then s
      else
        let s1 = s\<lparr>waiting := remove1 x (waiting s)\<rparr> in
        case pending s (tm_library x) of
          None \<Rightarrow> s1
        | Some _ \<Rightarrow> s1\<lparr>pending := (pending s)(tm_library x := None), running := x # running s\<rparr>)"

definition callback_run :: "('f, 'w) caller \<Rightarrow> 'f timer \<Rightarrow> 'f delayed \<times> 'w \<Rightarrow> 'f delayed \<times> 'w" where
  "callback_run call x sw =
     (let (s, w) = sw in
      if x \<notin> set (running s) then (s, w)
      else (s\<lparr>running := remove1 x (running s)\<rparr>, snd (call (tm_func x) (tm_library x) w)))"

section \<open>The contract\<close>

text \<open>
  What the library manager relies on. \<open>owes s l\<close> says that the strategy still has to clean up
  \<open>l\<close>: scheduling either runs the cleanup at once or owes it, \<open>Stop\<close> runs the cleanups it
  owes, in some order, and owes none afterwards; and neither touches the world in another way.
\<close>

locale cleanup_strategy =
  fixes ok :: "'s \<Rightarrow> bool"
    and owes :: "'s \<Rightarrow> string \<Rightarrow> bool"
    and schedule :: "('f, 'w) caller \<Rightarrow> 'f \<Rightarrow> string \<Rightarrow> 's \<times> 'w \<Rightarrow> 's \<times> 'w"
    and stop :: "('f, 'w) caller \<Rightarrow> string list \<Rightarrow> 's \<times> 'w \<Rightarrow> 's \<times> 'w"
  assumes schedule_runs:
      "ok s \<Longrightarrow> schedule call f l (s, w) = (s', w') \<Longrightarrow>
       ok s' \<and> (w' = snd (call f l w) \<and> s' = s \<or> w' = w \<and> owes s' l)"
    and schedule_keeps: "ok s \<Longrightarrow> owes s k \<Longrightarrow> owes (fst (schedule call f l (s, w))) k"
    and stop_runs:
      "ok s \<Longrightarrow> distinct order \<Longrightarrow> set order = {l. owes s l} \<Longrightarrow> stop call order (s, w) = (s', w') \<Longrightarrow>
       ok s' \<and> (\<forall>l. \<not> owes s' l) \<and>
       (\<exists>g. w' = fold (\<lambda>l w. snd (call (g l) l w)) order w)"
begin

text \<open>What the cleanups of the scheduled libraries keep is kept by the strategy.\<close>

lemma schedule_invariant:
  assumes "ok s" "P w" "P (snd (call f l w))"
  shows "P (snd (schedule call f l (s, w))) \<and> ok (fst (schedule call f l (s, w)))"
proof -
  obtain s' w' where "schedule call f l (s, w) = (s', w')" by force
  then show ?thesis using schedule_runs [OF assms(1), of call f l w s' w'] assms(2,3) by auto
qed

lemma fold_invariant:
  assumes "P w" "\<And>l w. l \<in> set ls \<Longrightarrow> P w \<Longrightarrow> P (h l w)"
  shows "P (fold h ls w)"
  using assms
proof (induction ls arbitrary: w)
  case Nil
  then show ?case unfolding fold_Nil id_apply by blast
next
  case (Cons x xs)
  have "P (h x w)" by (rule Cons.prems(2) [OF _ Cons.prems(1)]) (rule list.set_intros(1))
  then have "P (fold h xs (h x w))"
    by (rule Cons.IH) (rule Cons.prems(2), rule list.set_intros(2))
  then show ?case unfolding fold_Cons comp_apply .
qed

lemma stop_invariant:
  assumes "ok s" "distinct order" "set order = {l. owes s l}" "P w"
    and "\<And>f l w. owes s l \<Longrightarrow> P w \<Longrightarrow> P (snd (call f l w))"
  shows "P (snd (stop call order (s, w)))"
proof -
  obtain s' w' where r: "stop call order (s, w) = (s', w')" by force
  then obtain g where "w' = fold (\<lambda>l w. snd (call (g l) l w)) order w"
    using stop_runs [OF assms(1-3)] by blast
  moreover have "P (fold (\<lambda>l w. snd (call (g l) l w)) order w)"
  proof (rule fold_invariant [where P = P, OF assms(4)])
    fix l w
    assume "l \<in> set order" "P w"
    then show "P (snd (call (g l) l w))" using assms(3) by (intro assms(5)) simp_all
  qed
  ultimately show ?thesis using r by simp
qed

end

interpretation immediate: cleanup_strategy "\<lambda>_. True" "\<lambda>_ _. False" immediate_ScheduleCleanup immediate_Stop
  by unfold_locales (auto simp: immediate_ScheduleCleanup_def immediate_Stop_def)

section \<open>The delayed strategy meets the contract\<close>

text \<open>Every pending cleanup has a timer that runs or whose callback is about to look at it.\<close>

definition timer_of :: "string \<Rightarrow> 'f pending_cleanup \<Rightarrow> 'f timer" where
  "timer_of l p = \<lparr>tm_id = pc_timer p, tm_library = l, tm_func = cleanupFunc p\<rparr>"

definition delayed_ok :: "'f delayed \<Rightarrow> bool" where
  "delayed_ok s \<longleftrightarrow>
     (stopped s \<longrightarrow> pending s = Map.empty) \<and>
     (\<forall>l p. pending s l = Some p \<longrightarrow> timer_of l p \<in> set (armed s @ waiting s)) \<and>
     (\<forall>x\<in>set (armed s @ waiting s). tm_id x < next_timer s) \<and>
     distinct (map tm_id (armed s @ waiting s))"

definition delayed_owes :: "'f delayed \<Rightarrow> string \<Rightarrow> bool" where
  "delayed_owes s l \<longleftrightarrow> pending s l \<noteq> None"

lemma delayed_ok_new: "delayed_ok (NewDelayedCleanupStrategy d)"
  by (simp add: delayed_ok_def NewDelayedCleanupStrategy_def)

lemma same_timer:
  "delayed_ok s \<Longrightarrow> x \<in> set (armed s @ waiting s) \<Longrightarrow> y \<in> set (armed s @ waiting s) \<Longrightarrow>
   tm_id x = tm_id y \<Longrightarrow> x = y"
  unfolding delayed_ok_def by (meson distinct_map inj_onD)

text \<open>Dropping timers of libraries that are not pending any more is harmless.\<close>

lemma delayed_ok_drop:
  assumes "delayed_ok s" "\<And>k. pending s' k = (if k = l then None else pending s k)"
    and "armed s' = filter (\<lambda>x. tm_id x \<noteq> t) (armed s)" "waiting s' = waiting s"
    and "next_timer s' = next_timer s" "stopped s' = stopped s"
    and "\<forall>p. pending s l = Some p \<longrightarrow> pc_timer p = t"
    and "pending s l \<noteq> None"
  shows "delayed_ok s'"
proof -
  obtain p where p: "pending s l = Some p" "pc_timer p = t" using assms(7,8) by auto
  have other: "timer_of k q \<in> set (armed s' @ waiting s')" if "pending s k = Some q" "k \<noteq> l" for k q
  proof -
    have "timer_of k q \<in> set (armed s @ waiting s)" "timer_of l p \<in> set (armed s @ waiting s)"
      using assms(1) that p by (simp_all add: delayed_ok_def)
    then have "tm_id (timer_of k q) \<noteq> tm_id (timer_of l p)"
      using same_timer [OF assms(1)] that(2) by (metis timer.select_convs(2) timer_of_def)
    then show ?thesis
      using \<open>timer_of k q \<in> set (armed s @ waiting s)\<close> assms(3,4) p by (auto simp: timer_of_def)
  qed
  have dist: "distinct (map tm_id (armed s' @ waiting s'))"
    using assms(1,3,4) by (auto simp: delayed_ok_def distinct_map intro: inj_on_subset)
  have stop: "stopped s' \<longrightarrow> pending s' = Map.empty"
    using assms(1,2,6) by (simp add: delayed_ok_def fun_eq_iff)
  have ids: "\<forall>x\<in>set (armed s' @ waiting s'). tm_id x < next_timer s'"
    using assms(1,3,4,5) by (auto simp: delayed_ok_def)
  have "\<forall>k q. pending s' k = Some q \<longrightarrow> timer_of k q \<in> set (armed s' @ waiting s')"
    using other assms(2) by simp
  then show ?thesis unfolding delayed_ok_def using dist stop ids by blast
qed

lemma delayed_ok_arm:
  assumes "delayed_ok s" "\<not> stopped s" "after_func l f s = (t, s2)"
  shows "delayed_ok (s2\<lparr>pending := (pending s2)(l \<mapsto> \<lparr>pc_timer = t, cleanupFunc = f\<rparr>)\<rparr>)"
proof -
  have t: "t = next_timer s" "s2 = s\<lparr>armed := \<lparr>tm_id = t, tm_library = l, tm_func = f\<rparr> # armed s,
      next_timer := Suc t\<rparr>"
    using assms(3) by (auto simp: after_func_def)
  have old: "\<forall>x\<in>set (armed s @ waiting s). tm_id x < t" "distinct (map tm_id (armed s @ waiting s))"
    using assms(1) t(1) by (simp_all add: delayed_ok_def)
  then have "t \<notin> tm_id ` set (armed s @ waiting s)" by auto
  then have dist: "distinct (map tm_id (armed s2 @ waiting s2))" using old t(2) by auto
  have ids: "\<forall>x\<in>set (armed s2 @ waiting s2). tm_id x < next_timer s2"
    using old(1) t(2) by (auto simp: less_Suc_eq)
  have "\<forall>k p. pending s k = Some p \<longrightarrow> timer_of k p \<in> set (armed s @ waiting s)"
    using assms(1) by (simp add: delayed_ok_def)
  then show ?thesis
    using dist ids assms(2) t(2) by (simp add: delayed_ok_def timer_of_def)
qed

lemma schedule_ok:
  assumes "delayed_ok s"
  shows "delayed_ok (fst (delayed_ScheduleCleanup call f l (s, w)))"
proof (cases "stopped s")
  case False
  define s1 where "s1 = (case pending s l of None \<Rightarrow> s
      | Some existing \<Rightarrow> (stop_timer (pc_timer existing) s)\<lparr>pending := (pending s)(l := None)\<rparr>)"
  have "delayed_ok s1 \<and> \<not> stopped s1"
  proof (cases "pending s l")
    case (Some p)
    then have "delayed_ok s1"
      by (intro delayed_ok_drop [OF assms, of s1 l "pc_timer p"])
         (auto simp: s1_def stop_timer_def)
    then show ?thesis using Some False by (simp add: s1_def stop_timer_def)
  qed (simp add: s1_def assms False)
  then show ?thesis
    using delayed_ok_arm [of s1 l f] False
    by (simp add: delayed_ScheduleCleanup_def Let_def s1_def [symmetric] split: prod.split)
qed (simp add: delayed_ScheduleCleanup_def assms)

lemma schedule_owes:
  "\<not> stopped s \<Longrightarrow> delayed_ScheduleCleanup call f l (s, w) = (s', w') \<Longrightarrow>
   w' = w \<and> delayed_owes s' l \<and> running s' = running s"
  by (auto simp: delayed_ScheduleCleanup_def Let_def delayed_owes_def after_func_def stop_timer_def
           split: option.splits)

lemma schedule_keeps_owed:
  "delayed_owes s k \<Longrightarrow> delayed_owes (fst (delayed_ScheduleCleanup call f l (s, w))) k"
  by (auto simp: delayed_ScheduleCleanup_def Let_def delayed_owes_def after_func_def stop_timer_def
           split: option.splits)

text \<open>The loop of \<open>Stop\<close>, seen from the timers and from the world.\<close>

lemma stop_loop:
  "fold (\<lambda>l (s1, w1). case pending s l of None \<Rightarrow> (s1, w1)
           | Some p \<Rightarrow> (stop_timer (pc_timer p) s1, snd (call (cleanupFunc p) l w1))) order (s1, w1) =
   (s1\<lparr>armed := filter (\<lambda>x. \<forall>l\<in>set order. \<forall>p. pending s l = Some p \<longrightarrow> tm_id x \<noteq> pc_timer p) (armed s1)\<rparr>,
    fold (\<lambda>l w. case pending s l of None \<Rightarrow> w | Some p \<Rightarrow> snd (call (cleanupFunc p) l w)) order w1)"
proof (induction order arbitrary: s1 w1)
  case (Cons l ls)
  then show ?case
    by (cases "pending s l") (auto simp: stop_timer_def intro!: filter_cong)
qed simp

lemma stop_world:
  "set order \<subseteq> dom (pending s) \<Longrightarrow>
   fold (\<lambda>l w. case pending s l of None \<Rightarrow> w | Some p \<Rightarrow> snd (call (cleanupFunc p) l w)) order w =
   fold (\<lambda>l w. snd (call (cleanupFunc (the (pending s l))) l w)) order w"
  by (rule fold_cong) auto

lemma Stop_unfold:
  assumes "\<not> stopped s" "delayed_Stop call order (s, w) = (s', w')"
  shows "pending s' = Map.empty \<and> stopped s' \<and> waiting s' = waiting s \<and> running s' = running s \<and>
    next_timer s' = next_timer s \<and>
    armed s' = filter (\<lambda>x. \<forall>l\<in>set order. \<forall>p. pending s l = Some p \<longrightarrow> tm_id x \<noteq> pc_timer p) (armed s) \<and>
    w' = fold (\<lambda>l w. case pending s l of None \<Rightarrow> w | Some p \<Rightarrow> snd (call (cleanupFunc p) l w)) order w"
  using assms by (auto simp: delayed_Stop_def stop_loop)

lemma stop_ok:
  assumes "delayed_ok s"
  shows "delayed_ok (fst (delayed_Stop call order (s, w)))"
proof (cases "stopped s")
  case False
  obtain s' w' where r: "delayed_Stop call order (s, w) = (s', w')" by force
  have "distinct (map tm_id (armed s' @ waiting s'))"
    using assms Stop_unfold [OF False r]
    by (auto simp: delayed_ok_def distinct_map intro: inj_on_subset)
  then show ?thesis
    using assms Stop_unfold [OF False r] r by (auto simp: delayed_ok_def)
qed (simp add: delayed_Stop_def assms)

interpretation delayed: cleanup_strategy delayed_ok delayed_owes delayed_ScheduleCleanup delayed_Stop
proof (unfold_locales, goal_cases)
  case (1 s call f l w s' w')
  have "delayed_ok s'" using schedule_ok [OF 1(1), of call f l w] 1(2) by simp
  then show ?case
    using schedule_owes [OF _ 1(2)] 1(2)
    by (cases "stopped s") (auto simp: delayed_ScheduleCleanup_def)
next
  case (2 s k call f l w)
  then show ?case by (intro schedule_keeps_owed)
next
  case (3 s order call w s' w')
  have ok: "delayed_ok s'" using stop_ok [OF 3(1), of call order w] 3(4) by simp
  show ?case
  proof (cases "stopped s")
    case True
    then have "order = []" using 3(1,3) by (simp add: delayed_ok_def delayed_owes_def)
    then show ?thesis using True 3 ok by (simp add: delayed_Stop_def delayed_ok_def delayed_owes_def)
  next
    case False
    have "set order \<subseteq> dom (pending s)" using 3(3) by (auto simp: delayed_owes_def)
    then have "w' = fold (\<lambda>l w. snd (call (cleanupFunc (the (pending s l))) l w)) order w"
      using Stop_unfold [OF False 3(4)] by (simp add: stop_world)
    then show ?thesis
      using ok Stop_unfold [OF False 3(4)]
      by (auto simp: delayed_owes_def intro!: exI [of _ "\<lambda>l. cleanupFunc (the (pending s l))"])
  qed
qed

section \<open>Steps\<close>

text \<open>
  What can happen to a delayed strategy, in any order: calls of its operations, timers that
  expire, callbacks that claim a cleanup, and claimed cleanups that run.
\<close>

inductive delayed_step :: "('f, 'w) caller \<Rightarrow> 'f delayed \<times> 'w \<Rightarrow> 'f delayed \<times> 'w \<Rightarrow> bool"
  for call :: "('f, 'w) caller" where
  do_schedule: "delayed_step call sw (delayed_ScheduleCleanup call f l sw)"
| do_expire: "delayed_step call (s, w) (timer_expire t s, w)"
| do_claim: "delayed_step call (s, w) (callback_claim x s, w)"
| do_run: "delayed_step call sw (callback_run call x sw)"
| do_stop: "distinct order \<Longrightarrow> set order = dom (pending s) \<Longrightarrow>
    delayed_step call (s, w) (delayed_Stop call order (s, w))"

text \<open>Moving and dropping timers keeps the invariant as long as no pending one is dropped.\<close>

lemma delayed_ok_subset:
  assumes "delayed_ok s" "stopped s' = stopped s" "pending s' \<subseteq>\<^sub>m pending s" "next_timer s' = next_timer s"
    and "distinct (map tm_id (armed s' @ waiting s'))"
    and "set (armed s' @ waiting s') \<subseteq> set (armed s @ waiting s)"
    and "\<And>l p. pending s' l = Some p \<Longrightarrow> timer_of l p \<in> set (armed s @ waiting s) \<Longrightarrow>
      timer_of l p \<in> set (armed s' @ waiting s')"
  shows "delayed_ok s'"
proof -
  have sub: "pending s' l = Some p \<Longrightarrow> pending s l = Some p" for l p
    using assms(3) by (metis domI map_le_def)
  have "stopped s' \<longrightarrow> pending s' = Map.empty"
    using assms(1,2,3) by (auto simp: delayed_ok_def map_le_def fun_eq_iff dom_def)
  moreover have "\<forall>l p. pending s' l = Some p \<longrightarrow> timer_of l p \<in> set (armed s' @ waiting s')"
    using assms(1,7) sub unfolding delayed_ok_def by blast
  moreover have "\<forall>x\<in>set (armed s' @ waiting s'). tm_id x < next_timer s'"
    using assms(1,4,6) unfolding delayed_ok_def by auto
  ultimately show ?thesis using assms(5) unfolding delayed_ok_def by blast
qed

lemma expire_step: "delayed_step call c (timer_expire t (fst c), snd c)"
  by (cases c) (simp add: do_expire)

lemma claim_step: "delayed_step call c (callback_claim x (fst c), snd c)"
  by (cases c) (simp add: do_claim)

lemma expire_ok: "delayed_ok s \<Longrightarrow> delayed_ok (timer_expire t s)"
proof (rule delayed_ok_subset [of s])
  assume ok: "delayed_ok s"
  have "mset (armed (timer_expire t s) @ waiting (timer_expire t s)) = mset (armed s @ waiting s)"
    using multiset_partition [of "mset (armed s)" "\<lambda>x. tm_id x \<noteq> t"] by (simp add: timer_expire_def)
  then have "mset (map tm_id (armed (timer_expire t s) @ waiting (timer_expire t s))) =
      mset (map tm_id (armed s @ waiting s))"
    by (metis mset_map)
  then show "distinct (map tm_id (armed (timer_expire t s) @ waiting (timer_expire t s)))"
    using ok mset_eq_imp_distinct_iff unfolding delayed_ok_def by blast
qed (auto simp: timer_expire_def)

lemma claim_ok:
  assumes "delayed_ok s"
  shows "delayed_ok (callback_claim x s)"
proof (cases "x \<in> set (waiting s)")
  case True
  have dist: "distinct (map tm_id (armed s @ waiting s))" using assms by (simp add: delayed_ok_def)
  have "distinct (map tm_id (armed s @ remove1 x (waiting s)))"
    using dist by (auto simp: distinct_map inj_on_def dest: notin_set_remove1)
  moreover have "timer_of l p \<noteq> x" if "tm_library x \<noteq> l" for l p
    using that by (auto simp: timer_of_def)
  ultimately show ?thesis
  proof (cases "pending s (tm_library x)")
    case None
    have other: "timer_of l p \<noteq> x" if "pending s l = Some p" for l p
      using None that by (auto simp: timer_of_def)
    show ?thesis
      using True None other \<open>distinct (map tm_id (armed s @ remove1 x (waiting s)))\<close>
      by (intro delayed_ok_subset [OF assms])
         (auto simp: callback_claim_def dest: notin_set_remove1)
  next
    case (Some p)
    show ?thesis
      using True Some \<open>distinct (map tm_id (armed s @ remove1 x (waiting s)))\<close>
        \<open>\<And>l p. tm_library x \<noteq> l \<Longrightarrow> timer_of l p \<noteq> x\<close>
      by (intro delayed_ok_subset [OF assms])
         (auto simp: callback_claim_def map_le_def dest: notin_set_remove1 split: if_splits)
  qed
qed (simp add: callback_claim_def assms)

lemma run_ok: "delayed_ok s \<Longrightarrow> delayed_ok (fst (callback_run call x (s, w)))"
  by (simp add: callback_run_def delayed_ok_def)

lemma step_ok: "delayed_step call c c' \<Longrightarrow> delayed_ok (fst c) \<Longrightarrow> delayed_ok (fst c')"
proof (induction rule: delayed_step.induct)
  case (do_schedule sw f l)
  then show ?case using schedule_ok [of "fst sw" call f l "snd sw"] by simp
next
  case (do_run sw x)
  then show ?case using run_ok [of "fst sw" call x "snd sw"] by simp
qed (simp_all add: expire_ok claim_ok stop_ok)

lemma steps_ok: "(delayed_step call)\<^sup>*\<^sup>* c c' \<Longrightarrow> delayed_ok (fst c) \<Longrightarrow> delayed_ok (fst c')"
  by (induction rule: rtranclp_induct) (auto dest: step_ok)

section \<open>No cleanup is forgotten\<close>

text \<open>A cleanup function that records its calls.\<close>

definition record_call :: "('f, string list) caller" where
  "record_call f l w = (Inr (), w @ [l])"

definition accounted :: "string \<Rightarrow> string list \<Rightarrow> 'f delayed \<times> string list \<Rightarrow> bool" where
  "accounted l w0 sw \<longleftrightarrow>
     (\<exists>new. snd sw = w0 @ new \<and>
       (l \<in> set new \<or> delayed_owes (fst sw) l \<or> l \<in> tm_library ` set (running (fst sw))))"

lemma record_fold:
  "fold (\<lambda>l w. case pending s l of None \<Rightarrow> w | Some p \<Rightarrow> snd (record_call (cleanupFunc p) l w)) order w =
   w @ filter (\<lambda>l. pending s l \<noteq> None) order"
  by (induction order arbitrary: w) (auto simp: record_call_def split: option.split)

lemma accounted_schedule:
  assumes "accounted l w0 (s, w)"
  shows "accounted l w0 (delayed_ScheduleCleanup record_call f k (s, w))"
proof (cases "stopped s")
  case False
  obtain s' w' where r: "delayed_ScheduleCleanup record_call f k (s, w) = (s', w')" by force
  then show ?thesis
    using assms schedule_owes [OF False r] schedule_keeps_owed [of s l record_call f k w]
    by (auto simp: accounted_def)
qed (use assms in \<open>auto simp: accounted_def delayed_ScheduleCleanup_def record_call_def\<close>)

lemma accounted_claim:
  assumes "accounted l w0 (s, w)"
  shows "accounted l w0 (callback_claim x s, w)"
proof (cases "x \<in> set (waiting s)")
  case True
  then show ?thesis
    using assms
    by (cases "pending s (tm_library x)")
       (auto simp: accounted_def callback_claim_def delayed_owes_def)
qed (use assms in \<open>simp add: callback_claim_def\<close>)

lemma accounted_run:
  assumes "accounted l w0 (s, w)"
  shows "accounted l w0 (callback_run record_call x (s, w))"
proof (cases "x \<in> set (running s)")
  case True
  have "y \<in> set (remove1 x (running s)) \<or> tm_library y = tm_library x" if "y \<in> set (running s)" for y
    using that by (cases "y = x") auto
  then show ?thesis
    using assms True
    by (auto simp: accounted_def callback_run_def delayed_owes_def record_call_def) (metis imageI)
qed (use assms in \<open>simp add: callback_run_def\<close>)

lemma accounted_stop:
  assumes "accounted l w0 (s, w)" "set order = dom (pending s)"
  shows "accounted l w0 (delayed_Stop record_call order (s, w))"
proof (cases "stopped s")
  case False
  obtain s' w' where r: "delayed_Stop record_call order (s, w) = (s', w')" by force
  have "filter (\<lambda>l. pending s l \<noteq> None) order = order"
    using assms(2) by (auto intro: filter_True)
  then have "w' = w @ order" "running s' = running s"
    using Stop_unfold [OF False r] by (simp_all add: record_fold)
  then show ?thesis
    using assms r by (auto simp: accounted_def delayed_owes_def)
qed (use assms in \<open>simp add: delayed_Stop_def\<close>)

lemma accounted_step:
  "delayed_step record_call c c' \<Longrightarrow> accounted l w0 c \<Longrightarrow> accounted l w0 c'"
proof (induction rule: delayed_step.induct)
  case (do_schedule sw f k)
  then show ?case using accounted_schedule [of l w0 "fst sw" "snd sw"] by simp
next
  case (do_expire s w t)
  then show ?case by (simp add: accounted_def timer_expire_def delayed_owes_def)
next
  case (do_run sw x)
  then show ?case using accounted_run [of l w0 "fst sw" "snd sw"] by simp
qed (simp_all add: accounted_claim accounted_stop)

lemma accounted_steps:
  "(delayed_step record_call)\<^sup>*\<^sup>* c c' \<Longrightarrow> accounted l w0 c \<Longrightarrow> accounted l w0 c'"
  by (induction rule: rtranclp_induct) (auto dest: accounted_step)

lemma accounted_scheduled:
  "accounted l w (delayed_ScheduleCleanup record_call f l (s, w))"
proof (cases "stopped s")
  case False
  obtain s' w' where r: "delayed_ScheduleCleanup record_call f l (s, w) = (s', w')" by force
  then show ?thesis using schedule_owes [OF False r] by (simp add: accounted_def)
qed (simp add: accounted_def delayed_ScheduleCleanup_def record_call_def)

section \<open>Properties\<close>

text \<open>
  C24: A scheduled cleanup is never forgotten: in whatever order schedules, timer expiries,
  callbacks and \<open>Stop\<close> follow, at every later moment the library was cleaned up since it was
  scheduled, or a claimed cleanup for it is about to run, or it is still pending and then a timer
  for it is running or its callback is about to look at it.
\<close>
theorem scheduled_never_forgotten:
  assumes "(delayed_step record_call)\<^sup>*\<^sup>* (NewDelayedCleanupStrategy d, []) (s, w)"
    and "(delayed_step record_call)\<^sup>*\<^sup>* (delayed_ScheduleCleanup record_call f l (s, w)) (s', w')"
  shows "\<exists>new. w' = w @ new \<and>
    (l \<in> set new \<or> l \<in> tm_library ` set (running s') \<or>
     (\<exists>p. pending s' l = Some p \<and> timer_of l p \<in> set (armed s' @ waiting s')))"
proof -
  have "delayed_ok s" using steps_ok [OF assms(1)] by (simp add: delayed_ok_new)
  then have "delayed_ok (fst (delayed_ScheduleCleanup record_call f l (s, w)))" by (rule schedule_ok)
  then have "delayed_ok s'" using steps_ok [OF assms(2)] by simp
  moreover have "accounted l w (s', w')"
    using accounted_steps [OF assms(2) accounted_scheduled] .
  ultimately show ?thesis
    by (fastforce simp: accounted_def delayed_owes_def delayed_ok_def)
qed

theorem scheduled_never_forgotten_witness:
  "\<exists>s' new. delayed_ScheduleCleanup record_call () ''aa'' (NewDelayedCleanupStrategy 5, []) = (s', new) \<and>
    (''aa'' \<in> set new \<or> ''aa'' \<in> tm_library ` set (running s') \<or>
     (\<exists>p. pending s' ''aa'' = Some p \<and> timer_of ''aa'' p \<in> set (armed s' @ waiting s')))"
proof -
  obtain s' new where r: "delayed_ScheduleCleanup record_call () ''aa'' (NewDelayedCleanupStrategy 5, []) = (s', new)"
    by force
  show ?thesis
    using scheduled_never_forgotten [of 5 "NewDelayedCleanupStrategy 5" "[]" "()" "''aa''" s' new] r
    by auto
qed

text \<open>
  \<open>Stop\<close> drains the strategy: every pending cleanup is executed exactly once, nothing is
  pending afterwards, a callback that still waits gives up, a second \<open>Stop\<close> does nothing, and a
  cleanup scheduled from then on is executed at once.
\<close>
theorem delayed_stop_drains:
  assumes "\<not> stopped s" "distinct order" "set order = dom (pending s)"
    and "delayed_Stop record_call order (s, w) = (s', w')"
  shows "w' = w @ order \<and> pending s' = Map.empty \<and>
    running (callback_claim x s') = running s' \<and>
    delayed_Stop record_call order' (s', w') = (s', w') \<and>
    delayed_ScheduleCleanup record_call f l (s', w') = (s', w' @ [l])"
proof -
  have "filter (\<lambda>l. pending s l \<noteq> None) order = order"
    using assms(3) by (auto intro: filter_True)
  then have "w' = w @ order" "pending s' = Map.empty" "stopped s'"
    using Stop_unfold [OF assms(1,4)] by (simp_all add: record_fold)
  then show ?thesis
    by (simp add: callback_claim_def delayed_Stop_def delayed_ScheduleCleanup_def record_call_def)
qed

text \<open>Two libraries pending, both with a running timer.\<close>

definition two_pending :: "unit delayed" where
  "two_pending = fst (delayed_ScheduleCleanup record_call () ''bb''
     (delayed_ScheduleCleanup record_call () ''aa'' (NewDelayedCleanupStrategy 5, [])))"

theorem delayed_stop_drains_witness:
  "snd (delayed_Stop record_call [''bb'', ''aa''] (two_pending, [])) = [''bb'', ''aa'']"
proof -
  obtain s' w' where r: "delayed_Stop record_call [''bb'', ''aa''] (two_pending, []) = (s', w')"
    by force
  have "\<not> stopped two_pending" "set [''bb'', ''aa''] = dom (pending two_pending)"
    by (auto simp: two_pending_def delayed_ScheduleCleanup_def NewDelayedCleanupStrategy_def
        after_func_def split: if_splits)
  then show ?thesis using delayed_stop_drains [OF _ _ _ r] r by simp
qed

text \<open>
  A delay can be cut short: when a library is scheduled again while the callback of its
  earlier timer waits for the mutex, that callback claims the new request, so the cleanup runs
  although the new timer has not expired.
\<close>
theorem stale_timer_runs_early:
  "\<exists>s w x. (delayed_step (record_call :: (unit, string list) caller))\<^sup>*\<^sup>* (NewDelayedCleanupStrategy d, []) (s, w) \<and>
     w = [l] \<and> armed s = [x] \<and> tm_library x = l \<and> tm_id x = 1 \<and> pending s l = None"
proof -
  define call where "call = (record_call :: (unit, string list) caller)"
  define x where "x = \<lparr>tm_id = 0, tm_library = l, tm_func = ()\<rparr>"
  define c0 where "c0 = (NewDelayedCleanupStrategy d :: unit delayed, [] :: string list)"
  define c1 where "c1 = delayed_ScheduleCleanup call () l c0"
  define c2 where "c2 = (timer_expire 0 (fst c1), snd c1)"
  define c3 where "c3 = delayed_ScheduleCleanup call () l c2"
  define c4 where "c4 = (callback_claim x (fst c3), snd c3)"
  define c5 where "c5 = callback_run call x c4"
  have "delayed_step call c0 c1" unfolding c1_def by (rule do_schedule)
  moreover have "delayed_step call c1 c2" unfolding c2_def by (rule expire_step)
  moreover have "delayed_step call c2 c3" unfolding c3_def by (rule do_schedule)
  moreover have "delayed_step call c3 c4" unfolding c4_def by (rule claim_step)
  moreover have "delayed_step call c4 c5" unfolding c5_def by (rule do_run)
  ultimately have steps: "(delayed_step call)\<^sup>*\<^sup>* c0 c5"
    by (meson converse_rtranclp_into_rtranclp rtranclp.rtrancl_refl)
  have "c1 = (\<lparr>delay = d, pending = [l \<mapsto> \<lparr>pc_timer = 0, cleanupFunc = ()\<rparr>], stopped = False,
      next_timer = 1, armed = [x], waiting = [], running = []\<rparr>, [])"
    by (simp add: c1_def c0_def x_def delayed_ScheduleCleanup_def NewDelayedCleanupStrategy_def after_func_def)
  then have "c2 = (\<lparr>delay = d, pending = [l \<mapsto> \<lparr>pc_timer = 0, cleanupFunc = ()\<rparr>], stopped = False,
      next_timer = 1, armed = [], waiting = [x], running = []\<rparr>, [])"
    by (simp add: c2_def timer_expire_def x_def)
  then have "c3 = (\<lparr>delay = d, pending = [l \<mapsto> \<lparr>pc_timer = 1, cleanupFunc = ()\<rparr>], stopped = False,
      next_timer = 2, armed = [\<lparr>tm_id = 1, tm_library = l, tm_func = ()\<rparr>], waiting = [x], running = []\<rparr>, [])"
    by (simp add: c3_def delayed_ScheduleCleanup_def after_func_def stop_timer_def)
  then have "c4 = (\<lparr>delay = d, pending = Map.empty, stopped = False,
      next_timer = 2, armed = [\<lparr>tm_id = 1, tm_library = l, tm_func = ()\<rparr>], waiting = [], running = [x]\<rparr>, [])"
    by (simp add: c4_def callback_claim_def x_def)
  then have "snd c5 = [l] \<and> pending (fst c5) l = None \<and>
      armed (fst c5) = [\<lparr>tm_id = 1, tm_library = l, tm_func = ()\<rparr>]"
    by (simp add: c5_def callback_run_def call_def record_call_def x_def)
  moreover obtain s w where "c5 = (s, w)" by force
  ultimately show ?thesis
    using steps unfolding c0_def call_def by (intro exI [of _ s]) auto
qed

end
