(* ===== verification/Lib_Manager.thy ===== *)
theory Lib_Manager
  imports Lib_Store Lib_Snapshot Lib_Migration Lib_Archive Lib_Cleanup
begin

text \<open>
  \<open>pkg/librarymanager/librarymanager.go\<close>: resolving, downloading, linking and cleaning up the
  libraries of volumes. This theory holds the operations; what they keep is in
  \<open>Lib_Manager_Safety\<close>.
\<close>

section \<open>The state\<close>

text \<open>
  The dependencies of a \<open>LibraryManager\<close>, fixed at construction: the operations of the file
  system, the database, the codec and the network, the directories and the cleanup strategy's
  name. The world is what they work on; its log records locks and listener calls in order.
\<close>

record ('h, 'r, 'd, 'n) library_manager =
  lm_fs :: "'h host"
  lm_db :: "('r, 'd) bolt"
  lm_json :: "'r json"
  lm_net :: "'n net"
  lm_getwd :: "string res"
  lm_store :: string
  lm_scratchDir :: string
  lm_ttl :: int
  lm_strategy :: string

datatype act = LockAct string | UnlockAct string | Emit event

record ('h, 'd, 'n) world =
  w_host :: 'h
  w_db :: 'd
  w_net :: 'n
  w_cache :: image_cache
  w_log :: "act list"

definition note_act :: "act \<Rightarrow> ('h, 'd, 'n) world \<Rightarrow> ('h, 'd, 'n) world" where
  "note_act x w = w\<lparr>w_log := w_log w @ [x]\<rparr>"

text \<open>\<open>locker.Lock(k)\<close> followed by \<open>defer locker.Unlock(k)\<close> around the rest of the function.\<close>

definition with_lock ::
  "string \<Rightarrow> (('h, 'd, 'n) world \<Rightarrow> 'a \<times> ('h, 'd, 'n) world) \<Rightarrow>
   ('h, 'd, 'n) world \<Rightarrow> 'a \<times> ('h, 'd, 'n) world" where
  "with_lock k f w =
     (case f (note_act (LockAct k) w) of (r, w') \<Rightarrow> (r, note_act (UnlockAct k) w'))"

definition clock :: "('h, 'r, 'd, 'n) library_manager \<Rightarrow> ('h, 'd, 'n) world \<Rightarrow> int \<times> ('h, 'd, 'n) world" where
  "clock M w = (case time_now (lm_net M) (w_net w) of (t, n) \<Rightarrow> (t, w\<lparr>w_net := n\<rparr>))"

section \<open>Helpers of the manager\<close>

definition packageStats ::
  "('h, 'r, 'd, 'n) library_manager \<Rightarrow> string \<Rightarrow> ('h, 'd, 'n) world \<Rightarrow> int \<times> int \<times> int" where
  "packageStats M library w =
     (case Snapshot (lm_json M) (lm_db M) (w_db w) of
        Inl e \<Rightarrow> (0, 0, 0)
      | Inr snap \<Rightarrow>
          (map_index (CachedCountByLibrary snap) library, map_index (CachedBytesByLibrary snap) library,
           map_index (VolumeLinksByLibrary snap) library))"

definition volumeLockKey :: "string \<Rightarrow> string" where
  "volumeLockKey volumeID = ''volume:'' @ volumeID"

definition HasVolume ::
  "('h, 'r, 'd, 'n) library_manager \<Rightarrow> string \<Rightarrow> ('h, 'd, 'n) world \<Rightarrow> bool res" where
  "HasVolume M volumeID w =
     and_then (db_GetLibraryForVolume (lm_json M) (lm_db M) volumeID (w_db w))
       (\<lambda>libraryID. Inr (libraryID \<noteq> []))"

text \<open>The part of \<open>downloadToStore\<close> that runs with a scratch directory.\<close>

definition download_into ::
  "('h, 'r, 'd, 'n) library_manager \<Rightarrow> string \<Rightarrow> library \<Rightarrow> string \<Rightarrow> string \<Rightarrow> ('h, 'd, 'n) world \<Rightarrow>
   (string \<times> int) res \<times> ('h, 'd, 'n) world" where
  "download_into M libraryID lib img scratch w =
     (let (downloadStart, w1) = clock M w;
          (r, h, n) = Download (lm_fs M) (lm_net M) (lm_getwd M) img scratch (w_host w1) (w_net w1);
          w2 = w1\<lparr>w_host := h, w_net := n\<rparr>
      in case r of
           Inl e \<Rightarrow> (Inl e, w2)
         | Inr sizeBytes \<Rightarrow>
             (let (t, w3) = clock M w2;
                  w4 = note_act (Emit (OnLibraryDownload (lib_name lib) (lib_registry lib) (t - downloadStart))) w3;
                  (added, h') = store_add (lm_fs M) (lm_store M) (w_host w4) libraryID scratch;
                  w5 = w4\<lparr>w_host := h'\<rparr>
              in (map_sum id (\<lambda>storePath. (storePath, sizeBytes)) added, w5)))"

definition downloadToStore ::
  "('h, 'r, 'd, 'n) library_manager \<Rightarrow> string \<Rightarrow> library \<Rightarrow> string \<Rightarrow> ('h, 'd, 'n) world \<Rightarrow>
   (string \<times> int) res \<times> ('h, 'd, 'n) world" where
  "downloadToStore M libraryID lib img w =
     (let (temp, h) = os_temp_dir (lm_fs M) (w_host w) (lm_scratchDir M) ''datadog-csi-driver-*'';
          w1 = w\<lparr>w_host := h\<rparr>
      in case temp of
           Inl e \<Rightarrow> (Inl (Wrapf ''could not create scratch directory: %w'' [] e), w1)
         | Inr scratch \<Rightarrow>
             (let (r, w2) = download_into M libraryID lib img scratch w1
              in (r, w2\<lparr>w_host := snd (os_remove_all (lm_fs M) (w_host w2) scratch)\<rparr>)))"

text \<open>The clock is read before the transaction that stores its value begins.\<close>

definition linkVolume ::
  "('h, 'r, 'd, 'n) library_manager \<Rightarrow> string \<Rightarrow> string \<Rightarrow> string \<Rightarrow> bool \<Rightarrow> ('h, 'd, 'n) world \<Rightarrow>
   unit res \<times> ('h, 'd, 'n) world" where
  "linkVolume M libraryID volumeID library fromCache w =
     (let (now, w1) = clock M w;
          (r, d) = LinkVolume (lm_json M) (lm_db M) now libraryID volumeID fromCache (w_db w1);
          w2 = w1\<lparr>w_db := d\<rparr>
      in case r of
           Inl e \<Rightarrow> (Inl e, w2)
         | Inr _ \<Rightarrow>
             (let (_, _, volumeLinks) = packageStats M library w2
              in (Inr (), note_act (Emit (OnVolumeLinked library volumeLinks)) w2)))"

section \<open>GetLibraryForVolume\<close>

text \<open>
  \<open>path, err := store.Get(id)\<close> with the check that follows it: a missing item is the empty
  path, any other error returns.
\<close>

definition stored_path ::
  "('h, 'r, 'd, 'n) library_manager \<Rightarrow> string \<Rightarrow> ('h, 'd, 'n) world \<Rightarrow> string res" where
  "stored_path M libraryID w =
     (case store_get (lm_fs M) (lm_store M) (w_host w) libraryID of
        Inl e \<Rightarrow> if errors_is e ErrItemNotFound then Inr [] else Inl e
      | Inr path \<Rightarrow> Inr path)"

definition reuse_linked ::
  "('h, 'r, 'd, 'n) library_manager \<Rightarrow> string \<Rightarrow> library \<Rightarrow> ('h, 'd, 'n) world \<Rightarrow>
   (string \<times> resolution) res \<times> ('h, 'd, 'n) world" where
  "reuse_linked M existingLibraryID lib w =
     (case stored_path M existingLibraryID w of
        Inl e \<Rightarrow> (Inl e, w)
      | Inr path \<Rightarrow>
          if path \<noteq> [] then (Inr (path, ResolutionCacheHit), w)
          else
            (let img = lib_registry lib @ ''/'' @ lib_name lib @ ''@sha256:'' @ existingLibraryID;
                 (r, w1) = downloadToStore M existingLibraryID lib img w
             in (map_sum id (\<lambda>(storePath, _). (storePath, ResolutionDownloaded)) r, w1)))"

text \<open>A library that is not in the store: download it, record it, link the volume.\<close>

definition download_and_link ::
  "('h, 'r, 'd, 'n) library_manager \<Rightarrow> string \<Rightarrow> string \<Rightarrow> library \<Rightarrow> ('h, 'd, 'n) world \<Rightarrow>
   (string \<times> resolution) res \<times> ('h, 'd, 'n) world" where
  "download_and_link M libraryID volumeID lib w =
     (case downloadToStore M libraryID lib (Image lib) w of
        (Inl e, w1) \<Rightarrow> (Inl e, w1)
      | (Inr (storePath, sizeBytes), w1) \<Rightarrow>
          (let (r, d) = AddLibrary (lm_json M) (lm_db M) libraryID (lib_name lib) sizeBytes (w_db w1);
               w2 = w1\<lparr>w_db := d\<rparr>
           in case r of
                Inl e \<Rightarrow> (Inl (Wrapf ''could not record library metadata: %w'' [] e), w2)
              | Inr _ \<Rightarrow>
                  (let (count, totalBytes, _) = packageStats M (lib_name lib) w2;
                       w3 = note_act (Emit (OnLibraryCached (lib_name lib) count totalBytes)) w2
                   in case linkVolume M libraryID volumeID (lib_name lib) False w3 of
                        (Inl e, w4) \<Rightarrow> (Inl e, w4)
                      | (Inr _, w4) \<Rightarrow> (Inr (storePath, ResolutionDownloaded), w4))))"

definition resolve_new ::
  "('h, 'r, 'd, 'n) library_manager \<Rightarrow> string \<Rightarrow> string \<Rightarrow> library \<Rightarrow> ('h, 'd, 'n) world \<Rightarrow>
   (string \<times> resolution) res \<times> ('h, 'd, 'n) world" where
  "resolve_new M libraryID volumeID lib w =
     (case stored_path M libraryID w of
        Inl e \<Rightarrow> (Inl e, w)
      | Inr path \<Rightarrow>
          if path \<noteq> [] then
            (case linkVolume M libraryID volumeID (lib_name lib) True w of
               (Inl e, w1) \<Rightarrow> (Inl e, w1)
             | (Inr _, w1) \<Rightarrow> (Inr (path, ResolutionCacheHit), w1))
          else download_and_link M libraryID volumeID lib w)"

definition resolve_volume ::
  "('h, 'r, 'd, 'n) library_manager \<Rightarrow> string \<Rightarrow> library \<Rightarrow> ('h, 'd, 'n) world \<Rightarrow>
   (string \<times> resolution) res \<times> ('h, 'd, 'n) world" where
  "resolve_volume M volumeID lib w =
     (case db_GetLibraryForVolume (lm_json M) (lm_db M) volumeID (w_db w) of
        Inl e \<Rightarrow> (Inl e, w)
      | Inr existingLibraryID \<Rightarrow>
          if existingLibraryID \<noteq> [] then
            with_lock existingLibraryID (reuse_linked M existingLibraryID lib) w
          else
            (case FetchDigest (lm_net M) (lm_ttl M) (Image lib) (lib_pull lib) (w_cache w) (w_net w) of
               (Inl e, c, n) \<Rightarrow>
                 (Inl (Wrapf ''could not determine library ID: %w'' [] e), w\<lparr>w_cache := c, w_net := n\<rparr>)
             | (Inr libraryID, c, n) \<Rightarrow>
                 with_lock libraryID (resolve_new M libraryID volumeID lib) (w\<lparr>w_cache := c, w_net := n\<rparr>)))"

text \<open>The deferred listener call reports the outcome, after the locks are released.\<close>

definition lm_GetLibraryForVolume ::
  "('h, 'r, 'd, 'n) library_manager \<Rightarrow> string \<Rightarrow> library option \<Rightarrow> ('h, 'd, 'n) world \<Rightarrow>
   string res \<times> ('h, 'd, 'n) world" where
  "lm_GetLibraryForVolume M volumeID lib w =
     (let (r, w1) =
            (if volumeID = [] then (Inl (Errorf ''volume ID cannot be empty'' []), w)
             else case lib of
                    None \<Rightarrow> (Inl (Errorf ''library cannot be nil'' []), w)
                  | Some l \<Rightarrow> with_lock (volumeLockKey volumeID) (resolve_volume M volumeID l) w);
          library = (case lib of None \<Rightarrow> [] | Some l \<Rightarrow> lib_name l);
          result = (case r of Inl _ \<Rightarrow> ResolutionFailed | Inr (_, res) \<Rightarrow> res)
      in (map_sum id fst r, note_act (Emit (OnLibraryResolved library result)) w1))"

section \<open>RemoveVolume and cleanup\<close>

definition cleanup_event ::
  "('h, 'r, 'd, 'n) library_manager \<Rightarrow> string \<Rightarrow> cleanup_status \<Rightarrow> ('h, 'd, 'n) world \<Rightarrow> ('h, 'd, 'n) world" where
  "cleanup_event M package status w = note_act (Emit (OnLibraryCleanup package status (lm_strategy M))) w"

text \<open>The removal of a library without volumes, from disk first and then from the database.\<close>

definition remove_unused ::
  "('h, 'r, 'd, 'n) library_manager \<Rightarrow> string \<Rightarrow> library_info \<Rightarrow> ('h, 'd, 'n) world \<Rightarrow>
   unit res \<times> ('h, 'd, 'n) world" where
  "remove_unused M libraryID info w =
     (let (r, h) = store_remove (lm_fs M) (lm_store M) (w_host w) libraryID; w1 = w\<lparr>w_host := h\<rparr>
      in case r of
           Inl e \<Rightarrow> (Inl e, cleanup_event M (Package info) CleanupFailed w1)
         | Inr _ \<Rightarrow>
             (let (r', d) = RemoveLibrary (lm_db M) libraryID (w_db w1); w2 = w1\<lparr>w_db := d\<rparr>
              in case r' of
                   Inl e \<Rightarrow>
                     (Inl (Wrapf ''could not remove library metadata for %s: %w'' [libraryID] e),
                      cleanup_event M (Package info) CleanupFailed w2)
                 | Inr _ \<Rightarrow>
                     (let w3 =
                        (if Package info \<noteq> [] then
                           (let (newCount, newBytes, _) = packageStats M (Package info) w2
                            in note_act (Emit (OnLibraryEvicted (Package info) newCount newBytes)) w2)
                         else w2)
                      in (Inr (), cleanup_event M (Package info) CleanupSuccess w3))))"

definition try_cleanup ::
  "('h, 'r, 'd, 'n) library_manager \<Rightarrow> string \<Rightarrow> ('h, 'd, 'n) world \<Rightarrow> unit res \<times> ('h, 'd, 'n) world" where
  "try_cleanup M libraryID w =
     (case GetLibrary (lm_json M) (lm_db M) libraryID (w_db w) of
        Inl e \<Rightarrow>
          (Inl (Wrapf ''could not get library for ID %s: %w'' [libraryID] e),
           cleanup_event M [] CleanupFailed w)
      | Inr (info, _) \<Rightarrow>
          if VolumeCount info > 0 then (Inr (), cleanup_event M (Package info) CleanupSkippedInUse w)
          else remove_unused M libraryID info w)"

definition tryCleanupLibrary ::
  "('h, 'r, 'd, 'n) library_manager \<Rightarrow> string \<Rightarrow> ('h, 'd, 'n) world \<Rightarrow> unit res \<times> ('h, 'd, 'n) world" where
  "tryCleanupLibrary M libraryID = with_lock libraryID (try_cleanup M libraryID)"

text \<open>
  The strategy a manager is built with. The only cleanup function there is is
  \<open>tryCleanupLibrary\<close>, so the strategy's function values are of type \<open>unit\<close>.
\<close>

datatype strategy = Immediate | Delayed "unit delayed"

fun strategy_Name :: "strategy \<Rightarrow> string" where
  "strategy_Name Immediate = immediate_Name"
| "strategy_Name (Delayed s) = delayed_Name"

fun ScheduleCleanup :: "(unit, 'w) caller \<Rightarrow> unit \<Rightarrow> string \<Rightarrow> strategy \<times> 'w \<Rightarrow> strategy \<times> 'w" where
  "ScheduleCleanup call f l (Immediate, w) = (Immediate, snd (immediate_ScheduleCleanup call f l ((), w)))"
| "ScheduleCleanup call f l (Delayed s, w) =
     (case delayed_ScheduleCleanup call f l (s, w) of (s', w') \<Rightarrow> (Delayed s', w'))"

fun strategy_Stop :: "(unit, 'w) caller \<Rightarrow> string list \<Rightarrow> strategy \<times> 'w \<Rightarrow> strategy \<times> 'w" where
  "strategy_Stop call order (Immediate, w) = (Immediate, snd (immediate_Stop call order ((), w)))"
| "strategy_Stop call order (Delayed s, w) =
     (case delayed_Stop call order (s, w) of (s', w') \<Rightarrow> (Delayed s', w'))"

definition cleanup_call ::
  "('h, 'r, 'd, 'n) library_manager \<Rightarrow> (unit, ('h, 'd, 'n) world) caller" where
  "cleanup_call M f l w = tryCleanupLibrary M l w"

definition remove_volume ::
  "('h, 'r, 'd, 'n) library_manager \<Rightarrow> string \<Rightarrow> strategy \<Rightarrow> ('h, 'd, 'n) world \<Rightarrow>
   (unit res \<times> strategy) \<times> ('h, 'd, 'n) world" where
  "remove_volume M volumeID s w =
     (let (r, d) = UnlinkVolume (lm_json M) (lm_db M) volumeID (w_db w); w1 = w\<lparr>w_db := d\<rparr>
      in case r of
           Inl e \<Rightarrow> ((Inl (Wrapf ''could not unlink volume ID %s: %w'' [volumeID] e), s), w1)
         | Inr (libraryID, library) \<Rightarrow>
             if libraryID = [] then ((Inr (), s), w1)
             else
               (let w2 =
                  (if library \<noteq> [] then
                     (let (_, _, volumeLinks) = packageStats M library w1
                      in note_act (Emit (OnVolumeUnlinked library volumeLinks)) w1)
                   else w1);
                  (s', w3) = ScheduleCleanup (cleanup_call M) () libraryID (s, w2)
                in ((Inr (), s'), w3)))"

definition RemoveVolume ::
  "('h, 'r, 'd, 'n) library_manager \<Rightarrow> string \<Rightarrow> strategy \<Rightarrow> ('h, 'd, 'n) world \<Rightarrow>
   (unit res \<times> strategy) \<times> ('h, 'd, 'n) world" where
  "RemoveVolume M volumeID s = with_lock (volumeLockKey volumeID) (remove_volume M volumeID s)"

section \<open>Construction and Stop\<close>

definition lm_Stop ::
  "('h, 'r, 'd, 'n) library_manager \<Rightarrow> string list \<Rightarrow> strategy \<Rightarrow> ('h, 'd, 'n) world \<Rightarrow>
   goerr option \<times> strategy \<times> ('h, 'd, 'n) world" where
  "lm_Stop M order s w =
     (let (s', w1) = strategy_Stop (cleanup_call M) order (s, w);
          (e, d) = db_Close (lm_db M) (w_db w1)
      in (e, s', w1\<lparr>w_db := d\<rparr>))"

definition StoreDirectory :: string where "StoreDirectory = ''store''"
definition DatabaseDirectory :: string where "DatabaseDirectory = ''db''"
definition ScratchDirectory :: string where "ScratchDirectory = ''scratch''"

text \<open>One hour, in nanoseconds as \<open>time.Duration\<close>.\<close>

definition DefaultImageCacheTTL :: int where "DefaultImageCacheTTL = 3600000000000"

definition seed_metrics ::
  "('h, 'r, 'd, 'n) library_manager \<Rightarrow> ('h, 'd, 'n) world \<Rightarrow> ('h, 'd, 'n) world" where
  "seed_metrics M w =
     (case Snapshot (lm_json M) (lm_db M) (w_db w) of
        Inl e \<Rightarrow> w
      | Inr snap \<Rightarrow> note_act (Emit (OnSnapshot snap)) w)"

text \<open>
  What the constructor does once the options are applied: the directories, the store, the database,
  the cache and the first report to the listener; \<open>open_db\<close> is \<open>bbolt.Open\<close>.
\<close>

definition set_up_manager ::
  "('h, 'r, 'd, 'n) library_manager \<Rightarrow> (string \<Rightarrow> 'd res) \<Rightarrow> string \<Rightarrow> ('h, 'd, 'n) world \<Rightarrow>
   ('h, 'r, 'd, 'n) library_manager res \<times> ('h, 'd, 'n) world" where
  "set_up_manager M open_db basePath w =
     (let scratchDir = path_join [basePath, ScratchDirectory];
          storeDir = path_join [basePath, StoreDirectory];
          dbDir = path_join [basePath, DatabaseDirectory]
      in case os_mkdir_all (lm_fs M) (w_host w) scratchDir of
           (Some e, h1) \<Rightarrow>
             (Inl (Wrapf ''could not create scratch directory %s: %w'' [scratchDir] e), w\<lparr>w_host := h1\<rparr>)
         | (None, h1) \<Rightarrow>
      case os_mkdir_all (lm_fs M) h1 storeDir of
           (Some e, h2) \<Rightarrow>
             (Inl (Wrapf ''could not create store directory %s: %w'' [storeDir] e), w\<lparr>w_host := h2\<rparr>)
         | (None, h2) \<Rightarrow>
      case new_store (lm_fs M) storeDir h2 of
           (Inl e, h3) \<Rightarrow> (Inl (Wrapf ''could not create store: %w'' [] e), w\<lparr>w_host := h3\<rparr>)
         | (Inr store, h3) \<Rightarrow>
      case os_mkdir_all (lm_fs M) h3 dbDir of
           (Some e, h4) \<Rightarrow>
             (Inl (Wrapf ''could not create db directory %s: %w'' [dbDir] e), w\<lparr>w_host := h4\<rparr>)
         | (None, h4) \<Rightarrow>
      case NewDatabase (lm_json M) (lm_db M) open_db dbDir of
           (Inl e, _) \<Rightarrow> (Inl (Wrapf ''could not create database: %w'' [] e), w\<lparr>w_host := h4\<rparr>)
         | (Inr d, _) \<Rightarrow>
             (let (c, ttl) = NewImageCache DefaultImageCacheTTL;
                  M1 = M\<lparr>lm_scratchDir := scratchDir, lm_store := store, lm_ttl := ttl\<rparr>;
                  w1 = w\<lparr>w_host := h4, w_db := d, w_cache := c\<rparr>
              in (Inr M1, seed_metrics M1 w1)))"

text \<open>
  The options write into the manager that is being made. Beside the fields of \<open>library_manager\<close>
  it has its cleanup strategy and its listener, which the model keeps apart from them. A registry
  client stands for the downloader that uses it.
\<close>

record ('h, 'r, 'd, 'n, 'm) manager_setup =
  su_manager :: "('h, 'r, 'd, 'n) library_manager"
  su_strategy :: strategy
  su_listener :: "'m listener"

definition set_strategy :: "strategy \<Rightarrow> ('h, 'r, 'd, 'n, 'm) manager_setup \<Rightarrow> ('h, 'r, 'd, 'n, 'm) manager_setup" where
  "set_strategy s u = u\<lparr>su_strategy := s, su_manager := (su_manager u)\<lparr>lm_strategy := strategy_Name s\<rparr>\<rparr>"

type_synonym ('h, 'r, 'd, 'n, 'm) LibraryManagerOption =
  "('h, 'r, 'd, 'n, 'm) manager_setup \<Rightarrow> ('h, 'r, 'd, 'n, 'm) manager_setup"

definition WithFilesystem :: "'h host \<Rightarrow> ('h, 'r, 'd, 'n, 'm) LibraryManagerOption" where
  "WithFilesystem fs u = u\<lparr>su_manager := (su_manager u)\<lparr>lm_fs := fs\<rparr>\<rparr>"

definition WithDownloader :: "'n net \<Rightarrow> ('h, 'r, 'd, 'n, 'm) LibraryManagerOption" where
  "WithDownloader d u = u\<lparr>su_manager := (su_manager u)\<lparr>lm_net := d\<rparr>\<rparr>"

definition WithCleanupStrategy :: "strategy \<Rightarrow> ('h, 'r, 'd, 'n, 'm) LibraryManagerOption" where
  "WithCleanupStrategy s u = set_strategy s u"

definition WithEventListener :: "'m listener option \<Rightarrow> ('h, 'r, 'd, 'n, 'm) LibraryManagerOption" where
  "WithEventListener l u = (case l of None \<Rightarrow> u | Some x \<Rightarrow> u\<lparr>su_listener := x\<rparr>)"

text \<open>\<open>M\<close> holds the library code of the manager, \<open>os\<close> and \<open>d\<close> the default file system and downloader.\<close>

definition manager_defaults ::
  "('h, 'r, 'd, 'n) library_manager \<Rightarrow> 'h host \<Rightarrow> 'n net \<Rightarrow> ('h, 'r, 'd, 'n, 'm) manager_setup" where
  "manager_defaults M os d =
     \<lparr>su_manager = M\<lparr>lm_fs := os, lm_net := d, lm_strategy := immediate_Name\<rparr>, su_strategy = Immediate,
      su_listener = NoopListener\<rparr>"

definition NewLibraryManager ::
  "('h, 'r, 'd, 'n) library_manager \<Rightarrow> 'h host \<Rightarrow> 'n net \<Rightarrow> (string \<Rightarrow> 'd res) \<Rightarrow> string \<Rightarrow>
   ('h, 'r, 'd, 'n, 'm) LibraryManagerOption list \<Rightarrow> ('h, 'd, 'n) world \<Rightarrow>
   ('h, 'r, 'd, 'n, 'm) manager_setup res \<times> ('h, 'd, 'n) world" where
  "NewLibraryManager M os d open_db basePath opts w =
     (let u = fold (\<lambda>opt u. opt u) opts (manager_defaults M os d) in
      case set_up_manager (su_manager u) open_db basePath w of
        (Inl e, w1) \<Rightarrow> (Inl e, w1)
      | (Inr lm, w1) \<Rightarrow> (Inr (u\<lparr>su_manager := lm\<rparr>), w1))"

end
