(* ===== verification/Csi_Publishers.thy ===== *)
theory Csi_Publishers
  imports Lib_Manager
begin

text \<open>
  \<open>pkg/driver/publishers\<close>: how a volume of each type is mounted into a pod and unmounted
  again, and the chain that picks the publisher of a request.
\<close>

section \<open>Requests and responses\<close>

type_synonym volume_type = string

definition APMSocket :: volume_type where "APMSocket = ''APMSocket''"
definition APMSocketDirectory :: volume_type where "APMSocketDirectory = ''APMSocketDirectory''"
definition DSDSocket :: volume_type where "DSDSocket = ''DSDSocket''"
definition DSDSocketDirectory :: volume_type where "DSDSocketDirectory = ''DSDSocketDirectory''"
definition DatadogSocketsDirectory :: volume_type where "DatadogSocketsDirectory = ''DatadogSocketsDirectory''"
definition DatadogLibrary :: volume_type where "DatadogLibrary = ''DatadogLibrary''"
definition DatadogInjectorPreload :: volume_type where "DatadogInjectorPreload = ''DatadogInjectorPreload''"

lemmas volume_types = APMSocket_def APMSocketDirectory_def DSDSocket_def DSDSocketDirectory_def
  DatadogSocketsDirectory_def DatadogLibrary_def DatadogInjectorPreload_def

text \<open>The fields of the CSI requests the driver reads; reading a missing key of a map gives a blank.\<close>

record publish_request =
  VolumeId :: string
  TargetPath :: string
  Readonly :: bool
  VolumeContext :: "string \<rightharpoonup> string"

record unpublish_request =
  un_VolumeId :: string
  un_TargetPath :: string

definition ctx :: "publish_request \<Rightarrow> string \<Rightarrow> string" where
  "ctx req k = (case VolumeContext req k of None \<Rightarrow> [] | Some x \<Rightarrow> x)"

record publisher_response =
  VolumeType :: volume_type
  VolumePath :: string

text \<open>
  What a publisher returns: a response or nil, and an error or nil. It works on the state of the
  cleanup strategy and the world of the library manager, whose host is the node's.
\<close>

type_synonym ('h, 'd, 'n) pstate = "strategy \<times> ('h, 'd, 'n) world"
type_synonym outcome = "publisher_response option \<times> goerr option"

definition put_host :: "'h \<Rightarrow> ('h, 'd, 'n) pstate \<Rightarrow> ('h, 'd, 'n) pstate" where
  "put_host h st = (fst st, (snd st)\<lparr>w_host := h\<rparr>)"

text \<open>Lift an operation of the host.\<close>

definition on_host :: "('h \<Rightarrow> 'a \<times> 'h) \<Rightarrow> ('h, 'd, 'n) pstate \<Rightarrow> 'a \<times> ('h, 'd, 'n) pstate" where
  "on_host f st = (case f (w_host (snd st)) of (a, h) \<Rightarrow> (a, put_host h st))"

section \<open>Helpers\<close>

definition internal :: "string \<Rightarrow> goerr \<Rightarrow> goerr" where
  "internal msg e = Statusf ''Internal'' msg [] (Some e)"

definition createHostPath :: "'h host \<Rightarrow> string \<Rightarrow> bool \<Rightarrow> 'h \<Rightarrow> goerr option \<times> 'h" where
  "createHostPath H pathname isFile h =
     (case os_exists H h pathname of
        Inl e \<Rightarrow> (Some (internal ''Error checking path: %v'' e), h)
      | Inr exists \<Rightarrow>
          if \<not> exists then
            if isFile then
              (case os_create H h pathname of
                 (Some e, h1) \<Rightarrow> (Some (internal ''Cannot create file: %v'' e), h1)
               | (None, h1) \<Rightarrow> (None, h1))
            else
              (case os_mkdir_all H h pathname of
                 (Some e, h1) \<Rightarrow> (Some (internal ''Cannot create directory: %v'' e), h1)
               | (None, h1) \<Rightarrow>
                   (case os_chmod H h1 pathname 493 of
                      (Some e, h2) \<Rightarrow> (Some (internal ''Cannot set permissions: %v'' e), h2)
                    | (None, h2) \<Rightarrow> (None, h2)))
          else (None, h))"

definition isSocketPath :: "'h host \<Rightarrow> 'h \<Rightarrow> string \<Rightarrow> bool res" where
  "isSocketPath H h path = and_then (os_stat H h path) (\<lambda>kind. Inr (kind = KSocket))"

record bind_mount_args =
  hostPath :: string
  targetPath :: string
  isFile :: bool
  readOnly :: bool

text \<open>The mount itself, once the target exists and the mount point was examined.\<close>

definition mount_or_remount :: "'h host \<Rightarrow> bind_mount_args \<Rightarrow> bool \<Rightarrow> 'h \<Rightarrow> goerr option \<times> 'h" where
  "mount_or_remount H args notMnt h =
     (if notMnt then
        (case mnt_mount H h (hostPath args) (targetPath args)
                (if readOnly args then [''bind'', ''ro''] else [''bind'']) of
           (Some e, h1) \<Rightarrow> (Some (internal ''bindMount: failed to mount: %v'' e), h1)
         | (None, h1) \<Rightarrow> (None, h1))
      else if readOnly args then
        (case mnt_remount_ro H h (hostPath args) (targetPath args) of
           (Some e, h1) \<Rightarrow> (Some (internal ''bindMount: failed to remount read-only: %v'' e), h1)
         | (None, h1) \<Rightarrow> (None, h1))
      else (None, h))"

definition bindMount :: "'h host \<Rightarrow> bind_mount_args \<Rightarrow> 'h \<Rightarrow> goerr option \<times> 'h" where
  "bindMount H args h =
     (case os_exists H h (hostPath args) of
        Inl e \<Rightarrow> (Some (internal ''bindMount: failed to check if source path exists: %v'' e), h)
      | Inr exists \<Rightarrow>
          if \<not> exists then
            (Some (Statusf ''FailedPrecondition'' ''bindMount: source path %q does not exist'' [hostPath args] None), h)
          else
            (case createHostPath H (targetPath args) (isFile args) h of
               (Some e, h1) \<Rightarrow> (Some e, h1)
             | (None, h1) \<Rightarrow>
                 (case mnt_likely_not H h1 (targetPath args) of
                    (notMnt, err) \<Rightarrow>
                      if err \<noteq> None \<and> err \<noteq> Some ErrNotExist
                      then (Some (internal ''bindMount: failed to check mount point: %v'' (the err)), h1)
                      else mount_or_remount H args notMnt h1)))"

definition bindUnmount :: "'h host \<Rightarrow> string \<Rightarrow> 'h \<Rightarrow> goerr option \<times> 'h" where
  "bindUnmount H target h =
     (case os_exists H h target of
        Inl e \<Rightarrow> (Some (internal ''bindUnmount: failed to check if target exists: %v'' e), h)
      | Inr exists \<Rightarrow>
          if \<not> exists then (None, h)
          else (None, snd (os_remove_all H (snd (mnt_unmount H h target)) target)))"

section \<open>Socket and directory publishers\<close>

record socket_paths =
  apmSocketPath :: string
  dsdSocketPath :: string

text \<open>A mount of a host path at the target of the request, with the response given.\<close>

definition mount_at ::
  "'h host \<Rightarrow> publisher_response \<Rightarrow> bind_mount_args \<Rightarrow> ('h, 'd, 'n) pstate \<Rightarrow> outcome \<times> ('h, 'd, 'n) pstate" where
  "mount_at H resp args st = (case on_host (bindMount H args) st of (e, st') \<Rightarrow> ((Some resp, e), st'))"

text \<open>The socket check both socket publishers make before they mount.\<close>

definition mount_socket ::
  "'h host \<Rightarrow> publisher_response \<Rightarrow> string \<Rightarrow> string \<Rightarrow> ('h, 'd, 'n) pstate \<Rightarrow> outcome \<times> ('h, 'd, 'n) pstate" where
  "mount_socket H resp host_path target st =
     (case isSocketPath H (w_host (snd st)) host_path of
        Inl e \<Rightarrow> ((Some resp, Some (Wrapf ''failed to check if %q is a socket path: %w'' [host_path] e)), st)
      | Inr isSocket \<Rightarrow>
          if \<not> isSocket then ((Some resp, Some (Errorf ''socket not found at %q'' [host_path])), st)
          else mount_at H resp \<lparr>hostPath = host_path, targetPath = target, isFile = True, readOnly = False\<rparr> st)"

definition socket_Publish ::
  "'h host \<Rightarrow> socket_paths \<Rightarrow> publish_request \<Rightarrow> ('h, 'd, 'n) pstate \<Rightarrow> outcome \<times> ('h, 'd, 'n) pstate" where
  "socket_Publish H s req st =
     (let volumeType = ctx req ''type'' in
      if volumeType = APMSocket then
        mount_socket H \<lparr>VolumeType = volumeType, VolumePath = apmSocketPath s\<rparr> (apmSocketPath s) (TargetPath req) st
      else if volumeType = DSDSocket then
        mount_socket H \<lparr>VolumeType = volumeType, VolumePath = dsdSocketPath s\<rparr> (dsdSocketPath s) (TargetPath req) st
      else ((None, None), st))"

definition mount_directory ::
  "'h host \<Rightarrow> volume_type \<Rightarrow> string \<Rightarrow> publish_request \<Rightarrow> ('h, 'd, 'n) pstate \<Rightarrow> outcome \<times> ('h, 'd, 'n) pstate" where
  "mount_directory H volumeType host_path req st =
     mount_at H \<lparr>VolumeType = volumeType, VolumePath = host_path\<rparr>
       \<lparr>hostPath = host_path, targetPath = TargetPath req, isFile = False, readOnly = False\<rparr> st"

definition local_Publish ::
  "'h host \<Rightarrow> socket_paths \<Rightarrow> publish_request \<Rightarrow> ('h, 'd, 'n) pstate \<Rightarrow> outcome \<times> ('h, 'd, 'n) pstate" where
  "local_Publish H s req st =
     (let volumeType = ctx req ''type'' in
      if volumeType = APMSocketDirectory then mount_directory H volumeType (path_dir (apmSocketPath s)) req st
      else if volumeType = DSDSocketDirectory then mount_directory H volumeType (path_dir (dsdSocketPath s)) req st
      else if volumeType = DatadogSocketsDirectory
      then mount_directory H volumeType (path_dir (dsdSocketPath s)) req st
      else ((None, None), st))"

definition modeSocket :: string where "modeSocket = ''socket''"
definition modeLocal :: string where "modeLocal = ''local''"

text \<open>The test of the deprecated schema: mode and path without a type.\<close>

definition legacy_request :: "string \<Rightarrow> publish_request \<Rightarrow> bool" where
  "legacy_request mode req \<longleftrightarrow>
     VolumeContext req ''type'' = None \<and> VolumeContext req ''mode'' = Some mode \<and>
     VolumeContext req ''path'' \<noteq> None"

definition not_allowed :: "publisher_response \<Rightarrow> string \<Rightarrow> string list \<Rightarrow> outcome" where
  "not_allowed resp path allowed =
     (Some resp, Some (Errorf ''path %q is not allowed; permitted paths are %v'' (path # allowed)))"

definition socket_legacy_Publish ::
  "'h host \<Rightarrow> socket_paths \<Rightarrow> publish_request \<Rightarrow> ('h, 'd, 'n) pstate \<Rightarrow> outcome \<times> ('h, 'd, 'n) pstate" where
  "socket_legacy_Publish H s req st =
     (if \<not> legacy_request modeSocket req then ((None, None), st)
      else
        let host_path = ctx req ''path''; resp = \<lparr>VolumeType = modeSocket, VolumePath = host_path\<rparr>;
            allowed = [apmSocketPath s, dsdSocketPath s]
        in if host_path \<notin> set allowed then (not_allowed resp host_path allowed, st)
           else mount_socket H resp host_path (TargetPath req) st)"

definition local_legacy_Publish ::
  "'h host \<Rightarrow> socket_paths \<Rightarrow> publish_request \<Rightarrow> ('h, 'd, 'n) pstate \<Rightarrow> outcome \<times> ('h, 'd, 'n) pstate" where
  "local_legacy_Publish H s req st =
     (if \<not> legacy_request modeLocal req then ((None, None), st)
      else
        let host_path = ctx req ''path''; resp = \<lparr>VolumeType = modeLocal, VolumePath = host_path\<rparr>;
            allowed = [path_dir (apmSocketPath s), path_dir (dsdSocketPath s)]
        in if host_path \<notin> set allowed then (not_allowed resp host_path allowed, st)
           else mount_directory H modeLocal host_path req st)"

section \<open>The preload file\<close>

definition defaultPreloadContent :: string where
  "defaultPreloadContent =
     ''/opt/datadog-packages/datadog-apm-inject/stable/inject/launcher.preload.so'' @ [CHR 0x0A]"

record injector_preload =
  preloadFilePath :: string
  ip_disabled :: bool

definition ensurePreloadFileExists :: "'h host \<Rightarrow> injector_preload \<Rightarrow> 'h \<Rightarrow> goerr option \<times> 'h" where
  "ensurePreloadFileExists H p h =
     (case os_exists H h (preloadFilePath p) of
        Inl e \<Rightarrow> (Some e, h)
      | Inr True \<Rightarrow> (None, h)
      | Inr False \<Rightarrow>
          (case os_exists H h (preloadFilePath p) of
             Inl e \<Rightarrow> (Some e, h)
           | Inr True \<Rightarrow> (None, h)
           | Inr False \<Rightarrow> os_write_file H h (preloadFilePath p) defaultPreloadContent))"

definition injector_Publish ::
  "'h host \<Rightarrow> injector_preload \<Rightarrow> publish_request \<Rightarrow> ('h, 'd, 'n) pstate \<Rightarrow> outcome \<times> ('h, 'd, 'n) pstate" where
  "injector_Publish H p req st =
     (let resp = \<lparr>VolumeType = DatadogInjectorPreload, VolumePath = []\<rparr> in
      if ctx req ''type'' \<noteq> DatadogInjectorPreload then ((None, None), st)
      else if ip_disabled p then
        ((Some resp, Some (Errorf ''SSI is disabled, injector preload volumes cannot be published'' [])), st)
      else if \<not> Readonly req then
        ((Some resp, Some (Errorf ''injector preload volumes must be mounted in read-only mode'' [])), st)
      else
        (case on_host (ensurePreloadFileExists H p) st of
           (Some e, st1) \<Rightarrow> ((Some resp, Some e), st1)
         | (None, st1) \<Rightarrow>
             (case on_host (bindMount H \<lparr>hostPath = preloadFilePath p, targetPath = TargetPath req,
                                         isFile = True, readOnly = True\<rparr>) st1 of
                (Some e, st2) \<Rightarrow> ((Some resp, Some (Wrapf ''failed to mount preload file: %w'' [] e)), st2)
              | (None, st2) \<Rightarrow>
                  ((Some \<lparr>VolumeType = DatadogInjectorPreload, VolumePath = TargetPath req\<rparr>, None), st2))))"

section \<open>The library publisher\<close>

definition keyLibraryPackage :: string where
  "keyLibraryPackage = ''dd.csi.datadog.com/library.package''"
definition keyLibraryRegistry :: string where
  "keyLibraryRegistry = ''dd.csi.datadog.com/library.registry''"
definition keyLibraryVersion :: string where
  "keyLibraryVersion = ''dd.csi.datadog.com/library.version''"
definition languageLibrarySourcePath :: string where
  "languageLibrarySourcePath = ''/datadog-init/package''"
definition injectorLibrarySourcePath :: string where
  "injectorLibrarySourcePath = ''/opt/datadog-packages/datadog-apm-inject''"

record library_publisher =
  lp_disabled :: bool
  allowedRegistries :: "string list"

definition registryAllowed :: "library_publisher \<Rightarrow> string \<Rightarrow> bool" where
  "registryAllowed s registry \<longleftrightarrow> allowedRegistries s = [] \<or> registry \<in> set (allowedRegistries s)"

definition validateLibrarySourcePath :: "'h host \<Rightarrow> 'h \<Rightarrow> string \<Rightarrow> string \<Rightarrow> string res" where
  "validateLibrarySourcePath H h basePath sourcePath =
     and_then (wrap_err ''could not resolve library base path: %w'' [] (os_eval_symlinks H h basePath))
       (\<lambda>resolvedBasePath.
     and_then (wrap_err ''could not resolve library source path: %w'' [] (os_eval_symlinks H h sourcePath))
       (\<lambda>resolvedSourcePath.
     and_then (wrap_err ''could not validate library source path: %w'' [] (path_rel resolvedBasePath resolvedSourcePath))
       (\<lambda>relativePath.
         if relativePath = ''.'' \<or> has_prefix relativePath (''..'' @ [slash]) \<or> relativePath = ''..''
         then Inl (Errorf ''library source path %q resolves outside library base path'' [sourcePath])
         else Inr resolvedSourcePath)))"

definition library_source :: "string \<Rightarrow> string" where
  "library_source pkg =
     trim_prefix (if pkg = ''apm-inject'' then injectorLibrarySourcePath else languageLibrarySourcePath) ''/''"

text \<open>The check of the downloaded library, which undoes the link of the volume when it fails.\<close>

definition check_source ::
  "('h, 'r, 'd, 'n) library_manager \<Rightarrow> string \<Rightarrow> string \<Rightarrow> string \<Rightarrow> ('h, 'd, 'n) pstate \<Rightarrow>
   string res \<times> ('h, 'd, 'n) pstate" where
  "check_source M volumeID basePath path st =
     (case validateLibrarySourcePath (lm_fs M) (w_host (snd st)) basePath path of
        Inr resolved \<Rightarrow> (Inr resolved, st)
      | Inl err \<Rightarrow>
          (case RemoveVolume M volumeID (fst st) (snd st) of
             ((Inl removeErr, s'), w') \<Rightarrow>
               (Inl (Wrapv ''%w; additionally failed to roll back volume link: %v'' [] err removeErr), (s', w'))
           | ((Inr _, s'), w') \<Rightarrow> (Inl err, (s', w'))))"

text \<open>The path to mount or an error, and the image reference for the metrics.\<close>

definition getLibraryPath ::
  "('h, 'r, 'd, 'n) library_manager \<Rightarrow> publish_request \<Rightarrow> ('h, 'd, 'n) pstate \<Rightarrow>
   (string res \<times> string) \<times> ('h, 'd, 'n) pstate" where
  "getLibraryPath M req st =
     (let pkg = ctx req keyLibraryPackage in
      case NewLibrary pkg (ctx req keyLibraryRegistry) (ctx req keyLibraryVersion) True of
        Inl e \<Rightarrow> ((Inl (Wrapf ''invalid library configuration: %w'' [] e), []), st)
      | Inr lib \<Rightarrow>
          (case lm_GetLibraryForVolume M (VolumeId req) (Some lib) (snd st) of
             (Inl e, w1) \<Rightarrow>
               ((Inl (Wrapf ''failed to get library for volume: %w'' [] e), Image lib), (fst st, w1))
           | (Inr basePath, w1) \<Rightarrow>
               (case check_source M (VolumeId req) basePath (path_join [basePath, library_source pkg]) (fst st, w1) of
                  (r, st2) \<Rightarrow> ((r, Image lib), st2))))"

definition library_Publish ::
  "('h, 'r, 'd, 'n) library_manager \<Rightarrow> library_publisher \<Rightarrow> publish_request \<Rightarrow> ('h, 'd, 'n) pstate \<Rightarrow>
   outcome \<times> ('h, 'd, 'n) pstate" where
  "library_Publish M s req st =
     (let resp = (\<lambda>img. Some \<lparr>VolumeType = DatadogLibrary, VolumePath = img\<rparr>);
          registry = ctx req keyLibraryRegistry in
      if ctx req ''type'' \<noteq> DatadogLibrary then ((None, None), st)
      else if lp_disabled s then
        ((resp [], Some (Errorf ''SSI is disabled, library volumes cannot be published'' [])), st)
      else if \<not> Readonly req then
        ((resp [], Some (Errorf ''library volumes must be mounted in read-only mode'' [])), st)
      else if \<not> registryAllowed s registry then
        ((resp [], Some (Errorf ''registry %q is not in the allow list'' [registry])), st)
      else
        (case getLibraryPath M req st of
           ((Inl e, img), st1) \<Rightarrow> ((resp img, Some e), st1)
         | ((Inr libraryPath, img), st1) \<Rightarrow>
             (case on_host (bindMount (lm_fs M) \<lparr>hostPath = libraryPath, targetPath = TargetPath req,
                                                isFile = False, readOnly = True\<rparr>) st1 of
                (e, st2) \<Rightarrow> ((resp img, e), st2))))"

definition library_Unpublish ::
  "('h, 'r, 'd, 'n) library_manager \<Rightarrow> unpublish_request \<Rightarrow> ('h, 'd, 'n) pstate \<Rightarrow>
   outcome \<times> ('h, 'd, 'n) pstate" where
  "library_Unpublish M req st =
     (let resp = Some \<lparr>VolumeType = DatadogLibrary, VolumePath = []\<rparr> in
      case HasVolume M (un_VolumeId req) (snd st) of
        Inl e \<Rightarrow> ((None, None), st)
      | Inr False \<Rightarrow> ((None, None), st)
      | Inr True \<Rightarrow>
          (case on_host (bindUnmount (lm_fs M) (un_TargetPath req)) st of
             (Some e, st1) \<Rightarrow> ((resp, Some (Wrapf ''failed to unmount library: %w'' [] e)), st1)
           | (None, st1) \<Rightarrow>
               (case RemoveVolume M (un_VolumeId req) (fst st1) (snd st1) of
                  ((Inl e, s'), w') \<Rightarrow>
                    ((resp, Some (Wrapf ''failed to remove volume tracking: %w'' [] e)), (s', w'))
                | ((Inr _, s'), w') \<Rightarrow> ((resp, None), (s', w')))))"

declare library_Publish_def [publisher_defs] injector_Publish_def [publisher_defs]
  socket_Publish_def [publisher_defs] local_Publish_def [publisher_defs]
  socket_legacy_Publish_def [publisher_defs] local_legacy_Publish_def [publisher_defs]

section \<open>The fallback and the chain\<close>

definition unmount_Publish :: "publish_request \<Rightarrow> ('h, 'd, 'n) pstate \<Rightarrow> outcome \<times> ('h, 'd, 'n) pstate" where
  "unmount_Publish req st = ((None, None), st)"

definition unmount_Unpublish ::
  "'h host \<Rightarrow> unpublish_request \<Rightarrow> ('h, 'd, 'n) pstate \<Rightarrow> outcome \<times> ('h, 'd, 'n) pstate" where
  "unmount_Unpublish H req st =
     (case on_host (bindUnmount H (un_TargetPath req)) st of
        (e, st') \<Rightarrow> ((Some \<lparr>VolumeType = [], VolumePath = []\<rparr>, e), st'))"

declare unmount_Publish_def [publisher_defs]

text \<open>The implementations of the \<open>Publisher\<close> interface, and its two methods.\<close>

datatype publisher =
    LibraryPublisher library_publisher
  | InjectorPreloadPublisher injector_preload
  | SocketPublisher socket_paths
  | LocalPublisher socket_paths
  | SocketLegacyPublisher socket_paths
  | LocalLegacyPublisher socket_paths
  | UnmountPublisher

fun Publish ::
  "('h, 'r, 'd, 'n) library_manager \<Rightarrow> publisher \<Rightarrow> publish_request \<Rightarrow> ('h, 'd, 'n) pstate \<Rightarrow>
   outcome \<times> ('h, 'd, 'n) pstate" where
  "Publish M (LibraryPublisher s) req st = library_Publish M s req st"
| "Publish M (InjectorPreloadPublisher p) req st = injector_Publish (lm_fs M) p req st"
| "Publish M (SocketPublisher s) req st = socket_Publish (lm_fs M) s req st"
| "Publish M (LocalPublisher s) req st = local_Publish (lm_fs M) s req st"
| "Publish M (SocketLegacyPublisher s) req st = socket_legacy_Publish (lm_fs M) s req st"
| "Publish M (LocalLegacyPublisher s) req st = local_legacy_Publish (lm_fs M) s req st"
| "Publish M UnmountPublisher req st = unmount_Publish req st"

text \<open>The publishers that leave every unpublish to the others, as the fallback leaves every publish.\<close>

definition injector_Unpublish :: "unpublish_request \<Rightarrow> ('h, 'd, 'n) pstate \<Rightarrow> outcome \<times> ('h, 'd, 'n) pstate" where
  [simp]: "injector_Unpublish req st = ((None, None), st)"

definition socket_Unpublish :: "unpublish_request \<Rightarrow> ('h, 'd, 'n) pstate \<Rightarrow> outcome \<times> ('h, 'd, 'n) pstate" where
  [simp]: "socket_Unpublish req st = ((None, None), st)"

definition local_Unpublish :: "unpublish_request \<Rightarrow> ('h, 'd, 'n) pstate \<Rightarrow> outcome \<times> ('h, 'd, 'n) pstate" where
  [simp]: "local_Unpublish req st = ((None, None), st)"

definition socket_legacy_Unpublish :: "unpublish_request \<Rightarrow> ('h, 'd, 'n) pstate \<Rightarrow> outcome \<times> ('h, 'd, 'n) pstate" where
  [simp]: "socket_legacy_Unpublish req st = ((None, None), st)"

definition local_legacy_Unpublish :: "unpublish_request \<Rightarrow> ('h, 'd, 'n) pstate \<Rightarrow> outcome \<times> ('h, 'd, 'n) pstate" where
  [simp]: "local_legacy_Unpublish req st = ((None, None), st)"

fun Unpublish ::
  "('h, 'r, 'd, 'n) library_manager \<Rightarrow> publisher \<Rightarrow> unpublish_request \<Rightarrow> ('h, 'd, 'n) pstate \<Rightarrow>
   outcome \<times> ('h, 'd, 'n) pstate" where
  "Unpublish M (LibraryPublisher s) req st = library_Unpublish M req st"
| "Unpublish M (InjectorPreloadPublisher p) req st = injector_Unpublish req st"
| "Unpublish M (SocketPublisher s) req st = socket_Unpublish req st"
| "Unpublish M (LocalPublisher s) req st = local_Unpublish req st"
| "Unpublish M (SocketLegacyPublisher s) req st = socket_legacy_Unpublish req st"
| "Unpublish M (LocalLegacyPublisher s) req st = local_legacy_Unpublish req st"
| "Unpublish M UnmountPublisher req st = unmount_Unpublish (lm_fs M) req st"

text \<open>
  The constructors; the file system, the mounter and the manager are those the methods are given.
\<close>

definition newLibraryPublisher :: "bool \<Rightarrow> string list \<Rightarrow> publisher" where
  [simp]: "newLibraryPublisher disabled registries =
     LibraryPublisher \<lparr>lp_disabled = disabled, allowedRegistries = registries\<rparr>"

definition newInjectorPreloadPublisher :: "string \<Rightarrow> bool \<Rightarrow> publisher" where
  [simp]: "newInjectorPreloadPublisher storageBasePath disabled =
     InjectorPreloadPublisher
       \<lparr>preloadFilePath = path_join [storageBasePath, ''ld.so.preload''], ip_disabled = disabled\<rparr>"

definition newSocketPublisher :: "string \<Rightarrow> string \<Rightarrow> publisher" where
  [simp]: "newSocketPublisher apm dsd = SocketPublisher \<lparr>apmSocketPath = apm, dsdSocketPath = dsd\<rparr>"

definition newLocalPublisher :: "string \<Rightarrow> string \<Rightarrow> publisher" where
  [simp]: "newLocalPublisher apm dsd = LocalPublisher \<lparr>apmSocketPath = apm, dsdSocketPath = dsd\<rparr>"

definition newSocketLegacyPublisher :: "string \<Rightarrow> string \<Rightarrow> publisher" where
  [simp]: "newSocketLegacyPublisher apm dsd = SocketLegacyPublisher \<lparr>apmSocketPath = apm, dsdSocketPath = dsd\<rparr>"

definition newLocalLegacyPublisher :: "string \<Rightarrow> string \<Rightarrow> publisher" where
  [simp]: "newLocalLegacyPublisher apm dsd = LocalLegacyPublisher \<lparr>apmSocketPath = apm, dsdSocketPath = dsd\<rparr>"

definition newUnmountPublisher :: publisher where
  [simp]: "newUnmountPublisher = UnmountPublisher"

text \<open>The first publisher that gives a response ends the chain; errors without one are logged.\<close>

fun chain :: "('p \<Rightarrow> 's \<Rightarrow> outcome \<times> 's) \<Rightarrow> 'p list \<Rightarrow> 's \<Rightarrow> outcome \<times> 's" where
  "chain call [] st = ((None, None), st)"
| "chain call (p # ps) st =
     (case call p st of
        ((Some resp, err), st') \<Rightarrow> ((Some resp, err), st')
      | ((None, err), st') \<Rightarrow> chain call ps st')"

definition chain_Publish ::
  "('h, 'r, 'd, 'n) library_manager \<Rightarrow> publisher list \<Rightarrow> publish_request \<Rightarrow> ('h, 'd, 'n) pstate \<Rightarrow>
   outcome \<times> ('h, 'd, 'n) pstate" where
  "chain_Publish M ps req = chain (\<lambda>p. Publish M p req) ps"

definition chain_Unpublish ::
  "('h, 'r, 'd, 'n) library_manager \<Rightarrow> publisher list \<Rightarrow> unpublish_request \<Rightarrow> ('h, 'd, 'n) pstate \<Rightarrow>
   outcome \<times> ('h, 'd, 'n) pstate" where
  "chain_Unpublish M ps req = chain (\<lambda>p. Unpublish M p req) ps"

definition newChainPublisher :: "publisher list \<Rightarrow> publisher list" where
  [simp]: "newChainPublisher ps = ps"

definition GetPublishers :: "socket_paths \<Rightarrow> string \<Rightarrow> bool \<Rightarrow> string list \<Rightarrow> publisher list" where
  "GetPublishers paths storageBasePath apmEnabled registries =
     (let apm = apmSocketPath paths; dsd = dsdSocketPath paths in
      newChainPublisher
        ((if storageBasePath \<noteq> [] then
            [newLibraryPublisher (\<not> apmEnabled) registries,
             newInjectorPreloadPublisher storageBasePath (\<not> apmEnabled)]
          else []) @
         [newSocketPublisher apm dsd, newLocalPublisher apm dsd, newSocketLegacyPublisher apm dsd,
          newLocalLegacyPublisher apm dsd, newUnmountPublisher]))"

lemma GetPublishers_eq:
  "GetPublishers paths storageBasePath apmEnabled registries =
     (if storageBasePath \<noteq> [] then
        [LibraryPublisher \<lparr>lp_disabled = \<not> apmEnabled, allowedRegistries = registries\<rparr>,
         InjectorPreloadPublisher
           \<lparr>preloadFilePath = path_join [storageBasePath, ''ld.so.preload''], ip_disabled = \<not> apmEnabled\<rparr>]
      else []) @
     [SocketPublisher paths, LocalPublisher paths, SocketLegacyPublisher paths, LocalLegacyPublisher paths,
      UnmountPublisher]"
proof -
  have "\<lparr>apmSocketPath = apmSocketPath paths, dsdSocketPath = dsdSocketPath paths\<rparr> = paths" by simp
  then show ?thesis by (simp add: GetPublishers_def Let_def)
qed

end
