(* ===== verification/Lib_Manager_Safety.thy ===== *)
theory Lib_Manager_Safety
  imports Lib_Manager
begin

text \<open>
  What the library manager keeps: a library that a volume is linked to stays on disk, the
  volume keeps its library, and the counts of the database stay true.
\<close>

section \<open>The invariant\<close>

abbreviation lm_ledger :: "('h, 'r, 'd, 'n) library_manager \<Rightarrow> ('h, 'd, 'n) world \<Rightarrow> ledger" where
  "lm_ledger M w \<equiv> ledger_of (lm_json M) (lm_db M) (w_db w)"

abbreviation lm_held :: "('h, 'r, 'd, 'n) library_manager \<Rightarrow> ('h, 'd, 'n) world \<Rightarrow> string \<Rightarrow> bool" where
  "lm_held M w \<equiv> held (lm_fs M) (lm_store M) (w_host w)"

definition links_held :: "('h, 'r, 'd, 'n) library_manager \<Rightarrow> ('h, 'd, 'n) world \<Rightarrow> bool" where
  "links_held M w \<longleftrightarrow>
     (\<forall>v r. lg_vols (lm_ledger M w) v = Some r \<longrightarrow> plain (LibraryID r) \<and> lm_held M w (LibraryID r))"

definition cache_for :: "(string \<Rightarrow> bool) \<Rightarrow> image_cache \<Rightarrow> bool" where
  "cache_for P c \<longleftrightarrow> (\<forall>i e. c i = Some e \<longrightarrow> P (cached_value e))"

abbreviation cache_plain :: "image_cache \<Rightarrow> bool" where
  "cache_plain \<equiv> cache_for plain"

lemma lookup_for:
  "cache_lookup N pull img c n = (d, c1, n1) \<Longrightarrow> cache_for P c \<Longrightarrow> cache_for P c1 \<and> (d \<noteq> [] \<longrightarrow> P d)"
  by (auto simp: cache_lookup_def digestFromCache_def cache_for_def Let_def
      split: if_splits prod.splits option.splits)

lemma cached_for: "cache_for P c \<Longrightarrow> P d \<Longrightarrow> cache_for P (cacheDigest now ttl img d c)"
  by (simp add: cacheDigest_def cache_for_def)

definition safe :: "('h, 'r, 'd, 'n) library_manager \<Rightarrow> ('h, 'd, 'n) world \<Rightarrow> bool" where
  "safe M w \<longleftrightarrow>
     db_ok (lm_json M) (lm_db M) (w_db w) \<and> consistent (lm_ledger M w) \<and> links_held M w \<and>
     cache_plain (w_cache w)"

lemma note_act_fields [simp]:
  "w_host (note_act x w) = w_host w" "w_db (note_act x w) = w_db w" "w_net (note_act x w) = w_net w"
  "w_cache (note_act x w) = w_cache w" "w_log (note_act x w) = w_log w @ [x]"
  by (simp_all add: note_act_def)

lemma cleanup_event_fields [simp]:
  "w_host (cleanup_event M p st w) = w_host w" "w_db (cleanup_event M p st w) = w_db w"
  "w_cache (cleanup_event M p st w) = w_cache w"
  by (simp_all add: cleanup_event_def)

lemma safe_cong:
  "w_host w' = w_host w \<Longrightarrow> w_db w' = w_db w \<Longrightarrow> w_cache w' = w_cache w \<Longrightarrow> safe M w' = safe M w"
  by (simp add: safe_def links_held_def)

lemma safe_note [simp]: "safe M (note_act x w) = safe M w"
  by (rule safe_cong) simp_all

lemma clock_fields:
  "clock M w = (t, w') \<Longrightarrow> w_host w' = w_host w \<and> w_db w' = w_db w \<and> w_cache w' = w_cache w \<and> w_log w' = w_log w"
  by (auto simp: clock_def split: prod.splits)

lemma with_lock_result: "with_lock k f w = (r, w'') \<Longrightarrow>
  \<exists>w'. f (note_act (LockAct k) w) = (r, w') \<and> w'' = note_act (UnlockAct k) w'"
  by (auto simp: with_lock_def split: prod.splits)

text \<open>The strategy of a manager meets the contract, whichever it is.\<close>

fun strategy_ok :: "strategy \<Rightarrow> bool" where
  "strategy_ok Immediate = True"
| "strategy_ok (Delayed s) = delayed_ok s"

fun strategy_owes :: "strategy \<Rightarrow> string \<Rightarrow> bool" where
  "strategy_owes Immediate l = False"
| "strategy_owes (Delayed s) l = delayed_owes s l"

interpretation strat: cleanup_strategy strategy_ok strategy_owes ScheduleCleanup strategy_Stop
proof (unfold_locales, goal_cases)
  case (1 s call f l w s' w')
  show ?case
  proof (cases s)
    case Immediate
    then show ?thesis using 1 by (auto simp: immediate_ScheduleCleanup_def)
  next
    case (Delayed t)
    obtain t' where t': "delayed_ScheduleCleanup call f l (t, w) = (t', w')" "s' = Delayed t'"
      using 1(2) Delayed by (auto split: prod.splits)
    have "delayed_ok t" using 1(1) Delayed by simp
    from delayed.schedule_runs [OF this t'(1)] show ?thesis using t'(2) Delayed by auto
  qed
next
  case (2 s k call f l w)
  show ?case
  proof (cases s)
    case Immediate
    then show ?thesis using 2 by simp
  next
    case (Delayed t)
    obtain t' w' where t': "delayed_ScheduleCleanup call f l (t, w) = (t', w')" by force
    have "delayed_owes t k" using 2 Delayed by simp
    from schedule_keeps_owed [OF this, of call f l w] show ?thesis using t' Delayed by simp
  qed
next
  case (3 s order call w s' w')
  show ?case
  proof (cases s)
    case Immediate
    then show ?thesis using 3 by (simp add: immediate_Stop_def)
  next
    case (Delayed t)
    obtain t' where t': "delayed_Stop call order (t, w) = (t', w')" "s' = Delayed t'"
      using 3(4) Delayed by (auto split: prod.splits)
    have "delayed_ok t" "set order = {l. delayed_owes t l}" using 3 Delayed by simp_all
    from delayed.stop_runs [OF this(1) 3(2) this(2) t'(1)] show ?thesis using t'(2) by simp
  qed
qed

text \<open>The timers of a strategy are for libraries with proper names.\<close>

definition delayed_for :: "(string \<Rightarrow> bool) \<Rightarrow> unit delayed \<Rightarrow> bool" where
  "delayed_for P s \<longleftrightarrow> (\<forall>x\<in>set (armed s) \<union> set (waiting s) \<union> set (running s). P (tm_library x))"

fun timers_for :: "(string \<Rightarrow> bool) \<Rightarrow> strategy \<Rightarrow> bool" where
  "timers_for P Immediate = True"
| "timers_for P (Delayed s) = delayed_for P s"

abbreviation timers_plain :: "strategy \<Rightarrow> bool" where
  "timers_plain \<equiv> timers_for plain"

lemma timers_for_schedule:
  assumes "ScheduleCleanup call f l (s, w) = (s', w')" "timers_for P s" "P l"
  shows "timers_for P s'"
proof (cases s)
  case Immediate
  then show ?thesis using assms by auto
next
  case (Delayed t)
  then show ?thesis
    using assms
    by (auto simp: delayed_for_def delayed_ScheduleCleanup_def after_func_def stop_timer_def Let_def
        split: if_splits option.splits prod.splits)
qed

lemma delayed_for_expire: "delayed_for P s \<Longrightarrow> delayed_for P (timer_expire t s)"
  by (auto simp: delayed_for_def timer_expire_def)

lemma delayed_for_claim: "delayed_for P s \<Longrightarrow> delayed_for P (callback_claim x s)"
  by (auto simp: delayed_for_def callback_claim_def Let_def dest: notin_set_remove1 split: option.splits)

lemma delayed_for_run: "delayed_for P s \<Longrightarrow> delayed_for P (fst (callback_run call x (s, w)))"
  by (auto simp: delayed_for_def callback_run_def dest: notin_set_remove1)

text \<open>
  A manager whose database and store meet their contracts, whose scratch directory lies in the
  storage directory beside the store, and whose registry client returns well-formed digests.
\<close>

locale manager = lib_database "lm_db M" "lm_json M" + lib_store "lm_fs M" base "lm_store M"
  for M :: "('h, 'r, 'd, 'n) library_manager" and base :: string +
  assumes scratch_clean: "clean_abs (lm_scratchDir M)"
    and scratch_below: "below base (lm_scratchDir M)"
    and scratch_apart: "unrelated (lm_store M) (lm_scratchDir M)"
    and digest_plain:
      "crane_digest (lm_net M) n img = (Inr d, n') \<Longrightarrow> has_prefix d ''sha256:'' \<Longrightarrow>
       plain (trim_prefix d ''sha256:'')"
begin

lemma store_of:
  "item_store (held (lm_fs M) (lm_store M)) (store_path (lm_store M)) (scratch_src base (lm_store M))
     (store_add (lm_fs M) (lm_store M)) (store_get (lm_fs M) (lm_store M)) (store_remove (lm_fs M) (lm_store M))"
  by unfold_locales

section \<open>Downloading\<close>

lemma temp_scratch:
  assumes "os_temp_dir (lm_fs M) h (lm_scratchDir M) pat = (Inr p, h')"
  shows "scratch_src base (lm_store M) p"
proof -
  obtain w where w: "plain w" "p = path_join [lm_scratchDir M, w]"
    using temp_dir_fresh [OF scratch_clean scratch_below assms] by blast
  then have "clean_abs p" "below (lm_scratchDir M) p"
    using scratch_clean by (auto simp: clean_abs_join below_join)
  moreover have "below base p" using scratch_below calculation(2) below_trans by blast
  moreover have "unrelated (lm_store M) p"
    using unrelated_below [OF unrelated_sym [OF scratch_apart] calculation(2)] by (rule unrelated_sym)
  ultimately show ?thesis by (simp add: scratch_src_def)
qed

lemma temp_keeps:
  assumes "os_temp_dir (lm_fs M) h (lm_scratchDir M) pat = (r, h')" "plain j"
  shows "held (lm_fs M) (lm_store M) h' j = held (lm_fs M) (lm_store M) h j"
proof (rule same_held)
  have "unrelated (lm_scratchDir M) (store_path (lm_store M) j)"
    using unrelated_below [OF scratch_apart item_below_sdir [OF assms(2)]] by (rule unrelated_sym)
  then have "same_at (lm_fs M) h (snd (os_temp_dir (lm_fs M) h (lm_scratchDir M) pat)) (store_path (lm_store M) j)"
    using scratch_clean scratch_below assms(2)
    by (intro temp_dir_frame) (simp_all add: item_clean item_below)
  then show "same_at (lm_fs M) h h' (store_path (lm_store M) j)" using assms(1) by simp
qed

lemma download_keeps:
  assumes "Download (lm_fs M) N wd img p h n = (r, h', n')" "scratch_src base (lm_store M) p" "plain j"
  shows "held (lm_fs M) (lm_store M) h' j = held (lm_fs M) (lm_store M) h j"
proof (rule same_held)
  have "same_at (lm_fs M) h (fst (snd (Download (lm_fs M) N wd img p h n))) (store_path (lm_store M) j)"
    using assms(2,3) scratch_unrelated [OF assms(3,2)]
    by (intro Download_frame) (simp_all add: item_clean item_below scratch_src_def)
  then show "same_at (lm_fs M) h h' (store_path (lm_store M) j)" using assms(1) by simp
qed

lemma download_into_facts:
  assumes "download_into M i lib img p w = (r, w')" "plain i" "scratch_src base (lm_store M) p"
  shows "w_db w' = w_db w \<and> w_cache w' = w_cache w \<and>
    (\<forall>j. plain j \<longrightarrow> lm_held M w j \<longrightarrow> lm_held M w' j) \<and>
    (\<forall>q n. r = Inr (q, n) \<longrightarrow> q = store_path (lm_store M) i \<and> lm_held M w' i)"
proof -
  obtain t0 w1 where w1: "clock M w = (t0, w1)" by force
  obtain dr h n where d: "Download (lm_fs M) (lm_net M) (lm_getwd M) img p (w_host w1) (w_net w1) = (dr, h, n)"
    using prod_cases3 by blast
  let ?w2 = "w1\<lparr>w_host := h, w_net := n\<rparr>"
  have keep2: "plain j \<Longrightarrow> held (lm_fs M) (lm_store M) h j = lm_held M w j" for j
    using download_keeps [OF d assms(3)] clock_fields [OF w1] by simp
  show ?thesis
  proof (cases dr)
    case (Inl e)
    then show ?thesis
      using assms(1) w1 d keep2 clock_fields [OF w1] by (auto simp: download_into_def)
  next
    case (Inr bytes)
    obtain t w3 where w3: "clock M ?w2 = (t, w3)" by force
    obtain added h' where a: "store_add (lm_fs M) (lm_store M) (w_host w3) i p = (added, h')" by force
    have w': "w_host w' = h' \<and> w_db w' = w_db w \<and> w_cache w' = w_cache w \<and>
        r = map_sum id (\<lambda>q. (q, bytes)) added"
      using assms(1) w1 d Inr w3 a clock_fields [OF w1] clock_fields [OF w3]
      by (auto simp: download_into_def)
    have h3: "w_host w3 = h" using clock_fields [OF w3] by simp
    have keeps: "lm_held M w' j" if "plain j" "lm_held M w j" for j
      using add_keeps [OF assms(2) that(1) assms(3), of "w_host w3"] that keep2 [OF that(1)] a h3 w' by simp
    have "q = store_path (lm_store M) i \<and> lm_held M w' i" if "r = Inr (q, k)" for q k
      using add_Inr [OF assms(2,3), of "w_host w3" q h'] that w' a by (cases added) auto
    then show ?thesis using w' keeps by blast
  qed
qed

lemma downloadToStore_facts:
  assumes "downloadToStore M i lib img w = (r, w')" "plain i"
  shows "w_db w' = w_db w \<and> w_cache w' = w_cache w \<and>
    (\<forall>j. plain j \<longrightarrow> lm_held M w j \<longrightarrow> lm_held M w' j) \<and>
    (\<forall>q n. r = Inr (q, n) \<longrightarrow> q = store_path (lm_store M) i \<and> lm_held M w' i)"
proof -
  obtain temp h where temp: "os_temp_dir (lm_fs M) (w_host w) (lm_scratchDir M) ''datadog-csi-driver-*'' = (temp, h)"
    by force
  show ?thesis
  proof (cases temp)
    case (Inl e)
    then show ?thesis using assms(1) temp temp_keeps [OF temp] by (auto simp: downloadToStore_def)
  next
    case (Inr p)
    have p: "scratch_src base (lm_store M) p" using temp_scratch temp Inr by blast
    obtain w2 where w2: "download_into M i lib img p (w\<lparr>w_host := h\<rparr>) = (r, w2)"
        "w' = w2\<lparr>w_host := snd (os_remove_all (lm_fs M) (w_host w2) p)\<rparr>"
      using assms(1) temp Inr by (auto simp: downloadToStore_def split: prod.splits)
    have "plain j \<Longrightarrow> lm_held M w' j = lm_held M w2 j" for j
      using remove_all_scratch_held [OF _ p] w2(2) by simp
    then show ?thesis
      using download_into_facts [OF w2(1) assms(2) p] temp_keeps [OF temp] w2(2) assms(2) by auto
  qed
qed

section \<open>Linking\<close>

lemma linkVolume_facts:
  assumes "linkVolume M l v p fc w = (r, w')" "db_ok (lm_json M) (lm_db M) (w_db w)"
  shows "w_host w' = w_host w \<and> w_cache w' = w_cache w \<and> db_ok (lm_json M) (lm_db M) (w_db w') \<and>
    (case r of
       Inl e \<Rightarrow> lm_ledger M w' = lm_ledger M w
     | Inr _ \<Rightarrow> l \<noteq> [] \<and> v \<noteq> [] \<and> (\<exists>now. lm_ledger M w' = lg_link now l v fc (lm_ledger M w)))"
proof -
  obtain now w1 where w1: "clock M w = (now, w1)" by force
  obtain lr d where d: "LinkVolume (lm_json M) (lm_db M) now l v fc (w_db w1) = (lr, d)" by force
  have db: "w_db w1 = w_db w" using clock_fields [OF w1] by simp
  show ?thesis
  proof (cases lr)
    case (Inl e)
    then show ?thesis
      using assms w1 d db clock_fields [OF w1] link_Inl [OF assms(2), of now l v fc e d]
      by (auto simp: linkVolume_def)
  next
    case (Inr u)
    have r: "r = Inr ()" "w_host w' = w_host w" "w_cache w' = w_cache w" "w_db w' = d"
      using assms(1) w1 d Inr clock_fields [OF w1] by (auto simp: linkVolume_def Let_def split: prod.splits)
    then show ?thesis using d db Inr link_Inr [OF assms(2), of now l v fc d] by auto
  qed
qed

text \<open>Linking a volume that has no library to one that is on disk keeps the invariant.\<close>

lemma link_safe:
  assumes "linkVolume M l v p fc w = (r, w')" "safe M w" "plain l" "lm_held M w l"
    and "int (card (dom (lg_vols (lm_ledger M w)))) + 1 < 2 ^ 63"
  shows "safe M w' \<and> lg_vols (lm_ledger M w) \<subseteq>\<^sub>m lg_vols (lm_ledger M w') \<and>
    (\<forall>u. u \<noteq> v \<longrightarrow> lg_vols (lm_ledger M w') u = lg_vols (lm_ledger M w) u) \<and>
    (\<forall>x. r = Inr x \<longrightarrow> lg_vols (lm_ledger M w) v = None \<longrightarrow>
       (\<exists>rec. lg_vols (lm_ledger M w') v = Some rec \<and> LibraryID rec = l))"
proof -
  have db: "db_ok (lm_json M) (lm_db M) (w_db w)" and con: "consistent (lm_ledger M w)"
    using assms(2) by (simp_all add: safe_def)
  note f = linkVolume_facts [OF assms(1) db]
  show ?thesis
  proof (cases r)
    case (Inl e)
    then show ?thesis using f assms(2) by (auto simp: safe_def links_held_def)
  next
    case (Inr x)
    then obtain now where L: "lm_ledger M w' = lg_link now l v fc (lm_ledger M w)" "l \<noteq> []" "v \<noteq> []"
      using f by auto
    have "consistent (lm_ledger M w')"
      unfolding L(1) using con L(2,3) assms(5) by (intro consistent_link)
    moreover have "links_held M w'"
      using f assms(2,3,4) L(1) by (auto simp: links_held_def safe_def lg_link_def)
    ultimately show ?thesis
      using f assms(2) L(1) by (auto simp: safe_def lg_link_def map_le_def)
  qed
qed

text \<open>A larger set of held libraries keeps the links held.\<close>

lemma safe_more_held:
  assumes "safe M w" "w_db w' = w_db w" "w_cache w' = w_cache w"
    and "\<And>j. plain j \<Longrightarrow> lm_held M w j \<Longrightarrow> lm_held M w' j"
  shows "safe M w'"
  using assms by (auto simp: safe_def links_held_def)

lemma add_safe:
  assumes "AddLibrary (lm_json M) (lm_db M) l p n (w_db w) = (r, d)" "safe M w"
  shows "safe M (w\<lparr>w_db := d\<rparr>) \<and>
    lg_vols (lm_ledger M (w\<lparr>w_db := d\<rparr>)) = lg_vols (lm_ledger M w)"
proof -
  have db: "db_ok (lm_json M) (lm_db M) (w_db w)" and con: "consistent (lm_ledger M w)"
    using assms(2) by (simp_all add: safe_def)
  have "db_ok (lm_json M) (lm_db M) d" "consistent (ledger_of (lm_json M) (lm_db M) d)"
    using add_consistent [OF db con, of l p n] assms(1) by simp_all
  moreover have vols: "lg_vols (ledger_of (lm_json M) (lm_db M) d) = lg_vols (lm_ledger M w)"
    using add_vols [OF db, of l p n] assms(1) by simp
  ultimately show ?thesis using assms(2) by (auto simp: safe_def links_held_def)
qed

section \<open>Resolving a volume\<close>

lemma stored_path_cases:
  assumes "stored_path M i w = Inr p" "plain i"
  shows "p = [] \<and> \<not> lm_held M w i \<or> p = store_path (lm_store M) i \<and> p \<noteq> [] \<and> lm_held M w i"
proof (cases "store_get (lm_fs M) (lm_store M) (w_host w) i")
  case (Inl e)
  then have "p = []" using assms(1) by (simp add: stored_path_def split: if_splits)
  moreover have "\<not> lm_held M w i" using Inl get_Inr [OF assms(2), of "w_host w"] by auto
  ultimately show ?thesis by simp
next
  case (Inr q)
  then show ?thesis
    using assms get_Inr [OF assms(2), of "w_host w" q] loc_nonempty [OF assms(2)]
    by (simp add: stored_path_def)
qed

lemma stored_path_held: "plain i \<Longrightarrow> lm_held M w i \<Longrightarrow> stored_path M i w = Inr (store_path (lm_store M) i)"
  using get_Inr [of i "w_host w" "store_path (lm_store M) i"] by (simp add: stored_path_def)

text \<open>The outcome of resolving a volume: what a caller that got a path may rely on.\<close>

definition resolved :: "string \<Rightarrow> string \<Rightarrow> ('h, 'd, 'n) world \<Rightarrow> bool" where
  "resolved v p w \<longleftrightarrow>
     (\<exists>rec. lg_vols (lm_ledger M w) v = Some rec \<and> p = store_path (lm_store M) (LibraryID rec) \<and>
        lm_held M w (LibraryID rec))"

lemma reuse_linked_safe:
  assumes "reuse_linked M l lib w = (r, w')" "safe M w" "lg_vols (lm_ledger M w) v = Some rec"
    and "LibraryID rec = l"
  shows "safe M w' \<and> lg_vols (lm_ledger M w') = lg_vols (lm_ledger M w) \<and>
    (\<forall>p res. r = Inr (p, res) \<longrightarrow> resolved v p w')"
proof -
  have l: "plain l" using assms(2,3,4) by (auto simp: safe_def links_held_def)
  show ?thesis
  proof (cases "stored_path M l w")
    case (Inl e)
    then show ?thesis using assms by (auto simp: reuse_linked_def)
  next
    case (Inr path)
    show ?thesis
    proof (cases "path = []")
      case False
      then have "path = store_path (lm_store M) l" "lm_held M w l"
        using stored_path_cases [OF Inr l] by auto
      then show ?thesis using assms Inr False by (auto simp: reuse_linked_def resolved_def)
    next
      case True
      define img where "img = lib_registry lib @ ''/'' @ lib_name lib @ ''@sha256:'' @ l"
      obtain dr w1 where d: "downloadToStore M l lib img w = (dr, w1)" by force
      note f = downloadToStore_facts [OF d l]
      have w': "w' = w1" "r = map_sum id (\<lambda>(q, _). (q, ResolutionDownloaded)) dr"
        using assms(1) Inr True d by (auto simp: reuse_linked_def img_def)
      have "safe M w'" using f w' by (intro safe_more_held [OF assms(2)]) auto
      then show ?thesis
        using f w' assms(3,4) by (cases dr) (auto simp: resolved_def)
    qed
  qed
qed

text \<open>
  The part of the invariant a resolution of \<open>v\<close> keeps: every volume that had a library keeps
  it, and no other volume gets one.
\<close>

definition grows :: "string \<Rightarrow> ('h, 'd, 'n) world \<Rightarrow> ('h, 'd, 'n) world \<Rightarrow> bool" where
  "grows v w w' \<longleftrightarrow>
     lg_vols (lm_ledger M w) \<subseteq>\<^sub>m lg_vols (lm_ledger M w') \<and>
     (\<forall>u. u \<noteq> v \<longrightarrow> lg_vols (lm_ledger M w') u = lg_vols (lm_ledger M w) u)"

lemma grows_refl [simp]: "grows v w w"
  by (simp add: grows_def)

lemma grows_same: "lg_vols (lm_ledger M w') = lg_vols (lm_ledger M w) \<Longrightarrow> grows v w w'"
  by (simp add: grows_def)

lemma grows_db: "w_db w1 = w_db w \<Longrightarrow> w_db w1' = w_db w' \<Longrightarrow> grows v w1 w1' = grows v w w'"
  by (simp add: grows_def)

lemma resolved_cong: "w_db w' = w_db w \<Longrightarrow> w_host w' = w_host w \<Longrightarrow> resolved v p w' = resolved v p w"
  by (simp add: resolved_def)

lemma download_and_link_safe:
  assumes "download_and_link M l v lib w = (r, w')" "safe M w" "plain l"
    and "lg_vols (lm_ledger M w) v = None"
    and "int (card (dom (lg_vols (lm_ledger M w)))) + 1 < 2 ^ 63"
  shows "safe M w' \<and> grows v w w' \<and> (\<forall>p res. r = Inr (p, res) \<longrightarrow> resolved v p w')"
proof -
  obtain dr w1 where d: "downloadToStore M l lib (Image lib) w = (dr, w1)" by force
  note f = downloadToStore_facts [OF d assms(3)]
  have safe1: "safe M w1" using f by (intro safe_more_held [OF assms(2)]) auto
  show ?thesis
  proof (cases dr)
    case (Inl e)
    then show ?thesis
      using assms(1) d safe1 f by (auto simp: download_and_link_def intro!: grows_same)
  next
    case (Inr q)
    obtain path bytes where q: "q = (path, bytes)" by force
    have path: "path = store_path (lm_store M) l" "lm_held M w1 l" using f Inr q by auto
    obtain ar db where a: "AddLibrary (lm_json M) (lm_db M) l (lib_name lib) bytes (w_db w1) = (ar, db)"
      by force
    let ?w2 = "w1\<lparr>w_db := db\<rparr>"
    note add = add_safe [OF a safe1]
    show ?thesis
    proof (cases ar)
      case ae: (Inl e)
      then show ?thesis
        using assms(1) d Inr q a add f by (auto simp: download_and_link_def intro!: grows_same)
    next
      case (Inr u)
      obtain c t k where st: "packageStats M (lib_name lib) ?w2 = (c, t, k)" using prod_cases3 by blast
      let ?w3 = "note_act (Emit (OnLibraryCached (lib_name lib) c t)) ?w2"
      obtain lr w4 where l4: "linkVolume M l v (lib_name lib) False ?w3 = (lr, w4)" by force
      have "int (card (dom (lg_vols (lm_ledger M ?w3)))) + 1 < 2 ^ 63" using add f assms(5) by simp
      moreover have "lm_held M ?w3 l" using path by simp
      ultimately have link: "safe M w4" "lg_vols (lm_ledger M ?w3) \<subseteq>\<^sub>m lg_vols (lm_ledger M w4)"
          "\<forall>u. u \<noteq> v \<longrightarrow> lg_vols (lm_ledger M w4) u = lg_vols (lm_ledger M ?w3) u"
          "\<forall>x. lr = Inr x \<longrightarrow> lg_vols (lm_ledger M ?w3) v = None \<longrightarrow>
             (\<exists>rec. lg_vols (lm_ledger M w4) v = Some rec \<and> LibraryID rec = l)"
        using link_safe [OF l4 _ assms(3)] add by simp_all
      have vols: "lg_vols (lm_ledger M ?w3) = lg_vols (lm_ledger M w)" using add f by simp
      have host: "w_host w4 = w_host w1"
        using linkVolume_facts [OF l4] add by (simp add: safe_def)
      have w': "w' = w4" "r = map_sum id (\<lambda>_. (path, ResolutionDownloaded)) lr"
        using assms(1) d \<open>dr = Inr q\<close> q a Inr st l4
        by (auto simp: download_and_link_def split: sum.splits)
      have "resolved v p w'" if "r = Inr (p, res)" for p res
        using that w' link(4) vols assms(4) path host by (cases lr) (auto simp: resolved_def)
      moreover have "grows v w w'" using w' link(2,3) vols by (simp add: grows_def)
      ultimately show ?thesis using link(1) w'(1) by blast
    qed
  qed
qed

lemma resolve_new_safe:
  assumes "resolve_new M l v lib w = (r, w')" "safe M w" "plain l"
    and "lg_vols (lm_ledger M w) v = None"
    and "int (card (dom (lg_vols (lm_ledger M w)))) + 1 < 2 ^ 63"
  shows "safe M w' \<and> grows v w w' \<and> (\<forall>p res. r = Inr (p, res) \<longrightarrow> resolved v p w')"
proof (cases "stored_path M l w")
  case (Inl e)
  then show ?thesis using assms by (auto simp: resolve_new_def)
next
  case (Inr path)
  show ?thesis
  proof (cases "path = []")
    case True
    then show ?thesis
      using download_and_link_safe [OF _ assms(2-5), of lib r w'] assms(1) Inr by (simp add: resolve_new_def)
  next
    case False
    then have path: "path = store_path (lm_store M) l" "lm_held M w l"
      using stored_path_cases [OF Inr assms(3)] by auto
    obtain lr w1 where l: "linkVolume M l v (lib_name lib) True w = (lr, w1)" by force
    note link = link_safe [OF l assms(2,3) path(2) assms(5)]
    have host: "w_host w1 = w_host w"
      using linkVolume_facts [OF l] assms(2) by (simp add: safe_def)
    have w': "w' = w1" "r = map_sum id (\<lambda>_. (path, ResolutionCacheHit)) lr"
      using assms(1) Inr False l by (auto simp: resolve_new_def split: sum.splits)
    have "resolved v p w'" if "r = Inr (p, res)" for p res
      using that w' link assms(4) path host by (cases lr) (auto simp: resolved_def)
    then show ?thesis using link w' by (auto simp: grows_def)
  qed
qed

text \<open>Digests that come out of the cache or the registry are plain names.\<close>

lemma fetched_plain: "downloader_FetchDigest (lm_net M) img n = (Inr d, n') \<Longrightarrow> plain d"
  using digest_plain by (auto simp: downloader_FetchDigest_def split: prod.splits sum.splits if_splits)

lemma digest_ok:
  assumes "FetchDigest (lm_net M) ttl img pull c n = (r, c', n')" "cache_plain c"
  shows "cache_plain c' \<and> (\<forall>d. r = Inr d \<longrightarrow> plain d)"
proof -
  show ?thesis
  proof (cases "parse_reference (lm_net M) img")
    case (Some e)
    then show ?thesis using assms by (auto simp: FetchDigest_def)
  next
    case None
    obtain d c1 n1 where l: "cache_lookup (lm_net M) pull img c n = (d, c1, n1)" using prod_cases3 by blast
    obtain dr n2 where f: "downloader_FetchDigest (lm_net M) img n1 = (dr, n2)" by force
    obtain now n3 where t: "time_now (lm_net M) n2 = (now, n3)" by force
    have "\<forall>x. dr = Inr x \<longrightarrow> plain x" using fetched_plain f by blast
    then show ?thesis
      using assms(1) None l f t lookup_for [OF l assms(2)] cached_for
      by (cases "d = []"; cases dr) (auto simp: FetchDigest_def)
  qed
qed

text \<open>One call of the manager for a volume.\<close>

lemma volume_of:
  assumes "db_GetLibraryForVolume (lm_json M) (lm_db M) v (w_db w) = Inr l" "safe M w"
  shows "(l = [] \<longleftrightarrow> lg_vols (lm_ledger M w) v = None) \<and>
    (\<forall>rec. lg_vols (lm_ledger M w) v = Some rec \<longrightarrow> LibraryID rec = l)"
proof -
  have "consistent (lm_ledger M w)" "db_ok (lm_json M) (lm_db M) (w_db w)"
    using assms(2) by (simp_all add: safe_def)
  then show ?thesis
    using GetLibraryForVolume_ok [OF _ assms(1)] by (auto simp: consistent_def split: option.splits)
qed

lemma resolve_volume_safe:
  assumes "resolve_volume M v lib w = (r, w')" "safe M w"
    and "int (card (dom (lg_vols (lm_ledger M w)))) + 1 < 2 ^ 63"
  shows "safe M w' \<and> grows v w w' \<and> (\<forall>p res. r = Inr (p, res) \<longrightarrow> resolved v p w')"
proof (cases "db_GetLibraryForVolume (lm_json M) (lm_db M) v (w_db w)")
  case (Inl e)
  then show ?thesis using assms by (auto simp: resolve_volume_def)
next
  case (Inr l)
  note vol = volume_of [OF Inr assms(2)]
  show ?thesis
  proof (cases "l = []")
    case False
    then obtain rec where rec: "lg_vols (lm_ledger M w) v = Some rec" "LibraryID rec = l"
      using vol by auto
    obtain w1 where w1: "reuse_linked M l lib (note_act (LockAct l) w) = (r, w1)" "w' = note_act (UnlockAct l) w1"
      using assms(1) Inr False with_lock_result [of l "reuse_linked M l lib" w r w'] by (auto simp: resolve_volume_def)
    have "safe M w1 \<and> lg_vols (lm_ledger M w1) = lg_vols (lm_ledger M w) \<and>
        (\<forall>p res. r = Inr (p, res) \<longrightarrow> resolved v p w1)"
      using reuse_linked_safe [OF w1(1), of v rec] assms(2) rec by simp
    then show ?thesis using w1(2) by (auto simp: grows_def resolved_def)
  next
    case True
    then have none: "lg_vols (lm_ledger M w) v = None" using vol by simp
    obtain fr c n where f: "FetchDigest (lm_net M) (lm_ttl M) (Image lib) (lib_pull lib) (w_cache w) (w_net w) = (fr, c, n)"
      using prod_cases3 by blast
    let ?w1 = "w\<lparr>w_cache := c, w_net := n\<rparr>"
    have dig: "cache_plain c" "\<And>d. fr = Inr d \<Longrightarrow> plain d"
      using digest_ok [OF f] assms(2) by (simp_all add: safe_def)
    have safe1: "safe M ?w1" using assms(2) dig(1) by (simp add: safe_def links_held_def)
    show ?thesis
    proof (cases fr)
      case fe: (Inl e)
      then show ?thesis
        using assms(1) Inr True f safe1 by (auto simp: resolve_volume_def grows_def)
    next
      case fd: (Inr d)
      obtain w2 where w2: "resolve_new M d v lib (note_act (LockAct d) ?w1) = (r, w2)"
          "w' = note_act (UnlockAct d) w2"
        using assms(1) Inr True f fd with_lock_result [of d "resolve_new M d v lib" ?w1 r w']
        by (auto simp: resolve_volume_def)
      have "safe M w2 \<and> grows v (note_act (LockAct d) ?w1) w2 \<and>
          (\<forall>p res. r = Inr (p, res) \<longrightarrow> resolved v p w2)"
        using resolve_new_safe [OF w2(1)] safe1 dig(2) [OF fd] none assms(3) by simp
      then show ?thesis using w2(2) by (simp add: grows_def resolved_def)
    qed
  qed
qed

lemma get_library_safe:
  assumes "lm_GetLibraryForVolume M v lib w = (r, w')" "safe M w"
    and "int (card (dom (lg_vols (lm_ledger M w)))) + 1 < 2 ^ 63"
  shows "safe M w' \<and> grows v w w' \<and> (\<forall>p. r = Inr p \<longrightarrow> resolved v p w')"
proof (cases "v = [] \<or> lib = None")
  case True
  then show ?thesis
    using assms by (auto simp: lm_GetLibraryForVolume_def Let_def grows_def split: if_splits option.splits)
next
  case False
  then obtain lb where lb: "lib = Some lb" "v \<noteq> []" by auto
  obtain rr w1 where w1: "with_lock (volumeLockKey v) (resolve_volume M v lb) w = (rr, w1)" by force
  obtain w2 where w2: "resolve_volume M v lb (note_act (LockAct (volumeLockKey v)) w) = (rr, w2)"
      "w1 = note_act (UnlockAct (volumeLockKey v)) w2"
    using with_lock_result [OF w1] by auto
  have R: "safe M w2 \<and> grows v (note_act (LockAct (volumeLockKey v)) w) w2 \<and>
      (\<forall>p res. rr = Inr (p, res) \<longrightarrow> resolved v p w2)"
    using resolve_volume_safe [OF w2(1)] assms(2,3) by simp
  have w': "r = map_sum id fst rr" "w_db w' = w_db w2" "w_host w' = w_host w2" "w_cache w' = w_cache w2"
    using assms(1) lb w1 w2(2) by (auto simp: lm_GetLibraryForVolume_def)
  have "safe M w' = safe M w2" by (rule safe_cong [OF w'(3,2,4)])
  moreover have "resolved v p w'" if "r = Inr p" for p
    using that w' R resolved_cong [OF w'(2,3), of v p] by (cases rr) auto
  moreover have "grows v w w'" using R w'(2) by (simp add: grows_def)
  ultimately show ?thesis using R by blast
qed

section \<open>Cleaning up\<close>

lemma remove_unused_safe:
  assumes "remove_unused M l info w = (r, w')" "safe M w" "plain l" "users (lm_ledger M w) l = {}"
  shows "safe M w' \<and> lg_vols (lm_ledger M w') = lg_vols (lm_ledger M w) \<and>
    (r = Inr () \<longrightarrow> \<not> lm_held M w' l \<and> lg_libs (lm_ledger M w') l = None)"
proof -
  obtain sr h where st: "store_remove (lm_fs M) (lm_store M) (w_host w) l = (sr, h)" by force
  have others: "LibraryID rec \<noteq> l" if "lg_vols (lm_ledger M w) v = Some rec" for v rec
    using assms(4) that by (auto simp: users_def)
  have keep: "held (lm_fs M) (lm_store M) h (LibraryID rec)"
    if "lg_vols (lm_ledger M w) v = Some rec" for v rec
  proof -
    have "plain (LibraryID rec)" "lm_held M w (LibraryID rec)"
      using assms(2) that by (auto simp: safe_def links_held_def)
    then show ?thesis
      using remove_other [OF assms(3), of "LibraryID rec" "w_host w"] others [OF that] st by simp
  qed
  have safe1: "safe M (w\<lparr>w_host := h\<rparr>)"
    using assms(2) keep by (auto simp: safe_def links_held_def)
  show ?thesis
  proof (cases sr)
    case (Inl e)
    then show ?thesis
      using assms(1) st safe1 by (auto simp: remove_unused_def cleanup_event_def)
  next
    case (Inr u)
    have gone: "\<not> held (lm_fs M) (lm_store M) h l"
      using remove_Inr [OF assms(3), of "w_host w" h] st Inr by simp
    obtain rr d where rl: "RemoveLibrary (lm_db M) l (w_db w) = (rr, d)" by force
    have db: "db_ok (lm_json M) (lm_db M) (w_db w)" "consistent (lm_ledger M w)"
      using assms(2) by (simp_all add: safe_def)
    have vols: "lg_vols (ledger_of (lm_json M) (lm_db M) d) = lg_vols (lm_ledger M w)"
      using remove_vols [OF db(1), of l] rl by simp
    have "db_ok (lm_json M) (lm_db M) d \<and> consistent (ledger_of (lm_json M) (lm_db M) d)"
      using remove_consistent [OF db assms(4)] rl by simp
    then have safe2: "safe M (w\<lparr>w_host := h, w_db := d\<rparr>)"
      using safe1 vols by (simp add: safe_def links_held_def)
    have w': "w_host w' = h" "w_db w' = d" "w_cache w' = w_cache w" "r = Inr () \<longleftrightarrow> rr = Inr ()"
      using assms(1) st Inr rl
      by (auto simp: remove_unused_def Let_def split: sum.splits prod.splits if_splits)
    have "safe M w' = safe M (w\<lparr>w_host := h, w_db := d\<rparr>)"
      by (rule safe_cong) (simp_all add: w')
    moreover have "rr = Inr () \<longrightarrow> lg_libs (ledger_of (lm_json M) (lm_db M) d) l = None"
      using remove_lib_Inr [OF db(1), of l d] rl by (auto simp: lg_remove_def)
    ultimately show ?thesis using safe2 w' vols gone by simp
  qed
qed

lemma tryCleanup_safe:
  assumes "tryCleanupLibrary M l w = (r, w')" "safe M w" "plain l"
  shows "safe M w' \<and> lg_vols (lm_ledger M w') = lg_vols (lm_ledger M w) \<and>
    (users (lm_ledger M w) l \<noteq> {} \<longrightarrow> w_host w' = w_host w \<and> w_db w' = w_db w) \<and>
    (r = Inr () \<longrightarrow> users (lm_ledger M w) l = {} \<longrightarrow> \<not> lm_held M w' l \<and> lg_libs (lm_ledger M w') l = None)"
proof -
  let ?w = "note_act (LockAct l) w"
  obtain w1 where w1: "try_cleanup M l ?w = (r, w1)" "w' = note_act (UnlockAct l) w1"
    using with_lock_result [of l "try_cleanup M l" w r w'] assms(1) by (auto simp: tryCleanupLibrary_def)
  have db: "db_ok (lm_json M) (lm_db M) (w_db w)" and con: "consistent (lm_ledger M w)"
    using assms(2) by (simp_all add: safe_def)
  show ?thesis
  proof (cases "GetLibrary (lm_json M) (lm_db M) l (w_db w)")
    case (Inl e)
    then show ?thesis
      using w1 assms(2) by (auto simp: try_cleanup_def cleanup_event_def)
  next
    case (Inr q)
    obtain info found where q: "q = (info, found)" by force
    have info: "info = lib_at (lm_ledger M w) l" using GetLibrary_ok [OF db, of l info found] Inr q by simp
    show ?thesis
    proof (cases "VolumeCount info > 0")
      case True
      then have "users (lm_ledger M w) l \<noteq> {}" using consistent_count [OF con, of l] info by auto
      then show ?thesis
        using True w1 Inr q assms(2) by (auto simp: try_cleanup_def cleanup_event_def)
    next
      case False
      then have none: "users (lm_ledger M w) l = {}" using count_zero_unused [OF con] info by simp
      have "remove_unused M l info ?w = (r, w1)" using w1(1) Inr q False by (simp add: try_cleanup_def)
      from remove_unused_safe [OF this _ assms(3)] show ?thesis using w1(2) none assms(2) by simp
    qed
  qed
qed

text \<open>A cleanup touches no other item of the store.\<close>

lemma tryCleanup_host:
  assumes "tryCleanupLibrary M l w = (r, w')"
  shows "w_host w' = w_host w \<or> w_host w' = snd (store_remove (lm_fs M) (lm_store M) (w_host w) l)"
proof -
  let ?w = "note_act (LockAct l) w"
  obtain w1 where w1: "try_cleanup M l ?w = (r, w1)" "w' = note_act (UnlockAct l) w1"
    using with_lock_result [of l "try_cleanup M l" w r w'] assms by (auto simp: tryCleanupLibrary_def)
  have "w_host w1 = w_host w \<or> w_host w1 = snd (store_remove (lm_fs M) (lm_store M) (w_host w) l)"
    using w1(1)
    by (auto simp: try_cleanup_def remove_unused_def Let_def split: sum.splits prod.splits if_splits)
  then show ?thesis using w1(2) by simp
qed

lemma tryCleanup_other:
  assumes "tryCleanupLibrary M l w = (r, w')" "plain l" "plain j" "j \<noteq> l"
  shows "lm_held M w' j = lm_held M w j"
  using tryCleanup_host [OF assms(1)] remove_other [OF assms(2,3) assms(4) [symmetric], of "w_host w"] by auto

section \<open>Removing a volume\<close>

lemma unlink_safe:
  assumes "UnlinkVolume (lm_json M) (lm_db M) v (w_db w) = (r, d)" "safe M w"
  shows "safe M (w\<lparr>w_db := d\<rparr>) \<and>
    (case r of
       Inl e \<Rightarrow> ledger_of (lm_json M) (lm_db M) d = lm_ledger M w
     | Inr (l, p) \<Rightarrow> lg_vols (ledger_of (lm_json M) (lm_db M) d) = (lg_vols (lm_ledger M w))(v := None) \<and>
         (case lg_vols (lm_ledger M w) v of None \<Rightarrow> l = [] | Some rec \<Rightarrow> l = LibraryID rec))"
proof -
  have db: "db_ok (lm_json M) (lm_db M) (w_db w)" and con: "consistent (lm_ledger M w)"
    using assms(2) by (simp_all add: safe_def)
  have ok: "db_ok (lm_json M) (lm_db M) d" "consistent (ledger_of (lm_json M) (lm_db M) d)"
    using unlink_consistent [OF db con, of v] assms(1) by simp_all
  show ?thesis
  proof (cases r)
    case (Inl e)
    then show ?thesis
      using assms unlink_Inl [OF db, of v e d] by (simp add: safe_def links_held_def)
  next
    case (Inr q)
    obtain l p where q: "q = (l, p)" by force
    have u: "((l, p), ledger_of (lm_json M) (lm_db M) d) = lg_unlink v (lm_ledger M w)"
      using assms(1) Inr q unlink_Inr [OF db, of v q d] by simp
    have vols: "lg_vols (ledger_of (lm_json M) (lm_db M) d) = (lg_vols (lm_ledger M w))(v := None)"
      using u by (auto simp: lg_unlink_def Let_def fun_eq_iff split: option.splits if_splits)
    have lib: "case lg_vols (lm_ledger M w) v of None \<Rightarrow> l = [] | Some rec \<Rightarrow> l = LibraryID rec"
      using u by (auto simp: lg_unlink_def Let_def split: option.splits)
    have "safe M (w\<lparr>w_db := d\<rparr>)"
      using assms(2) ok vols by (auto simp: safe_def links_held_def split: if_splits)
    then show ?thesis using Inr q vols lib by simp
  qed
qed

lemma schedule_safe:
  assumes "ScheduleCleanup (cleanup_call M) () l (s, w) = (s', w')" "strategy_ok s" "safe M w" "plain l"
    and "timers_plain s"
  shows "safe M w' \<and> strategy_ok s' \<and> timers_plain s' \<and> lg_vols (lm_ledger M w') = lg_vols (lm_ledger M w)"
proof -
  obtain r w1 where w1: "tryCleanupLibrary M l w = (r, w1)" by force
  have "safe M w1 \<and> lg_vols (lm_ledger M w1) = lg_vols (lm_ledger M w)"
    using tryCleanup_safe [OF w1 assms(3,4)] by blast
  then have "safe M (snd (ScheduleCleanup (cleanup_call M) () l (s, w))) \<and>
      lg_vols (lm_ledger M (snd (ScheduleCleanup (cleanup_call M) () l (s, w)))) = lg_vols (lm_ledger M w)"
    using strat.schedule_invariant [OF assms(2), of "\<lambda>x. safe M x \<and> lg_vols (lm_ledger M x) = lg_vols (lm_ledger M w)"
        w "cleanup_call M" "()" l] assms(3) w1
    by (simp add: cleanup_call_def)
  moreover have "strategy_ok s'"
    using strat.schedule_runs [OF assms(2,1)] by blast
  moreover have "timers_plain s'" by (rule timers_for_schedule [OF assms(1,5,4)])
  ultimately show ?thesis using assms(1) by simp
qed

lemma remove_volume_safe:
  assumes "RemoveVolume M v s w = ((r, s'), w')" "strategy_ok s" "safe M w" "timers_plain s"
  shows "safe M w' \<and> strategy_ok s' \<and> timers_plain s' \<and>
    lg_vols (lm_ledger M w') =
      (if r = Inr () then (lg_vols (lm_ledger M w))(v := None) else lg_vols (lm_ledger M w))"
proof -
  let ?w = "note_act (LockAct (volumeLockKey v)) w"
  obtain w1 where w1: "remove_volume M v s ?w = ((r, s'), w1)" "w' = note_act (UnlockAct (volumeLockKey v)) w1"
    using with_lock_result [of "volumeLockKey v" "remove_volume M v s" w "(r, s')" w'] assms(1)
    by (auto simp: RemoveVolume_def)
  obtain ur d where u: "UnlinkVolume (lm_json M) (lm_db M) v (w_db w) = (ur, d)" by force
  let ?w1 = "?w\<lparr>w_db := d\<rparr>"
  have us: "safe M ?w1" using unlink_safe [of v ?w ur d] u assms(3) by simp
  show ?thesis
  proof (cases ur)
    case (Inl e)
    then show ?thesis
      using w1 u us unlink_safe [OF u assms(3)] assms(2,4) by (auto simp: remove_volume_def)
  next
    case (Inr q)
    obtain l p where q: "q = (l, p)" by force
    have vols: "lg_vols (lm_ledger M ?w1) = (lg_vols (lm_ledger M w))(v := None)"
      and lib: "case lg_vols (lm_ledger M w) v of None \<Rightarrow> l = [] | Some rec \<Rightarrow> l = LibraryID rec"
      using unlink_safe [OF u assms(3)] Inr q by simp_all
    show ?thesis
    proof (cases "l = []")
      case True
      then show ?thesis
        using w1 u us Inr q vols assms(2,4) by (auto simp: remove_volume_def)
    next
      case False
      then have "plain l"
        using lib assms(3) by (auto simp: safe_def links_held_def split: option.splits)
      obtain w2 where w2: "ScheduleCleanup (cleanup_call M) () l (s, w2) = (s', w1)" "r = Inr ()"
          "w_db w2 = d" "w_host w2 = w_host w" "w_cache w2 = w_cache w"
        using w1(1) u Inr q False
        by (auto simp: remove_volume_def Let_def split: prod.splits if_splits)
      have "safe M w2 = safe M ?w1" by (rule safe_cong) (simp_all add: w2)
      then have "safe M w2" using us by simp
      from schedule_safe [OF w2(1) assms(2) this \<open>plain l\<close> assms(4)] show ?thesis
        using w1(2) w2 vols by simp
    qed
  qed
qed

section \<open>A volume that is already linked\<close>

lemma volume_found:
  assumes "safe M w" "tx_begin (lm_db M) (w_db w) = None" "lg_vols (lm_ledger M w) v = Some rec"
  shows "db_GetLibraryForVolume (lm_json M) (lm_db M) v (w_db w) = Inr (LibraryID rec) \<and>
    v \<noteq> [] \<and> LibraryID rec \<noteq> []"
proof -
  have "db_ok (lm_json M) (lm_db M) (w_db w)" "consistent (lm_ledger M w)"
    using assms(1) by (simp_all add: safe_def)
  moreover have "v \<noteq> []" "LibraryID rec \<noteq> []"
    using assms(3) calculation(2) by (auto simp: consistent_def)
  ultimately show ?thesis
    using assms(2,3) by (auto simp: db_GetLibraryForVolume_def db_view_def getVolume_ok db_ok_buckets)
qed

lemma get_library_again:
  assumes "safe M w" "tx_begin (lm_db M) (w_db w) = None" "lg_vols (lm_ledger M w) v = Some rec"
  shows "lm_GetLibraryForVolume M v (Some lib) w =
    (Inr (store_path (lm_store M) (LibraryID rec)),
     w\<lparr>w_log := w_log w @ [LockAct (volumeLockKey v), LockAct (LibraryID rec), UnlockAct (LibraryID rec),
        UnlockAct (volumeLockKey v), Emit (OnLibraryResolved (lib_name lib) ResolutionCacheHit)]\<rparr>)"
proof -
  note f = volume_found [OF assms]
  have l: "plain (LibraryID rec)" "lm_held M w (LibraryID rec)"
    using assms by (auto simp: safe_def links_held_def)
  have "stored_path M (LibraryID rec) w1 = Inr (store_path (lm_store M) (LibraryID rec))"
    if "w_host w1 = w_host w" for w1
    using stored_path_held [of "LibraryID rec" w1] l that by simp
  moreover have "store_path (lm_store M) (LibraryID rec) \<noteq> []" using loc_nonempty [OF l(1)] .
  ultimately show ?thesis
    using f by (simp add: lm_GetLibraryForVolume_def with_lock_def resolve_volume_def reuse_linked_def note_act_def)
qed

section \<open>Runs of the manager\<close>

lemma cleanup_call_safe:
  "safe M w \<Longrightarrow> plain l \<Longrightarrow> safe M (snd (cleanup_call M f l w))"
  using tryCleanup_safe [of l w "fst (tryCleanupLibrary M l w)" "snd (tryCleanupLibrary M l w)"]
  by (simp add: cleanup_call_def)

lemma callback_run_safe:
  assumes "callback_run (cleanup_call M) x (s, w) = (s', w')" "safe M w" "delayed_for plain s"
  shows "safe M w'"
proof (cases "x \<in> set (running s)")
  case True
  then have "plain (tm_library x)" using assms(3) by (simp add: delayed_for_def)
  then show ?thesis using assms True cleanup_call_safe [OF assms(2)] by (auto simp: callback_run_def)
qed (use assms in \<open>simp add: callback_run_def\<close>)

end

text \<open>
  The calls and timer events of a manager in any order. A publish is only considered while fewer
  than \<open>2 ^ 63\<close> volumes are recorded, so that no \<open>int\<close> count can wrap around.
\<close>

inductive manager_step ::
  "('h, 'r, 'd, 'n) library_manager \<Rightarrow> strategy \<times> ('h, 'd, 'n) world \<Rightarrow> strategy \<times> ('h, 'd, 'n) world \<Rightarrow> bool"
  for M :: "('h, 'r, 'd, 'n) library_manager" where
  step_get: "int (card (dom (lg_vols (lm_ledger M w)))) + 1 < 2 ^ 63 \<Longrightarrow>
    lm_GetLibraryForVolume M v lib w = (r, w') \<Longrightarrow> manager_step M (s, w) (s, w')"
| step_remove: "RemoveVolume M v s w = ((r, s'), w') \<Longrightarrow> manager_step M (s, w) (s', w')"
| step_expire: "manager_step M (Delayed s, w) (Delayed (timer_expire t s), w)"
| step_claim: "manager_step M (Delayed s, w) (Delayed (callback_claim x s), w)"
| step_run: "callback_run (cleanup_call M) x (s, w) = (s', w') \<Longrightarrow>
    manager_step M (Delayed s, w) (Delayed s', w')"

definition mgr_ok :: "('h, 'r, 'd, 'n) library_manager \<Rightarrow> strategy \<times> ('h, 'd, 'n) world \<Rightarrow> bool" where
  "mgr_ok M c \<longleftrightarrow> safe M (snd c) \<and> strategy_ok (fst c) \<and> timers_plain (fst c)"

context manager
begin

lemma manager_step_ok: "manager_step M c c' \<Longrightarrow> mgr_ok M c \<Longrightarrow> mgr_ok M c'"
proof (induction rule: manager_step.induct)
  case (step_get w v lib r w' s)
  then show ?case using get_library_safe [OF step_get(2)] by (simp add: mgr_ok_def)
next
  case (step_remove v s w r s' w')
  then show ?case using remove_volume_safe [OF step_remove(1)] by (simp add: mgr_ok_def)
next
  case (step_expire s w t)
  then show ?case by (simp add: mgr_ok_def expire_ok delayed_for_expire)
next
  case (step_claim s w x)
  then show ?case by (simp add: mgr_ok_def claim_ok delayed_for_claim)
next
  case (step_run x s w s' w')
  then show ?case
    using callback_run_safe [OF step_run(1)] run_ok [of s "cleanup_call M" x w]
      delayed_for_run [of plain s "cleanup_call M" x w]
    by (simp add: mgr_ok_def)
qed

lemma manager_run_ok: "(manager_step M)\<^sup>*\<^sup>* c c' \<Longrightarrow> mgr_ok M c \<Longrightarrow> mgr_ok M c'"
  by (induction rule: rtranclp_induct) (auto intro: manager_step_ok)

end

end
