(* ===== verification/Lib_Manager_Props.thy ===== *)
theory Lib_Manager_Props
  imports Lib_Manager_Safety
begin

text \<open>
  The properties of the library manager: runs of the whole manager, single calls, and the locks
  a call takes.
\<close>

section \<open>A manager in memory\<close>

definition mem_manager :: "(mem_state, mem_raw, mem_db, mem_net) library_manager" where
  "mem_manager =
     \<lparr>lm_fs = mem_host, lm_db = mem_bolt, lm_json = mem_json, lm_net = mem_network,
      lm_getwd = Inl ErrNotExist, lm_store = path_join [mem_base, StoreDirectory],
      lm_scratchDir = path_join [mem_base, ScratchDirectory], lm_ttl = DefaultImageCacheTTL,
      lm_strategy = immediate_Name\<rparr>"

lemma mem_manager_fields [simp]:
  "lm_fs mem_manager = mem_host" "lm_db mem_manager = mem_bolt" "lm_json mem_manager = mem_json"
  "lm_net mem_manager = mem_network" "lm_store mem_manager = path_join [mem_base, ''store'']"
  by (simp_all add: mem_manager_def StoreDirectory_def)

lemma mem_digest_plain:
  "crane_digest mem_network n img = (Inr d, n') \<Longrightarrow> plain (trim_prefix d ''sha256:'')"
  by (auto simp: mem_network_def split: option.splits if_splits)

interpretation mem_mgr: manager mem_manager mem_base
proof (rule manager.intro)
  show "lib_database (lm_db mem_manager) (lm_json mem_manager)"
    using mem_tracker.lib_database_axioms by simp
  show "lib_store (lm_fs mem_manager) mem_base (lm_store mem_manager)"
    using mem_store.lib_store_axioms by simp
  have "clean_abs (lm_scratchDir mem_manager)" "below mem_base (lm_scratchDir mem_manager)"
      "unrelated (lm_store mem_manager) (lm_scratchDir mem_manager)"
    by code_simp+
  then show "manager_axioms mem_manager mem_base"
    using mem_digest_plain by (auto simp: manager_axioms_def)
qed

text \<open>A world with the library \<open>aa\<close> on disk, used by the volumes \<open>v1\<close> and \<open>v2\<close>.\<close>

definition demo_host :: mem_state where
  "demo_host =
     \<lparr>mh_nodes = [([[], ''d''], MDir), ([[], ''d'', ''store''], MDir), ([[], ''d'', ''scratch''], MDir),
                  ([[], ''d'', ''store'', ''aa''], MDir),
                  ([[], ''d'', ''store'', ''aa'', ''f''], MFile ''x'')],
      mh_mounts = [], mh_broken = [], mh_next = 0\<rparr>"

definition demo_world :: "(mem_state, mem_db, mem_net) world" where
  "demo_world =
     \<lparr>w_host = demo_host, w_db = demo_db,
      w_net = \<lparr>mn_clock = 0, mn_digests = [(''gcr.io/java:v1'', ''sha256:bb'')]\<rparr>,
      w_cache = Map.empty, w_log = []\<rparr>"

definition demo_library :: library where
  "demo_library = \<lparr>lib_name = ''java'', lib_registry = ''gcr.io'', lib_version = ''v1'', lib_pull = False\<rparr>"

lemma demo_vols: "dom (lg_vols (lm_ledger mem_manager demo_world)) = {''v1'', ''v2''}"
  by (auto simp: demo_world_def demo_ledger)

lemma demo_room: "int (card (dom (lg_vols (lm_ledger mem_manager demo_world)))) + 1 < 2 ^ 63"
  by (simp only: demo_vols) simp

lemma demo_safe: "safe mem_manager demo_world"
proof -
  have "held mem_host (path_join [mem_base, ''store'']) demo_host ''aa''" "plain ''aa''"
    by code_simp+
  then have "links_held mem_manager demo_world"
    by (auto simp: links_held_def demo_world_def demo_ledger split: if_splits)
  then show ?thesis
    using demo_ok demo_consistent by (simp add: safe_def demo_world_def cache_for_def)
qed

lemma demo_mgr_ok: "mgr_ok mem_manager (Immediate, demo_world)"
  by (simp add: mgr_ok_def demo_safe)

section \<open>Properties\<close>

text \<open>
  No volume is left with a dangling library: in every run of the manager, through any
  sequence of publishes, unpublishes, expiring timers and cleanups, successful or failing, the
  library of every recorded volume is in the store and can be mounted, and the number of volumes
  the database shows for it is the real one.
\<close>
theorem links_never_dangle:
  assumes "manager M base" "mgr_ok M c" "(manager_step M)\<^sup>*\<^sup>* c (s', w')"
    and "lg_vols (lm_ledger M w') v = Some rec"
  shows "store_get (lm_fs M) (lm_store M) (w_host w') (LibraryID rec) =
      Inr (store_path (lm_store M) (LibraryID rec)) \<and>
    VolumeCount (lib_at (lm_ledger M w') (LibraryID rec)) = int (card (users (lm_ledger M w') (LibraryID rec)))"
proof -
  have safe: "safe M w'"
    using manager.manager_run_ok [OF assms(1,3,2)] by (simp add: mgr_ok_def)
  then have "plain (LibraryID rec)" "lm_held M w' (LibraryID rec)"
    using assms(4) by (auto simp: safe_def links_held_def)
  then show ?thesis
    using item_store.get_Inr [OF manager.store_of [OF assms(1)]] consistent_count safe
    by (auto simp: safe_def)
qed

theorem links_never_dangle_witness:
  "store_get mem_host ''/d/store'' (w_host (snd (RemoveVolume mem_manager ''v1'' Immediate demo_world))) ''aa'' =
     Inr ''/d/store/aa''"
proof -
  define w' where "w' = snd (RemoveVolume mem_manager ''v1'' Immediate demo_world)"
  obtain r s' where run: "RemoveVolume mem_manager ''v1'' Immediate demo_world = ((r, s'), w')"
    unfolding w'_def by (metis prod.collapse)
  have steps: "(manager_step mem_manager)\<^sup>*\<^sup>* (Immediate, demo_world) (s', w')"
    by (rule r_into_rtranclp) (rule step_remove [OF run])
  have v2: "lg_vols (lm_ledger mem_manager w') ''v2'' =
      Some \<lparr>LibraryID = ''aa'', CreatedAt = 2, FromCache = True\<rparr>"
    unfolding w'_def by code_simp
  have paths: "lm_store mem_manager = ''/d/store''" "store_path ''/d/store'' ''aa'' = ''/d/store/aa''"
    by code_simp+
  show ?thesis
    using links_never_dangle [OF mem_mgr.manager_axioms demo_mgr_ok steps v2] paths
    by (simp add: w'_def)
qed

text \<open>
  C7: When \<open>GetLibraryForVolume\<close> returns a path, the volume is recorded, the path is the store
  path of the library it is recorded under, and that library is in the store; whatever it returns,
  every volume that had a library keeps it and no other volume gets one.
\<close>
theorem get_library_resolves:
  assumes "manager M base" "safe M w" "lm_GetLibraryForVolume M v lib w = (r, w')"
    and "int (card (dom (lg_vols (lm_ledger M w)))) + 1 < 2 ^ 63"
  shows "(\<forall>p. r = Inr p \<longrightarrow>
        (\<exists>rec. lg_vols (lm_ledger M w') v = Some rec \<and> p = store_path (lm_store M) (LibraryID rec) \<and>
           store_get (lm_fs M) (lm_store M) (w_host w') (LibraryID rec) = Inr p)) \<and>
    lg_vols (lm_ledger M w) \<subseteq>\<^sub>m lg_vols (lm_ledger M w') \<and>
    (u \<noteq> v \<longrightarrow> lg_vols (lm_ledger M w') u = lg_vols (lm_ledger M w) u)"
proof -
  note g = manager.get_library_safe [OF assms(1,3,2,4)]
  have grow: "lg_vols (lm_ledger M w) \<subseteq>\<^sub>m lg_vols (lm_ledger M w')"
      "u \<noteq> v \<longrightarrow> lg_vols (lm_ledger M w') u = lg_vols (lm_ledger M w) u"
    using g by (simp_all add: manager.grows_def [OF assms(1)])
  have "\<exists>rec. lg_vols (lm_ledger M w') v = Some rec \<and> p = store_path (lm_store M) (LibraryID rec) \<and>
      store_get (lm_fs M) (lm_store M) (w_host w') (LibraryID rec) = Inr p" if rp: "r = Inr p" for p
  proof -
    obtain rec where rec: "lg_vols (lm_ledger M w') v = Some rec"
        "p = store_path (lm_store M) (LibraryID rec)" "lm_held M w' (LibraryID rec)"
      using g rp by (auto simp: manager.resolved_def [OF assms(1)])
    moreover have "plain (LibraryID rec)" using g rec by (auto simp: safe_def links_held_def)
    ultimately show ?thesis using item_store.get_Inr [OF manager.store_of [OF assms(1)]] by blast
  qed
  then show ?thesis using grow by blast
qed

theorem get_library_resolves_witness:
  "\<exists>rec. lg_vols (lm_ledger mem_manager (snd (lm_GetLibraryForVolume mem_manager ''v3'' (Some demo_library) demo_world)))
     ''v3'' = Some rec \<and> store_path ''/d/store'' (LibraryID rec) = ''/d/store/bb''"
proof -
  define w' where "w' = snd (lm_GetLibraryForVolume mem_manager ''v3'' (Some demo_library) demo_world)"
  have run: "lm_GetLibraryForVolume mem_manager ''v3'' (Some demo_library) demo_world = (Inr ''/d/store/bb'', w')"
    unfolding w'_def by (rule prod_eqI) (code_simp, simp)
  obtain rec where "lg_vols (lm_ledger mem_manager w') ''v3'' = Some rec"
      "''/d/store/bb'' = store_path (lm_store mem_manager) (LibraryID rec)"
    using get_library_resolves [OF mem_mgr.manager_axioms demo_safe run demo_room] by blast
  moreover have "lm_store mem_manager = ''/d/store''" by code_simp
  ultimately show ?thesis unfolding w'_def by (intro exI [of _ rec]) (simp only:)
qed

text \<open>
  C9: Publishing is idempotent: for a volume that is already linked, \<open>GetLibraryForVolume\<close>
  returns the path of the library it is linked to, even when another version is asked for now, and
  changes neither the disk, nor the database, nor the digest cache, nor does it use the network.
\<close>
theorem get_library_idempotent:
  assumes "manager M base" "safe M w" "tx_begin (lm_db M) (w_db w) = None"
    and "lg_vols (lm_ledger M w) v = Some rec"
  shows "\<exists>acts. lm_GetLibraryForVolume M v (Some lib) w =
    (Inr (store_path (lm_store M) (LibraryID rec)), w\<lparr>w_log := w_log w @ acts\<rparr>)"
  using manager.get_library_again [OF assms] by blast

theorem get_library_idempotent_witness:
  "w_db (snd (lm_GetLibraryForVolume mem_manager ''v1'' (Some demo_library) demo_world)) = demo_db"
proof -
  have "tx_begin (lm_db mem_manager) (w_db demo_world) = None"
    by (simp add: mem_bolt_def demo_db_def demo_world_def)
  moreover have "lg_vols (lm_ledger mem_manager demo_world) ''v1'' =
      Some \<lparr>LibraryID = ''aa'', CreatedAt = 1, FromCache = False\<rparr>"
    by (simp add: demo_world_def demo_ledger)
  ultimately obtain acts where "snd (lm_GetLibraryForVolume mem_manager ''v1'' (Some demo_library) demo_world) =
      demo_world\<lparr>w_log := w_log demo_world @ acts\<rparr>"
    using get_library_idempotent [OF mem_mgr.manager_axioms demo_safe, of "''v1''" _ demo_library]
    by (metis snd_conv)
  then show ?thesis by (simp add: demo_world_def)
qed

text \<open>
  C8: A cleanup never removes a library in use: when some volume is linked to it, neither the
  disk nor the database changes; when none is and the cleanup reports success, the library is gone
  from the store and from the database; and no other library is touched in either case.
\<close>
theorem cleanup_spares_used:
  assumes "manager M base" "safe M w" "plain l" "tryCleanupLibrary M l w = (r, w')"
  shows "(users (lm_ledger M w) l \<noteq> {} \<longrightarrow> w_host w' = w_host w \<and> w_db w' = w_db w) \<and>
    (users (lm_ledger M w) l = {} \<and> r = Inr () \<longrightarrow>
       store_get (lm_fs M) (lm_store M) (w_host w') l \<noteq> Inr p \<and> lg_libs (lm_ledger M w') l = None) \<and>
    (plain j \<and> j \<noteq> l \<longrightarrow>
       (store_get (lm_fs M) (lm_store M) (w_host w') j = Inr q \<longleftrightarrow>
        store_get (lm_fs M) (lm_store M) (w_host w) j = Inr q))"
proof -
  note item = item_store.get_Inr [OF manager.store_of [OF assms(1)]]
  note c = manager.tryCleanup_safe [OF assms(1,4,2,3)]
  have "plain j \<and> j \<noteq> l \<longrightarrow>
      (store_get (lm_fs M) (lm_store M) (w_host w') j = Inr q \<longleftrightarrow>
       store_get (lm_fs M) (lm_store M) (w_host w) j = Inr q)"
    using item [of j] manager.tryCleanup_other [OF assms(1,4,3), of j] by simp
  then show ?thesis using c item [OF assms(3)] by blast
qed

theorem cleanup_spares_used_witness:
  "w_host (snd (tryCleanupLibrary mem_manager ''aa'' demo_world)) = demo_host"
proof -
  have "''v1'' \<in> users (lm_ledger mem_manager demo_world) ''aa''"
    by (simp add: users_def demo_world_def demo_ledger)
  then have "users (lm_ledger mem_manager demo_world) ''aa'' \<noteq> {}" by blast
  moreover have "plain ''aa''" by code_simp
  moreover obtain r w' where "tryCleanupLibrary mem_manager ''aa'' demo_world = (r, w')" by force
  ultimately show ?thesis
    using cleanup_spares_used [OF mem_mgr.manager_axioms demo_safe, of "''aa''" r w'] by (simp add: demo_world_def)
qed

text \<open>
  C10: \<open>RemoveVolume\<close> removes exactly the volume it is called for: on success its record is gone
  and on an error no record has changed; the libraries of all other volumes stay in the store,
  whichever cleanup strategy is configured.
\<close>
theorem remove_volume_links:
  assumes "manager M base" "safe M w" "strategy_ok s" "timers_plain s"
    and "RemoveVolume M v s w = ((r, s'), w')"
  shows "lg_vols (lm_ledger M w') =
      (if r = Inr () then (lg_vols (lm_ledger M w))(v := None) else lg_vols (lm_ledger M w)) \<and>
    (u \<noteq> v \<and> lg_vols (lm_ledger M w) u = Some rec \<longrightarrow>
       store_get (lm_fs M) (lm_store M) (w_host w') (LibraryID rec) =
         Inr (store_path (lm_store M) (LibraryID rec)))"
proof -
  note c = manager.remove_volume_safe [OF assms(1,5,3,2,4)]
  have "store_get (lm_fs M) (lm_store M) (w_host w') (LibraryID rec) =
      Inr (store_path (lm_store M) (LibraryID rec))"
    if u: "u \<noteq> v" "lg_vols (lm_ledger M w) u = Some rec"
  proof -
    have "lg_vols (lm_ledger M w') u = Some rec" using c u by simp
    then have "plain (LibraryID rec)" "lm_held M w' (LibraryID rec)"
      using c by (auto simp: safe_def links_held_def)
    then show ?thesis using item_store.get_Inr [OF manager.store_of [OF assms(1)]] by blast
  qed
  then show ?thesis using c by blast
qed

theorem remove_volume_links_witness:
  "lg_vols (lm_ledger mem_manager (snd (RemoveVolume mem_manager ''v1'' Immediate demo_world))) ''v1'' = None"
proof -
  define w' where "w' = snd (RemoveVolume mem_manager ''v1'' Immediate demo_world)"
  obtain r s' where run: "RemoveVolume mem_manager ''v1'' Immediate demo_world = ((r, s'), w')"
    unfolding w'_def by (metis prod.collapse)
  have "fst (fst (RemoveVolume mem_manager ''v1'' Immediate demo_world)) = Inr ()" by code_simp
  then have "r = Inr ()" using run by simp
  then show ?thesis
    using remove_volume_links [OF mem_mgr.manager_axioms demo_safe _ _ run] by (simp add: w'_def)
qed

end
