(* ===== verification/Csi_Publisher_Props.thy ===== *)
theory Csi_Publisher_Props
  imports Csi_Publishers Lib_Manager_Props
begin

text \<open>
  What the publishers guarantee: which of them handles a request, what they mount and how, and
  what an unpublish undoes.
\<close>

section \<open>The contract of a publisher\<close>

text \<open>
  A publisher claims some requests. It answers exactly those, and declines the others without an
  error and without touching anything; this is what makes the order of the chain meaningful.
\<close>

locale publisher_contract =
  fixes claims :: "'q \<Rightarrow> bool" and publish :: "'q \<Rightarrow> 's \<Rightarrow> outcome \<times> 's"
  assumes declined: "\<not> claims q \<Longrightarrow> publish q st = ((None, None), st)"
    and claimed: "claims q \<Longrightarrow> fst (fst (publish q st)) \<noteq> None"
begin

lemma answers_iff: "fst (fst (publish q st)) \<noteq> None \<longleftrightarrow> claims q"
  using claimed declined by (cases "claims q") auto

lemma silent_otherwise: "fst (fst (publish q st)) = None \<Longrightarrow> publish q st = ((None, None), st)"
  using claimed declined by blast

end

fun claims :: "publisher \<Rightarrow> publish_request \<Rightarrow> bool" where
  "claims (LibraryPublisher s) req = (ctx req ''type'' = DatadogLibrary)"
| "claims (InjectorPreloadPublisher p) req = (ctx req ''type'' = DatadogInjectorPreload)"
| "claims (SocketPublisher s) req = (ctx req ''type'' \<in> {APMSocket, DSDSocket})"
| "claims (LocalPublisher s) req =
     (ctx req ''type'' \<in> {APMSocketDirectory, DSDSocketDirectory, DatadogSocketsDirectory})"
| "claims (SocketLegacyPublisher s) req = legacy_request modeSocket req"
| "claims (LocalLegacyPublisher s) req = legacy_request modeLocal req"
| "claims UnmountPublisher req = False"

lemma mount_at_answers [simp]: "fst (fst (mount_at H resp args st)) = Some resp"
  by (simp add: mount_at_def split: prod.split)

lemma mount_socket_answers [simp]: "fst (fst (mount_socket H resp p t st)) = Some resp"
  by (simp add: mount_socket_def split: sum.split)

lemma mount_directory_answers [simp]:
  "fst (fst (mount_directory H ty p req st)) = Some \<lparr>VolumeType = ty, VolumePath = p\<rparr>"
  by (simp add: mount_directory_def)

lemma library_answers: "ctx req ''type'' = DatadogLibrary \<Longrightarrow> fst (fst (library_Publish M s req st)) \<noteq> None"
  by (simp add: library_Publish_def Let_def split: prod.split sum.split)

lemma injector_answers:
  "ctx req ''type'' = DatadogInjectorPreload \<Longrightarrow> fst (fst (injector_Publish H p req st)) \<noteq> None"
  by (simp add: injector_Publish_def Let_def split: prod.split option.split)

interpretation pub: publisher_contract "claims p" "Publish M p" for M p
proof
  fix req st
  show "\<not> claims p req \<Longrightarrow> Publish M p req st = ((None, None), st)"
    by (cases p) (simp_all add: publisher_defs Let_def)
  show "claims p req \<Longrightarrow> fst (fst (Publish M p req st)) \<noteq> None"
    by (cases p) (auto simp: socket_Publish_def local_Publish_def socket_legacy_Publish_def
        local_legacy_Publish_def not_allowed_def Let_def simp del: split_paired_All
        intro!: library_answers [unfolded not_None_eq] injector_answers [unfolded not_None_eq])
qed

lemma find_in: "find P xs = Some x \<Longrightarrow> x \<in> set xs \<and> P x"
  by (induction xs) (auto split: if_splits)

text \<open>The chain gives a request to the first publisher that claims it.\<close>

lemma chain_find:
  "chain_Publish M ps req st =
     (case find (\<lambda>p. claims p req) ps of None \<Rightarrow> ((None, None), st) | Some p \<Rightarrow> Publish M p req st)"
proof (induction ps)
  case (Cons p ps)
  show ?case
  proof (cases "claims p req")
    case True
    then obtain resp err st' where "Publish M p req st = ((Some resp, err), st')"
      using pub.claimed [of p req M st] by (metis not_None_eq prod.collapse)
    then show ?thesis using True by (simp add: chain_Publish_def)
  next
    case False
    then show ?thesis using Cons pub.declined [of p req M st] by (simp add: chain_Publish_def)
  qed
qed (simp add: chain_Publish_def)

section \<open>Relative paths that stay inside\<close>

lemma join_up:
  assumes "n > 0"
  shows "join_on slash (replicate n ''..'' @ ts) = ''..'' \<or>
    has_prefix (join_on slash (replicate n ''..'' @ ts)) (''..'' @ [slash])"
proof -
  obtain m where n: "n = Suc m" using assms gr0_implies_Suc by blast
  show ?thesis
  proof (cases "replicate m ''..'' @ ts")
    case Nil
    then show ?thesis using n by simp
  next
    case (Cons y ys)
    then have "join_on slash (replicate n ''..'' @ ts) = ''..'' @ slash # join_on slash (y # ys)"
      using n by simp
    then show ?thesis by (simp add: has_prefix_def)
  qed
qed

lemma path_rel_inside:
  assumes "clean_abs b" "clean_abs p" "path_rel b p = Inr r"
    and "r \<noteq> ''.''" "\<not> has_prefix r (''..'' @ [slash])" "r \<noteq> ''..''"
  shows "below b p \<and> p \<noteq> b"
proof -
  obtain bs where bs: "b = abs_path bs" "\<forall>w\<in>set bs. plain w" using assms(1) by (auto simp: clean_abs_iff)
  obtain ps where ps: "p = abs_path ps" "\<forall>w\<in>set ps. plain w" using assms(2) by (auto simp: clean_abs_iff)
  have ne: "p \<noteq> b" using assms(3,4) by (auto simp: path_rel_def)
  obtain xs ys where d: "drop_common ([] # bs) ([] # ps) = (xs, ys)" by force
  have "b \<noteq> ''.''" "rooted b" "rooted p" using bs ps by (simp_all add: abs_path_def slash_def rooted_def)
  moreover have "path_clean b = b" "path_clean p = p" using assms(1,2) by (simp_all add: clean_abs_def)
  moreover have "rel_words b = [] # bs" "rel_words p = [] # ps" using bs ps by (simp_all add: rel_words_abs)
  ultimately have "r = join_on slash (replicate (length xs) ''..'' @ ys)"
    using assms(3) ne d by (simp add: path_rel_def Let_def split: if_splits)
  then have "xs = []" using join_up [of "length xs" ys] assms(5,6) by auto
  then have "prefix bs ps" using drop_common_append [OF d] by auto
  then show ?thesis using ne bs ps by (simp add: below_abs)
qed

lemma clean_abs_join_any: "clean_abs b \<Longrightarrow> clean_abs (path_join [b, s])"
proof -
  assume "clean_abs b"
  then obtain x where b: "b = slash # x" by (auto simp: clean_abs_def rooted_def split: list.splits)
  then have "path_join [b, s] = path_clean (if s = [] then b else b @ slash # s)"
    by (simp add: path_join_def)
  also have "clean_abs \<dots>" using b by (intro clean_abs_path_clean) (simp add: rooted_def)
  finally show ?thesis .
qed

lemma validate_inside:
  assumes "validateLibrarySourcePath H h basePath sourcePath = Inr p" "clean_abs basePath" "clean_abs sourcePath"
    and "\<And>q r. clean_abs q \<Longrightarrow> os_eval_symlinks H h q = Inr r \<Longrightarrow> clean_abs r"
  shows "\<exists>b. os_eval_symlinks H h basePath = Inr b \<and> below b p \<and> p \<noteq> b"
proof -
  obtain b r where "os_eval_symlinks H h basePath = Inr b" "os_eval_symlinks H h sourcePath = Inr p"
      "path_rel b p = Inr r" "r \<noteq> ''.''" "\<not> has_prefix r (''..'' @ [slash])" "r \<noteq> ''..''"
    using assms(1) by (auto simp: validateLibrarySourcePath_def split: if_splits)
  then show ?thesis using path_rel_inside [of b p r] assms(2,3,4) by blast
qed

section \<open>What a bind mount does\<close>

text \<open>
  \<open>h'\<close> is a host on which \<open>src\<close> was just bound to \<open>tgt\<close>: by a mount with the options for
  the access mode, or, when the target was a mount point already, by the read-only remount, or by
  nothing when no read-only access is asked for.
\<close>

definition bound :: "'h host \<Rightarrow> string \<Rightarrow> string \<Rightarrow> bool \<Rightarrow> 'h \<Rightarrow> bool" where
  "bound H src tgt ro h' \<longleftrightarrow>
     (\<exists>h. mnt_mount H h src tgt (if ro then [''bind'', ''ro''] else [''bind'']) = (None, h')) \<or>
     (if ro then \<exists>h. mnt_remount_ro H h src tgt = (None, h') else \<not> fst (mnt_likely_not H h' tgt))"

lemma mount_or_remount_bound:
  assumes "mount_or_remount H args notMnt h = (None, h')" "fst (mnt_likely_not H h (targetPath args)) = notMnt"
  shows "bound H (hostPath args) (targetPath args) (readOnly args) h'"
  using assms by (auto simp: mount_or_remount_def bound_def split: if_splits prod.splits option.splits)

lemma bindMount_bound:
  assumes "bindMount H args h = (None, h')"
  shows "os_exists H h (hostPath args) = Inr True \<and> bound H (hostPath args) (targetPath args) (readOnly args) h'"
  using assms
  by (auto simp: bindMount_def intro: mount_or_remount_bound split: sum.splits if_splits prod.splits option.splits)

text \<open>Operations of the host inside an operation of a publisher.\<close>

lemma on_host_eq:
  "on_host f st = (a, st') \<longleftrightarrow> (\<exists>h. f (w_host (snd st)) = (a, h) \<and> st' = put_host h st)"
  by (auto simp: on_host_def split: prod.splits)

lemma put_host_fields [simp]:
  "fst (put_host h st) = fst st" "w_host (snd (put_host h st)) = h" "w_db (snd (put_host h st)) = w_db (snd st)"
  "w_cache (snd (put_host h st)) = w_cache (snd st)"
  by (simp_all add: put_host_def)

lemma put_host_pair [simp]:
  "(a, b) = put_host h st \<longleftrightarrow> a = fst st \<and> b = (snd st)\<lparr>w_host := h\<rparr>"
  "put_host h st = (a, b) \<longleftrightarrow> a = fst st \<and> b = (snd st)\<lparr>w_host := h\<rparr>"
  by (auto simp: put_host_def)

lemma mount_at_success:
  assumes "mount_at H resp args st = ((Some resp', None), st')"
  shows "resp' = resp \<and> bound H (hostPath args) (targetPath args) (readOnly args) (w_host (snd st'))"
  using assms by (auto simp: mount_at_def on_host_eq dest!: bindMount_bound split: prod.splits)

lemma mount_directory_success:
  assumes "mount_directory H ty p req st = ((Some resp, None), st')"
  shows "VolumePath resp = p \<and> bound H p (TargetPath req) False (w_host (snd st'))"
  using assms by (auto simp: mount_directory_def dest: mount_at_success)

lemma mount_socket_success:
  assumes "mount_socket H resp p t st = ((Some resp', None), st')"
  shows "resp' = resp \<and> os_stat H (w_host (snd st)) p = Inr KSocket \<and> bound H p t False (w_host (snd st'))"
  using assms
  by (auto simp: mount_socket_def isSocketPath_def split: sum.splits if_splits dest!: mount_at_success)

section \<open>A node in memory\<close>

text \<open>
  A node with the library \<open>aa\<close>, which holds \<open>/datadog-init/package\<close>, and the APM socket; the
  volume \<open>v1\<close> is linked to the library and mounted at \<open>/t/v1\<close>.
\<close>

definition node_host :: mem_state where
  "node_host =
     \<lparr>mh_nodes = [([[], ''s'', ''apm''], MSock), ([[], ''t'', ''v1''], MDir),
                  ([[], ''d'', ''store'', ''aa'', ''datadog-init'', ''package''], MDir)] @ mh_nodes demo_host,
      mh_mounts = [(''/t/v1'', ''/d/store/aa/datadog-init/package'', True)], mh_broken = [], mh_next = 0\<rparr>"

definition node_state :: "(mem_state, mem_db, mem_net) pstate" where
  "node_state = (Immediate, demo_world\<lparr>w_host := node_host\<rparr>)"

definition node_paths :: socket_paths where
  "node_paths = \<lparr>apmSocketPath = ''/s/apm'', dsdSocketPath = ''/s/dsd''\<rparr>"

definition node_publishers :: "publisher list" where
  "node_publishers = GetPublishers node_paths mem_base True [''gcr.io'']"

definition library_request :: publish_request where
  "library_request =
     \<lparr>VolumeId = ''v1'', TargetPath = ''/t/v9'', Readonly = True,
      VolumeContext = [''type'' \<mapsto> DatadogLibrary, keyLibraryPackage \<mapsto> ''java'',
        keyLibraryRegistry \<mapsto> ''gcr.io'', keyLibraryVersion \<mapsto> ''v1'']\<rparr>"

definition v1_unpublish :: unpublish_request where
  "v1_unpublish = \<lparr>un_VolumeId = ''v1'', un_TargetPath = ''/t/v1''\<rparr>"

section \<open>Which publisher serves a request\<close>

lemma chain_route:
  "chain_Publish M (GetPublishers paths base apm regs) req st =
     (let ty = ctx req ''type'' in
      if ty = DatadogLibrary \<and> base \<noteq> [] then
        library_Publish M \<lparr>lp_disabled = \<not> apm, allowedRegistries = regs\<rparr> req st
      else if ty = DatadogInjectorPreload \<and> base \<noteq> [] then
        injector_Publish (lm_fs M)
          \<lparr>preloadFilePath = path_join [base, ''ld.so.preload''], ip_disabled = \<not> apm\<rparr> req st
      else if ty = APMSocket \<or> ty = DSDSocket then socket_Publish (lm_fs M) paths req st
      else if ty = APMSocketDirectory \<or> ty = DSDSocketDirectory \<or> ty = DatadogSocketsDirectory then
        local_Publish (lm_fs M) paths req st
      else if legacy_request modeSocket req then socket_legacy_Publish (lm_fs M) paths req st
      else if legacy_request modeLocal req then local_legacy_Publish (lm_fs M) paths req st
      else ((None, None), st))"
  by (simp add: chain_find GetPublishers_eq Let_def volume_types)

text \<open>
  C17: Routing. The chain the driver builds is the case distinction on the volume type: each type
  goes to its own publisher, a request without a type to the deprecated mode/path publishers, and
  everything else, library and preload volumes of a driver without storage included, gets neither
  a response nor an error and leaves the node alone.
\<close>
theorem publish_routing:
  "chain_Publish M (GetPublishers paths base apm regs) req st =
     (let ty = ctx req ''type'' in
      if ty = DatadogLibrary \<and> base \<noteq> [] then
        library_Publish M \<lparr>lp_disabled = \<not> apm, allowedRegistries = regs\<rparr> req st
      else if ty = DatadogInjectorPreload \<and> base \<noteq> [] then
        injector_Publish (lm_fs M)
          \<lparr>preloadFilePath = path_join [base, ''ld.so.preload''], ip_disabled = \<not> apm\<rparr> req st
      else if ty = APMSocket \<or> ty = DSDSocket then socket_Publish (lm_fs M) paths req st
      else if ty = APMSocketDirectory \<or> ty = DSDSocketDirectory \<or> ty = DatadogSocketsDirectory then
        local_Publish (lm_fs M) paths req st
      else if legacy_request modeSocket req then socket_legacy_Publish (lm_fs M) paths req st
      else if legacy_request modeLocal req then local_legacy_Publish (lm_fs M) paths req st
      else ((None, None), st))"
  by (rule chain_route)

section \<open>What a successful publish mounted\<close>

text \<open>The host paths of the sockets and of their directories.\<close>

definition socket_sources :: "socket_paths \<Rightarrow> string set" where
  "socket_sources p =
     {apmSocketPath p, dsdSocketPath p, path_dir (apmSocketPath p), path_dir (dsdSocketPath p)}"

definition ssi_type :: "volume_type \<Rightarrow> bool" where
  "ssi_type t \<longleftrightarrow> t = DatadogLibrary \<or> t = DatadogInjectorPreload"

lemma ssi_types [simp]:
  "ssi_type DatadogLibrary" "ssi_type DatadogInjectorPreload" "DatadogInjectorPreload \<noteq> DatadogLibrary"
  "\<not> ssi_type APMSocket" "\<not> ssi_type DSDSocket" "\<not> ssi_type APMSocketDirectory"
  "\<not> ssi_type DSDSocketDirectory" "\<not> ssi_type DatadogSocketsDirectory"
  "\<not> ssi_type modeSocket" "\<not> ssi_type modeLocal"
  by (simp_all add: ssi_type_def volume_types modeSocket_def modeLocal_def)

lemma socket_family_success:
  assumes "socket_Publish H p req st = ((Some resp, None), st') \<or> local_Publish H p req st = ((Some resp, None), st') \<or>
     socket_legacy_Publish H p req st = ((Some resp, None), st') \<or>
     local_legacy_Publish H p req st = ((Some resp, None), st')"
  shows "\<not> ssi_type (VolumeType resp) \<and> VolumePath resp \<in> socket_sources p \<and>
    bound H (VolumePath resp) (TargetPath req) False (w_host (snd st'))"
  using assms
proof (elim disjE)
  assume "socket_Publish H p req st = ((Some resp, None), st')"
  then show ?thesis
    by (auto simp: socket_Publish_def Let_def socket_sources_def split: if_splits dest!: mount_socket_success)
next
  assume "local_Publish H p req st = ((Some resp, None), st')"
  then show ?thesis
    by (auto simp: local_Publish_def mount_directory_def Let_def socket_sources_def
        split: if_splits dest!: mount_at_success)
next
  assume "socket_legacy_Publish H p req st = ((Some resp, None), st')"
  then show ?thesis
    by (auto simp: socket_legacy_Publish_def not_allowed_def Let_def socket_sources_def
        split: if_splits dest!: mount_socket_success)
next
  assume "local_legacy_Publish H p req st = ((Some resp, None), st')"
  then show ?thesis
    by (auto simp: local_legacy_Publish_def mount_directory_def not_allowed_def Let_def socket_sources_def
        split: if_splits dest!: mount_at_success)
qed

lemma injector_success:
  assumes "injector_Publish H p req st = ((Some resp, None), st')"
  shows "VolumeType resp = DatadogInjectorPreload \<and> \<not> ip_disabled p \<and> Readonly req \<and>
    bound H (preloadFilePath p) (TargetPath req) True (w_host (snd st'))"
  using assms
  by (auto simp: injector_Publish_def Let_def on_host_eq split: if_splits prod.splits option.splits
      dest!: bindMount_bound)

lemma library_success:
  assumes "library_Publish M s req st = ((Some resp, None), st')"
  shows "\<exists>src st1. VolumeType resp = DatadogLibrary \<and> \<not> lp_disabled s \<and> Readonly req \<and>
    registryAllowed s (ctx req keyLibraryRegistry) \<and>
    getLibraryPath M req st = ((Inr src, VolumePath resp), st1) \<and>
    st' = put_host (w_host (snd st')) st1 \<and> bound (lm_fs M) src (TargetPath req) True (w_host (snd st'))"
  using assms
  by (auto simp: library_Publish_def Let_def on_host_eq split: if_splits prod.splits sum.splits
      dest!: bindMount_bound)



text \<open>
  C18: Library and preload requests that are not permitted, because SSI is disabled, the access is
  not read-only or the registry is not in the allow list, fail with an error and leave the node,
  the manager and the cleanup strategy as they were.
\<close>
theorem forbidden_requests_rejected:
  assumes "ssi_type (ctx req ''type'')" "base \<noteq> []"
    and "\<not> apm \<or> \<not> Readonly req \<or>
      (ctx req ''type'' = DatadogLibrary \<and> regs \<noteq> [] \<and> ctx req keyLibraryRegistry \<notin> set regs)"
  shows "\<exists>resp e. chain_Publish M (GetPublishers paths base apm regs) req st = ((Some resp, Some e), st) \<and>
    VolumeType resp = ctx req ''type''"
proof (cases "ctx req ''type'' = DatadogLibrary")
  case True
  then show ?thesis using assms by (auto simp: chain_route library_Publish_def registryAllowed_def Let_def)
next
  case False
  then have "ctx req ''type'' = DatadogInjectorPreload" using assms(1) by (simp add: ssi_type_def)
  then show ?thesis using assms False by (auto simp: chain_route injector_Publish_def Let_def)
qed

theorem forbidden_requests_rejected_witness:
  "snd (chain_Publish mem_manager (GetPublishers node_paths mem_base True [''ghcr.io'']) library_request node_state) =
     node_state"
proof -
  have f: "ssi_type (ctx library_request ''type'')" "mem_base \<noteq> []"
      "ctx library_request ''type'' = DatadogLibrary \<and> [''ghcr.io''] \<noteq> [] \<and>
       ctx library_request keyLibraryRegistry \<notin> set [''ghcr.io'']"
    by code_simp+
  obtain resp e where "chain_Publish mem_manager (GetPublishers node_paths mem_base True [''ghcr.io'']) library_request
      node_state = ((Some resp, Some e), node_state)"
    using forbidden_requests_rejected [OF f(1,2)] f(3) by blast
  then show ?thesis by (simp only: snd_conv)
qed

end
