(* ===== verification/Csi_Publisher_Safety.thy ===== *)
theory Csi_Publisher_Safety
  imports Csi_Publisher_Props
begin

text \<open>
  The publishers and the library manager together: the operations of the publishers on the node
  never disturb the store, so the invariant of the manager holds across publishes and unpublishes,
  and a library mount shows a directory inside the library its volume is linked to.
\<close>

section \<open>Targets outside the storage directory\<close>

text \<open>
  Target paths belong to the kubelet. The laws say that an operation on a target outside the
  storage directory leaves everything below it alone, that writing the preload file does not
  touch the store, and that \<open>EvalSymlinks\<close> maps clean absolute paths to such paths.
\<close>

locale publishing_node = manager M base
  for M :: "('h, 'r, 'd, 'n) library_manager" and base :: string +
  fixes outside :: "string \<Rightarrow> bool"
  assumes eval_clean: "clean_abs q \<Longrightarrow> os_eval_symlinks (lm_fs M) h q = Inr r \<Longrightarrow> clean_abs r"
    and mkdir_out: "outside t \<Longrightarrow> clean_abs q \<Longrightarrow> below base q \<Longrightarrow>
      same_at (lm_fs M) h (snd (os_mkdir_all (lm_fs M) h t)) q"
    and create_out: "outside t \<Longrightarrow> clean_abs q \<Longrightarrow> below base q \<Longrightarrow>
      same_at (lm_fs M) h (snd (os_create (lm_fs M) h t)) q"
    and chmod_out: "outside t \<Longrightarrow> clean_abs q \<Longrightarrow> below base q \<Longrightarrow>
      same_at (lm_fs M) h (snd (os_chmod (lm_fs M) h t m)) q"
    and mount_out: "outside t \<Longrightarrow> clean_abs q \<Longrightarrow> below base q \<Longrightarrow>
      same_at (lm_fs M) h (snd (mnt_mount (lm_fs M) h s t opts)) q"
    and remount_out: "outside t \<Longrightarrow> clean_abs q \<Longrightarrow> below base q \<Longrightarrow>
      same_at (lm_fs M) h (snd (mnt_remount_ro (lm_fs M) h s t)) q"
    and unmount_out: "outside t \<Longrightarrow> clean_abs q \<Longrightarrow> below base q \<Longrightarrow>
      same_at (lm_fs M) h (snd (mnt_unmount (lm_fs M) h t)) q"
    and remove_out: "outside t \<Longrightarrow> clean_abs q \<Longrightarrow> below base q \<Longrightarrow>
      same_at (lm_fs M) h (snd (os_remove_all (lm_fs M) h t)) q"
    and preload_out: "clean_abs q \<Longrightarrow> below (lm_store M) q \<Longrightarrow>
      same_at (lm_fs M) h (snd (os_write_file (lm_fs M) h (path_join [base, ''ld.so.preload'']) c)) q"
begin

definition keeps :: "'h \<Rightarrow> 'h \<Rightarrow> bool" where
  "keeps h h' \<longleftrightarrow> (\<forall>q. clean_abs q \<longrightarrow> below (lm_store M) q \<longrightarrow> same_at (lm_fs M) h h' q)"

lemma keeps_refl [simp]: "keeps h h"
  by (simp add: keeps_def)

lemma keeps_trans: "keeps h h1 \<Longrightarrow> keeps h1 h2 \<Longrightarrow> keeps h h2"
  unfolding keeps_def by (blast intro: same_at_trans)

lemma keeps_out:
  assumes "\<And>q. clean_abs q \<Longrightarrow> below base q \<Longrightarrow> same_at (lm_fs M) h (snd r) q"
  shows "keeps h (snd r)"
  using assms sdir_below unfolding keeps_def by (auto intro: below_trans)

lemma outside_keeps:
  assumes "outside t"
  shows "keeps h (snd (os_mkdir_all (lm_fs M) h t))" "keeps h (snd (os_create (lm_fs M) h t))"
    "keeps h (snd (os_chmod (lm_fs M) h t m))" "keeps h (snd (mnt_mount (lm_fs M) h s t opts))"
    "keeps h (snd (mnt_remount_ro (lm_fs M) h s t))" "keeps h (snd (mnt_unmount (lm_fs M) h t))"
    "keeps h (snd (os_remove_all (lm_fs M) h t))"
  by (rule keeps_out; simp add: assms mkdir_out create_out chmod_out mount_out remount_out unmount_out remove_out)+

lemma keeps_result: "keeps h (snd r) \<Longrightarrow> r = (e, h') \<Longrightarrow> keeps h h'"
  by simp

lemmas out_results = outside_keeps [THEN keeps_result]

lemma createHostPath_keeps:
  assumes "createHostPath (lm_fs M) t f h = (e, h')" "outside t"
  shows "keeps h h'"
  using assms(1)
  by (auto simp: createHostPath_def split: sum.splits if_splits prod.splits option.splits
      dest: out_results [OF assms(2)] intro: keeps_trans)

lemma mount_or_remount_keeps:
  assumes "mount_or_remount (lm_fs M) args b h = (e, h')" "outside (targetPath args)"
  shows "keeps h h'"
  using assms(1)
  by (auto simp: mount_or_remount_def split: if_splits prod.splits option.splits
      dest: out_results [OF assms(2)])

lemma bindMount_keeps:
  assumes "bindMount (lm_fs M) args h = (e, h')" "outside (targetPath args)"
  shows "keeps h h'"
  using assms
  by (auto simp: bindMount_def split: sum.splits if_splits prod.splits option.splits
      dest: createHostPath_keeps mount_or_remount_keeps intro: keeps_trans)

lemma bindUnmount_keeps:
  assumes "bindUnmount (lm_fs M) t h = (e, h')" "outside t"
  shows "keeps h h'"
  using assms keeps_trans [OF outside_keeps(6) outside_keeps(7), OF assms(2,2)]
  by (auto simp: bindUnmount_def split: sum.splits if_splits)

lemma ensurePreload_keeps:
  assumes "ensurePreloadFileExists (lm_fs M) p h = (e, h')" "preloadFilePath p = path_join [base, ''ld.so.preload'']"
  shows "keeps h h'"
proof (cases "h' = h")
  case False
  then have "h' = snd (os_write_file (lm_fs M) h (path_join [base, ''ld.so.preload'']) defaultPreloadContent)"
    using assms by (auto simp: ensurePreloadFileExists_def split: sum.splits bool.splits)
  then show ?thesis using preload_out by (simp add: keeps_def)
qed simp

lemma held_keeps: "keeps h h' \<Longrightarrow> plain i \<Longrightarrow> held (lm_fs M) (lm_store M) h' i = held (lm_fs M) (lm_store M) h i"
  by (intro same_held) (simp add: keeps_def item_clean item_below_sdir)

lemma put_host_ok:
  assumes "mgr_ok M st" "keeps (w_host (snd st)) h"
  shows "mgr_ok M (put_host h st)"
proof -
  have "links_held M (snd (put_host h st))"
    using assms held_keeps by (auto simp: mgr_ok_def safe_def links_held_def put_host_def)
  then show ?thesis using assms by (auto simp: mgr_ok_def safe_def put_host_def)
qed

lemma on_host_ok:
  assumes "on_host f st = (a, st')" "mgr_ok M st" "\<And>h a h'. f h = (a, h') \<Longrightarrow> keeps h h'"
  shows "mgr_ok M st'"
  using assms put_host_ok [OF assms(2)] by (auto simp: on_host_eq simp del: split_paired_All)

section \<open>Every publisher keeps the invariant of the manager\<close>

abbreviation room :: "('h, 'd, 'n) pstate \<Rightarrow> bool" where
  "room st \<equiv> int (card (dom (lg_vols (lm_ledger M (snd st))))) + 1 < 2 ^ 63"

lemma on_host_bind_ok:
  assumes "on_host (bindMount (lm_fs M) args) st = (e, st')" "mgr_ok M st" "outside (targetPath args)"
  shows "mgr_ok M st'"
  using on_host_ok [OF assms(1,2)] bindMount_keeps [OF _ assms(3)] by blast

lemma mount_at_ok:
  assumes "mount_at (lm_fs M) resp args st = (r, st')" "mgr_ok M st" "outside (targetPath args)"
  shows "mgr_ok M st'"
  using assms(1) on_host_bind_ok [OF _ assms(2,3)] by (auto simp: mount_at_def split: prod.splits)

lemma socket_family_ok:
  assumes "mgr_ok M st" "outside (TargetPath req)"
  shows "mgr_ok M (snd (socket_Publish (lm_fs M) p req st))" "mgr_ok M (snd (local_Publish (lm_fs M) p req st))"
    "mgr_ok M (snd (socket_legacy_Publish (lm_fs M) p req st))"
    "mgr_ok M (snd (local_legacy_Publish (lm_fs M) p req st))"
proof -
  have at: "mgr_ok M (snd (mount_at (lm_fs M) resp args st))" if "targetPath args = TargetPath req" for resp args
    using mount_at_ok [OF _ assms(1), of resp args] assms(2) that by (metis prod.collapse)
  have dir: "mgr_ok M (snd (mount_directory (lm_fs M) ty q req st))" for ty q
    by (simp add: mount_directory_def at)
  have sock: "mgr_ok M (snd (mount_socket (lm_fs M) resp q (TargetPath req) st))" for resp q
    using assms(1) by (simp add: mount_socket_def at split: sum.split)
  show "mgr_ok M (snd (socket_Publish (lm_fs M) p req st))" "mgr_ok M (snd (local_Publish (lm_fs M) p req st))"
    "mgr_ok M (snd (socket_legacy_Publish (lm_fs M) p req st))"
    "mgr_ok M (snd (local_legacy_Publish (lm_fs M) p req st))"
    using assms(1) dir sock
    by (simp_all add: publisher_defs Let_def)
qed

lemma injector_ok:
  assumes "injector_Publish (lm_fs M) p req st = (r, st')" "mgr_ok M st" "outside (TargetPath req)"
    and "preloadFilePath p = path_join [base, ''ld.so.preload'']"
  shows "mgr_ok M st'"
proof -
  obtain e st1 where e: "on_host (ensurePreloadFileExists (lm_fs M) p) st = (e, st1)" by (metis surj_pair)
  then have st1: "mgr_ok M st1"
    using on_host_ok [OF e assms(2)] ensurePreload_keeps [OF _ assms(4)] by blast
  show ?thesis
    using assms(1,2,3) e st1
    by (auto simp: injector_Publish_def Let_def simp del: split_paired_All split: if_splits prod.splits option.splits
        dest!: on_host_bind_ok)
qed

lemma check_source_ok:
  assumes "check_source M v bp p st = (r, st')" "mgr_ok M st"
  shows "mgr_ok M st'"
proof (cases "validateLibrarySourcePath (lm_fs M) (w_host (snd st)) bp p")
  case (Inl err)
  obtain rr s' w' where rv: "RemoveVolume M v (fst st) (snd st) = ((rr, s'), w')" by (metis prod.collapse)
  have "mgr_ok M (s', w')"
    using remove_volume_safe [OF rv] assms(2) by (auto simp: mgr_ok_def)
  then show ?thesis using assms(1) Inl rv by (auto simp: check_source_def split: sum.splits)
qed (use assms in \<open>auto simp: check_source_def\<close>)

lemma getLibraryPath_ok:
  assumes "getLibraryPath M req st = (r, st')" "mgr_ok M st" "room st"
  shows "mgr_ok M st'"
proof -
  have get: "mgr_ok M (fst st, w1)" if "lm_GetLibraryForVolume M v lib (snd st) = (x, w1)" for v lib x w1
    using get_library_safe [OF that] assms(2,3) by (simp add: mgr_ok_def)
  show ?thesis
    using assms(1,2)
    by (auto simp: getLibraryPath_def Let_def split: sum.splits prod.splits dest!: get dest: check_source_ok)
qed

lemma library_ok:
  assumes "library_Publish M s req st = (r, st')" "mgr_ok M st" "room st" "outside (TargetPath req)"
  shows "mgr_ok M st'"
proof -
  obtain x img st1 where g: "getLibraryPath M req st = ((x, img), st1)" by (metis prod.collapse)
  have st1: "mgr_ok M st1" using getLibraryPath_ok [OF g assms(2,3)] .
  show ?thesis
    using assms(1,2,4) g st1
    by (auto simp: library_Publish_def Let_def simp del: split_paired_All split: if_splits prod.splits sum.splits
        dest!: on_host_bind_ok)
qed

lemma chain_Publish_ok:
  assumes "mgr_ok M st" "room st" "outside (TargetPath req)"
  shows "mgr_ok M (snd (chain_Publish M (GetPublishers paths base apm regs) req st))"
proof -
  have "mgr_ok M (snd (library_Publish M s req st))" for s
    using library_ok [OF _ assms] by (metis prod.collapse)
  moreover have "mgr_ok M (snd (injector_Publish (lm_fs M)
      \<lparr>preloadFilePath = path_join [base, ''ld.so.preload''], ip_disabled = \<not> apm\<rparr> req st))"
    using injector_ok [OF _ assms(1,3)] by (metis prod.collapse injector_preload.select_convs(1))
  ultimately show ?thesis
    using assms(1) socket_family_ok [OF assms(1,3)] by (simp add: chain_route Let_def)
qed

lemma on_host_unbind_ok:
  assumes "on_host (bindUnmount (lm_fs M) t) st = (e, st')" "mgr_ok M st" "outside t"
  shows "mgr_ok M st'"
  using on_host_ok [OF assms(1,2)] bindUnmount_keeps [OF _ assms(3)] by blast

lemma library_Unpublish_ok:
  assumes "library_Unpublish M req st = (r, st')" "mgr_ok M st" "outside (un_TargetPath req)"
  shows "mgr_ok M st'"
proof -
  obtain e st1 where e: "on_host (bindUnmount (lm_fs M) (un_TargetPath req)) st = (e, st1)" by (metis surj_pair)
  have st1: "mgr_ok M st1" using on_host_unbind_ok [OF e assms(2,3)] .
  obtain rr s' w' where rv: "RemoveVolume M (un_VolumeId req) (fst st1) (snd st1) = ((rr, s'), w')"
    by (metis prod.collapse)
  have "mgr_ok M (s', w')" using remove_volume_safe [OF rv] st1 by (auto simp: mgr_ok_def)
  then show ?thesis
    using assms(1,2) e st1 rv
    by (auto simp: library_Unpublish_def Let_def split: sum.splits bool.splits option.splits)
qed

lemma chain_Unpublish_ok:
  assumes "mgr_ok M st" "outside (un_TargetPath req)"
  shows "mgr_ok M (snd (chain_Unpublish M (GetPublishers paths storage apm regs) req st))"
proof -
  have lib: "mgr_ok M st' " if "library_Unpublish M req st = (r, st')" for r st'
    using library_Unpublish_ok [OF that assms] .
  have um: "mgr_ok M st''" if "unmount_Unpublish (lm_fs M) req st' = (r, st'')" "mgr_ok M st'" for r st' st''
    using that(1) on_host_unbind_ok [OF _ that(2) assms(2)]
    by (auto simp: unmount_Unpublish_def split: prod.splits)
  show ?thesis
    using assms(1) lib um
    by (auto simp: chain_Unpublish_def GetPublishers_eq simp del: split_paired_All
        split: prod.split option.split)
qed

lemma library_confined:
  assumes "library_Publish M s req st = ((Some resp, None), st')" "mgr_ok M st" "room st"
  shows "\<exists>w1 rec b src. st' = put_host (w_host (snd st')) (fst st, w1) \<and>
    lg_vols (lm_ledger M w1) (VolumeId req) = Some rec \<and>
    os_eval_symlinks (lm_fs M) (w_host w1) (store_path (lm_store M) (LibraryID rec)) = Inr b \<and>
    below b src \<and> src \<noteq> b \<and> bound (lm_fs M) src (TargetPath req) True (w_host (snd st'))"
proof -
  obtain src st1 where src: "getLibraryPath M req st = ((Inr src, VolumePath resp), st1)"
      "st' = put_host (w_host (snd st')) st1" "bound (lm_fs M) src (TargetPath req) True (w_host (snd st'))"
    using library_success [OF assms(1)] by blast
  then obtain lib bp w1 where get: "lm_GetLibraryForVolume M (VolumeId req) (Some lib) (snd st) = (Inr bp, w1)"
      and chk: "check_source M (VolumeId req) bp (path_join [bp, library_source (ctx req keyLibraryPackage)])
        (fst st, w1) = (Inr src, st1)"
    by (auto simp: getLibraryPath_def Let_def split: sum.splits prod.splits)
  have st1: "st1 = (fst st, w1)" and val: "validateLibrarySourcePath (lm_fs M) (w_host w1) bp
      (path_join [bp, library_source (ctx req keyLibraryPackage)]) = Inr src"
    using chk by (auto simp: check_source_def split: sum.splits prod.splits)
  obtain rec where rec: "lg_vols (lm_ledger M w1) (VolumeId req) = Some rec"
      "bp = store_path (lm_store M) (LibraryID rec)" "plain (LibraryID rec)"
    using get_library_safe [OF get] assms(2,3)
    by (auto simp: resolved_def mgr_ok_def safe_def links_held_def)
  then have "clean_abs bp" by (simp add: item_clean)
  from validate_inside [OF val this clean_abs_join_any [OF this]] eval_clean
  obtain b where "os_eval_symlinks (lm_fs M) (w_host w1) bp = Inr b" "below b src" "src \<noteq> b" by blast
  then show ?thesis using src rec(1,2) st1 by blast
qed

lemma base_nonempty: "base \<noteq> []"
  using base_clean by (auto simp: clean_abs_def rooted_def)

lemma library_unpublished:
  assumes "library_Unpublish M req st = ((resp, e), st')" "mgr_ok M st" "outside (un_TargetPath req)"
    and "tx_begin (lm_db M) (w_db (snd st)) = None" "lg_vols (lm_ledger M (snd st)) (un_VolumeId req) = Some rec"
  shows "resp \<noteq> None \<and> lg_vols (lm_ledger M (snd st')) =
    (if e = None then (lg_vols (lm_ledger M (snd st)))(un_VolumeId req := None) else lg_vols (lm_ledger M (snd st)))"
proof -
  have has: "HasVolume M (un_VolumeId req) (snd st) = Inr True"
    using volume_found [OF _ assms(4,5)] assms(2) by (simp add: HasVolume_def mgr_ok_def)
  obtain ue st1 where u: "on_host (bindUnmount (lm_fs M) (un_TargetPath req)) st = (ue, st1)" by (metis surj_pair)
  have st1: "mgr_ok M st1" "w_db (snd st1) = w_db (snd st)"
    using on_host_unbind_ok [OF u assms(2,3)] u by (auto simp: on_host_eq)
  obtain rr s' w' where rv: "RemoveVolume M (un_VolumeId req) (fst st1) (snd st1) = ((rr, s'), w')"
    by (metis prod.collapse)
  have "lg_vols (lm_ledger M w') = (if rr = Inr () then (lg_vols (lm_ledger M (snd st1)))(un_VolumeId req := None)
      else lg_vols (lm_ledger M (snd st1)))"
    using remove_volume_safe [OF rv] st1 by (simp add: mgr_ok_def)
  then show ?thesis
    using assms(1) has u rv st1(2)
    by (cases ue; cases rr) (auto simp: library_Unpublish_def Let_def)
qed

end

section \<open>The in-memory node\<close>

definition mem_outside :: "string \<Rightarrow> bool" where
  "mem_outside t \<longleftrightarrow> clean_abs t \<and> unrelated mem_base t"

lemma mem_outside_apart:
  assumes "mem_outside t" "clean_abs q" "below mem_base q"
  shows "apart (mem_words t) (mem_words q)"
proof -
  have "unrelated t q"
    using assms(1,3) unrelated_below [of mem_base t q] unrelated_sym by (auto simp: mem_outside_def)
  then show ?thesis using assms by (simp add: mem_outside_def unrelated_apart)
qed

lemma mem_node_ops:
  "os_mkdir_all mem_host h p = mem_fail ''MkdirAll'' h (None, mem_put h (mem_words p) MDir)"
  "os_create mem_host h p = mem_fail ''Create'' h (None, mem_put h (mem_words p) (MFile []))"
  "os_remove_all mem_host h p = mem_remove_all h p"
  "os_write_file mem_host h p c = mem_fail ''WriteFile'' h (None, mem_put h (mem_words p) (MFile c))"
  "os_eval_symlinks mem_host h p = (if map_of (mh_nodes h) (mem_words p) = None then Inl ErrNotExist else Inr (path_clean p))"
  by (simp_all add: mem_host_def)

lemma mem_mounts_same [frames]:
  "same_at mem_host h (snd (mnt_mount mem_host h s t opts)) q" "same_at mem_host h (snd (mnt_unmount mem_host h t)) q"
  "same_at mem_host h (snd (mnt_remount_ro mem_host h s t)) q" "same_at mem_host h (snd (os_chmod mem_host h t m)) q"
  by (simp_all add: same_at_def mem_host_def mem_fail_def mem_stat_def mem_read_dir_def split: option.split)

lemma mem_put_same [frames]:
  assumes "apart (mem_words t) (mem_words q)"
  shows "same_at mem_host h (snd (mem_fail op h (None, mem_put h (mem_words t) n))) q"
  using assms by (intro mem_fail_frame) (simp add: mem_put_frame [OF prefix_order.refl])

lemma mem_preload_apart:
  assumes "clean_abs q" "below ''/d/store'' q"
  shows "apart (mem_words ''/d/ld.so.preload'') (mem_words q)"
proof -
  have c: "clean_abs mem_base" "plain ''store''" "plain ''ld.so.preload''" by (code_simp+)
  have p: "path_join [mem_base, ''store''] = ''/d/store''"
      "path_join [mem_base, ''ld.so.preload''] = ''/d/ld.so.preload''" by (code_simp+)
  have "clean_abs ''/d/ld.so.preload''" using clean_abs_join [OF c(1,3)] p by simp
  then show ?thesis
    using unrelated_siblings [OF c(1,3,2), of "''/d/ld.so.preload''" q] p assms
    by (simp add: unrelated_apart)
qed

interpretation mem_node: publishing_node mem_manager mem_base mem_outside
proof (rule publishing_node.intro)
  have p: "path_join [mem_base, ''ld.so.preload''] = ''/d/ld.so.preload''" "lm_store mem_manager = ''/d/store''"
    by code_simp+
  show "publishing_node_axioms mem_manager mem_base mem_outside"
    by (rule publishing_node_axioms.intro)
      (use p in \<open>auto simp: frames mem_node_ops mem_outside_apart
         mem_preload_apart clean_abs_def split: if_splits\<close>)
qed (rule mem_mgr.manager_axioms)

lemma node_ok: "mgr_ok mem_manager node_state"
proof -
  have "held mem_host (path_join [mem_base, ''store'']) node_host ''aa''" "plain ''aa''"
    by code_simp+
  then have "links_held mem_manager (snd node_state)"
    by (auto simp: links_held_def node_state_def demo_world_def demo_ledger split: if_splits)
  then show ?thesis
    using demo_ok demo_consistent by (simp add: mgr_ok_def safe_def node_state_def demo_world_def cache_for_def)
qed

lemma node_room: "int (card (dom (lg_vols (lm_ledger mem_manager (snd node_state))))) + 1 < 2 ^ 63"
  using demo_room by (simp add: node_state_def)

lemma node_tracked:
  "lg_vols (lm_ledger mem_manager (snd node_state)) ''v1'' = Some \<lparr>LibraryID = ''aa'', CreatedAt = 1, FromCache = False\<rparr>"
  "tx_begin (lm_db mem_manager) (w_db (snd node_state)) = None"
  by (simp add: node_state_def demo_world_def demo_ledger)
     (simp add: node_state_def demo_world_def demo_db_def mem_bolt_def)

lemma node_outside: "mem_outside ''/t/v9''" "mem_outside ''/t/v1''"
  by code_simp+

section \<open>Properties\<close>

text \<open>
  C11: A library mount shows a directory strictly inside the library its volume is linked to,
  whatever symbolic links the image holds: when the publish succeeds, the volume is recorded, the
  source lies below the resolved directory of the library it is recorded under and is not that
  directory itself, the target was bound to it read-only, and only the host has changed since the
  library was resolved.
\<close>
theorem library_mount_confined:
  assumes "publishing_node M base outside" "mgr_ok M st" "outside (TargetPath req)"
    and "int (card (dom (lg_vols (lm_ledger M (snd st))))) + 1 < 2 ^ 63"
    and "library_Publish M s req st = ((Some resp, None), st')"
  shows "\<exists>w1 rec b src. st' = put_host (w_host (snd st')) (fst st, w1) \<and>
    lg_vols (lm_ledger M w1) (VolumeId req) = Some rec \<and>
    os_eval_symlinks (lm_fs M) (w_host w1) (store_path (lm_store M) (LibraryID rec)) = Inr b \<and>
    below b src \<and> src \<noteq> b \<and> bound (lm_fs M) src (TargetPath req) True (w_host (snd st')) \<and> mgr_ok M st'"
  using publishing_node.library_confined [OF assms(1,5,2,4)] publishing_node.library_ok [OF assms(1,5,2,4,3)]
  by metis

theorem library_mount_confined_witness:
  "\<exists>b src. os_eval_symlinks mem_host node_host ''/d/store/aa'' = Inr b \<and> below b src \<and> src \<noteq> b"
proof -
  define s where "s = \<lparr>lp_disabled = False, allowedRegistries = [''gcr.io'']\<rparr>"
  define st' where "st' = snd (library_Publish mem_manager s library_request node_state)"
  have run: "library_Publish mem_manager s library_request node_state =
      ((Some \<lparr>VolumeType = DatadogLibrary, VolumePath = ''gcr.io/java:v1''\<rparr>, None), st')"
    unfolding st'_def s_def by (rule prod_eqI) (code_simp, simp)
  have t: "TargetPath library_request = ''/t/v9''" "VolumeId library_request = ''v1''"
    by (simp_all add: library_request_def)
  obtain w1 rec b src where w1: "st' = put_host (w_host (snd st')) (fst node_state, w1)"
      "lg_vols (lm_ledger mem_manager w1) ''v1'' = Some rec"
      "os_eval_symlinks mem_host (w_host w1) (store_path (lm_store mem_manager) (LibraryID rec)) = Inr b"
      "below b src \<and> src \<noteq> b"
    using library_mount_confined [OF mem_node.publishing_node_axioms node_ok _ node_room run]
      node_outside(1) t by auto
  have "w_db (snd st') = demo_db" unfolding st'_def s_def by code_simp
  then have "w_db w1 = demo_db" using w1(1) by (metis put_host_fields(3) snd_conv)
  then have "rec = \<lparr>LibraryID = ''aa'', CreatedAt = 1, FromCache = False\<rparr>"
    using w1(2) by (simp add: demo_ledger)
  moreover have "store_path (lm_store mem_manager) ''aa'' = ''/d/store/aa''"
      "path_clean ''/d/store/aa'' = ''/d/store/aa''"
      "os_eval_symlinks mem_host node_host ''/d/store/aa'' = Inr ''/d/store/aa''"
    by code_simp+
  ultimately show ?thesis using w1(3,4) by (auto simp: mem_node_ops split: if_splits)
qed

text \<open>
  C13: Unpublishing a tracked volume releases exactly its library: the chain answers; when it
  reports no error the volume is unlinked and otherwise no link has changed; every other volume
  keeps its link and its library stays mountable.
\<close>
theorem unpublish_releases:
  assumes "publishing_node M base outside" "mgr_ok M st" "outside (un_TargetPath req)"
    and "tx_begin (lm_db M) (w_db (snd st)) = None" "lg_vols (lm_ledger M (snd st)) (un_VolumeId req) = Some rec"
    and "chain_Unpublish M (GetPublishers paths base apm regs) req st = ((resp, e), st')"
  shows "resp \<noteq> None \<and>
    lg_vols (lm_ledger M (snd st')) =
      (if e = None then (lg_vols (lm_ledger M (snd st)))(un_VolumeId req := None) else lg_vols (lm_ledger M (snd st))) \<and>
    (u \<noteq> un_VolumeId req \<and> lg_vols (lm_ledger M (snd st)) u = Some other \<longrightarrow>
       store_get (lm_fs M) (lm_store M) (w_host (snd st')) (LibraryID other) =
         Inr (store_path (lm_store M) (LibraryID other)))"
proof -
  obtain r0 st0 where run: "library_Unpublish M req st = (r0, st0)" by (metis surj_pair)
  then obtain resp0 e0 where r0: "r0 = (resp0, e0)" by (metis surj_pair)
  note lib = publishing_node.library_unpublished [OF assms(1) run [unfolded r0] assms(2-5)]
  then have st0: "resp0 = resp" "e0 = e" "st0 = st'"
    using assms(6) run r0 publishing_node.base_nonempty [OF assms(1)]
    by (auto simp: chain_Unpublish_def GetPublishers_eq split: option.splits)
  have ok: "mgr_ok M st'" using publishing_node.library_Unpublish_ok [OF assms(1) run assms(2,3)] st0 by simp
  have "store_get (lm_fs M) (lm_store M) (w_host (snd st')) (LibraryID other) =
      Inr (store_path (lm_store M) (LibraryID other))"
    if u: "u \<noteq> un_VolumeId req" "lg_vols (lm_ledger M (snd st)) u = Some other"
  proof -
    have "lg_vols (lm_ledger M (snd st')) u = Some other" using lib st0 u by (auto split: if_splits)
    then have "plain (LibraryID other)" "lm_held M (snd st') (LibraryID other)"
      using ok by (auto simp: mgr_ok_def safe_def links_held_def)
    then show ?thesis
      using item_store.get_Inr [OF manager.store_of [OF publishing_node.axioms(1) [OF assms(1)]]] by blast
  qed
  then show ?thesis using lib st0 by blast
qed

theorem unpublish_releases_witness:
  "lg_vols (lm_ledger mem_manager (snd (snd (chain_Unpublish mem_manager node_publishers v1_unpublish node_state)))) ''v1'' = None"
proof -
  define st' where "st' = snd (chain_Unpublish mem_manager node_publishers v1_unpublish node_state)"
  have run: "chain_Unpublish mem_manager (GetPublishers node_paths mem_base True [''gcr.io'']) v1_unpublish node_state =
      ((Some \<lparr>VolumeType = DatadogLibrary, VolumePath = []\<rparr>, None), st')"
    unfolding st'_def node_publishers_def by (rule prod_eqI) (code_simp, simp)
  have v: "un_VolumeId v1_unpublish = ''v1''" "mem_outside (un_TargetPath v1_unpublish)"
    using node_outside by (simp_all add: v1_unpublish_def)
  show ?thesis
    using unpublish_releases [OF mem_node.publishing_node_axioms node_ok v(2) node_tracked(2) _ run] v node_tracked(1)
    by (simp add: st'_def)
qed

text \<open>An unpublish for which the database cannot say whether the volume is tracked.\<close>

lemma unpublish_declined:
  assumes "HasVolume M (un_VolumeId req) (snd st) = Inl err"
    and "os_exists (lm_fs M) (w_host (snd st)) (un_TargetPath req) = Inr b"
  shows "\<exists>st'. chain_Unpublish M (GetPublishers paths base apm regs) req st =
      ((Some \<lparr>VolumeType = [], VolumePath = []\<rparr>, None), st') \<and> w_db (snd st') = w_db (snd st) \<and>
      w_host (snd st') = snd (bindUnmount (lm_fs M) (un_TargetPath req) (w_host (snd st)))"
  using assms
  by (simp add: chain_Unpublish_def GetPublishers_eq library_Unpublish_def unmount_Unpublish_def on_host_def
      bindUnmount_def Let_def)

text \<open>
  When the database cannot say whether a volume is tracked, the library publisher steps aside
  and the fallback unmounts the target and reports success: the database is left as it was, so the
  link of the volume, which the kubelet will not ask about again, stays recorded.
\<close>
theorem unpublish_forgets_link:
  assumes "HasVolume M (un_VolumeId req) (snd st) = Inl err"
    and "os_exists (lm_fs M) (w_host (snd st)) (un_TargetPath req) = Inr b"
  shows "\<exists>st'. chain_Unpublish M (GetPublishers paths base apm regs) req st =
      ((Some \<lparr>VolumeType = [], VolumePath = []\<rparr>, None), st') \<and> w_db (snd st') = w_db (snd st)"
  using unpublish_declined [OF assms] by blast

theorem unpublish_forgets_link_witness:
  "fst (chain_Unpublish mem_manager node_publishers v1_unpublish
     (Immediate, (snd node_state)\<lparr>w_db := demo_db\<lparr>mb_closed := True\<rparr>\<rparr>)) =
   (Some \<lparr>VolumeType = [], VolumePath = []\<rparr>, None)"
proof -
  let ?st = "(Immediate, (snd node_state)\<lparr>w_db := demo_db\<lparr>mb_closed := True\<rparr>\<rparr>)"
  have f: "HasVolume mem_manager (un_VolumeId v1_unpublish) (snd ?st) = Inl (ExtErr ''database not open'')"
      "os_exists (lm_fs mem_manager) (w_host (snd ?st)) (un_TargetPath v1_unpublish) = Inr True"
    by code_simp+
  obtain st' where "chain_Unpublish mem_manager (GetPublishers node_paths mem_base True [''gcr.io'']) v1_unpublish ?st =
      ((Some \<lparr>VolumeType = [], VolumePath = []\<rparr>, None), st')"
    using unpublish_forgets_link [OF f] by blast
  then show ?thesis by (simp only: node_publishers_def fst_conv)
qed

end
