(* ===== verification/Csi_Metrics.thy ===== *)
theory Csi_Metrics
  imports Lib_Events
begin

text \<open>
  \<open>pkg/metrics\<close>: the metric vectors the driver declares, the functions that record into them,
  and the listener that turns the events of the library manager into metrics.
\<close>

section \<open>The Prometheus client\<close>

text \<open>
  The client library is a parameter: \<open>pm_inc\<close>, \<open>pm_set\<close> and \<open>pm_observe\<close> act on the series
  of a vector (by name) with some label values, \<open>pm_reset\<close> deletes all series of a vector;
  \<open>counter_value\<close> and \<open>gauge_value\<close> are what a scrape shows. An observation is the duration in
  whole seconds and the nanoseconds that remain.
\<close>

record 'm prom =
  pm_inc :: "string \<Rightarrow> string list \<Rightarrow> 'm \<Rightarrow> 'm"
  pm_set :: "string \<Rightarrow> string list \<Rightarrow> int \<Rightarrow> 'm \<Rightarrow> 'm"
  pm_observe :: "string \<Rightarrow> string list \<Rightarrow> int \<times> int \<Rightarrow> 'm \<Rightarrow> 'm"
  pm_reset :: "string \<Rightarrow> 'm \<Rightarrow> 'm"
  counter_value :: "'m \<Rightarrow> string \<Rightarrow> string list \<Rightarrow> nat"
  gauge_value :: "'m \<Rightarrow> string \<Rightarrow> string list \<Rightarrow> int option"

locale prometheus =
  fixes P :: "'m prom"
  assumes inc_counter: "counter_value P (pm_inc P n ls m) n' ls' =
      counter_value P m n' ls' + (if n' = n \<and> ls' = ls then 1 else 0)"
    and set_counter: "n' \<noteq> n \<Longrightarrow> counter_value P (pm_set P n ls x m) n' ls' = counter_value P m n' ls'"
    and observe_counter: "n' \<noteq> n \<Longrightarrow> counter_value P (pm_observe P n ls d m) n' ls' = counter_value P m n' ls'"
    and reset_counter: "n' \<noteq> n \<Longrightarrow> counter_value P (pm_reset P n m) n' ls' = counter_value P m n' ls'"
    and set_gauge: "gauge_value P (pm_set P n ls x m) n' ls' =
      (if n' = n \<and> ls' = ls then Some x else gauge_value P m n' ls')"
    and reset_gauge: "gauge_value P (pm_reset P n m) n' ls' = (if n' = n then None else gauge_value P m n' ls')"
    and inc_gauge: "n' \<noteq> n \<Longrightarrow> gauge_value P (pm_inc P n ls m) n' ls' = gauge_value P m n' ls'"
    and observe_gauge: "n' \<noteq> n \<Longrightarrow> gauge_value P (pm_observe P n ls d m) n' ls' = gauge_value P m n' ls'"

section \<open>Declarations\<close>

text \<open>Histogram buckets are kept in milliseconds.\<close>

record metric_vec =
  mv_name :: string
  mv_help :: string
  mv_labels :: "string list"
  mv_buckets :: "int list"

definition separator :: string where "separator = ''_''"
definition subsystem :: string where "subsystem = ''datadog_csi_driver''"
definition MetricsPort :: int where "MetricsPort = 5000"

definition newCounterVec :: "string \<Rightarrow> string \<Rightarrow> string list \<Rightarrow> metric_vec" where
  "newCounterVec name help labels =
     \<lparr>mv_name = subsystem @ separator @ name, mv_help = help, mv_labels = labels, mv_buckets = []\<rparr>"

definition newHistogramVec :: "string \<Rightarrow> string \<Rightarrow> int list \<Rightarrow> string list \<Rightarrow> metric_vec" where
  "newHistogramVec name help buckets labels =
     \<lparr>mv_name = subsystem @ separator @ name, mv_help = help, mv_labels = labels, mv_buckets = buckets\<rparr>"

definition newGaugeVec :: "string \<Rightarrow> string \<Rightarrow> string list \<Rightarrow> metric_vec" where
  "newGaugeVec name help labels =
     \<lparr>mv_name = subsystem @ separator @ name, mv_help = help, mv_labels = labels, mv_buckets = []\<rparr>"

definition downloadDurationBuckets :: "int list" where
  "downloadDurationBuckets = [100, 250, 500, 1000, 2500, 5000, 10000, 30000, 60000, 120000, 300000]"

definition nodeVolumeMountAttempts :: metric_vec where
  "nodeVolumeMountAttempts = newCounterVec ''node_publish_volume_attempts''
     ''Counts the number of publish volume requests received by the csi node server''
     [''type'', ''path'', ''status'']"

definition nodeVolumeUnmountAttempts :: metric_vec where
  "nodeVolumeUnmountAttempts = newCounterVec ''node_unpublish_volume_attempts''
     ''Counts the number of unpublish volume requests received by the csi node server'' [''status'']"

definition libraryResolutions :: metric_vec where
  "libraryResolutions = newCounterVec ''library_resolutions_total''
     ''Counts the outcome of attempts to resolve a library for a volume'' [''library'', ''result'']"

definition libraryDownloadDuration :: metric_vec where
  "libraryDownloadDuration = newHistogramVec ''library_download_duration_seconds''
     ''Time spent downloading a library from the registry'' downloadDurationBuckets [''library'', ''registry'']"

definition libraryCleanup :: metric_vec where
  "libraryCleanup = newCounterVec ''library_cleanup_total''
     ''Counts cleanup attempts for unused libraries'' [''library'', ''status'', ''strategy'']"

definition librariesCached :: metric_vec where
  "librariesCached = newGaugeVec ''libraries_cached''
     ''Number of library versions currently stored on disk, per package'' [''library'']"

definition librariesCachedBytes :: metric_vec where
  "librariesCachedBytes = newGaugeVec ''libraries_cached_bytes''
     ''Cumulative on-disk size of cached libraries, in bytes, per package'' [''library'']"

definition libraryVolumeLinks :: metric_vec where
  "libraryVolumeLinks = newGaugeVec ''library_volume_links''
     ''Number of volumes currently linked to a library'' [''library'']"

text \<open>\<open>prometheus.MustRegister\<close> panics, here \<open>None\<close>, when a name is taken.\<close>

fun must_register :: "metric_vec list \<Rightarrow> string list \<Rightarrow> string list option" where
  "must_register [] names = Some names"
| "must_register (v # vs) names =
     (if mv_name v \<in> set names then None else must_register vs (mv_name v # names))"

definition metrics_init :: "string list \<Rightarrow> string list option" where
  "metrics_init = must_register
     [nodeVolumeMountAttempts, nodeVolumeUnmountAttempts, libraryResolutions, libraryDownloadDuration,
      libraryCleanup, librariesCached, librariesCachedBytes, libraryVolumeLinks]"

section \<open>Recording\<close>

text \<open>\<open>v.WithLabelValues(ls...)\<close> panics when the number of values is not the number of labels.\<close>

definition with_labels ::
  "metric_vec \<Rightarrow> string list \<Rightarrow> (string \<Rightarrow> string list \<Rightarrow> 'm \<Rightarrow> 'm) \<Rightarrow> 'm \<Rightarrow> 'm option" where
  "with_labels v ls act m = (if length ls = length (mv_labels v) then Some (act (mv_name v) ls m) else None)"

datatype status = StatusSuccess | StatusFailed | StatusUnsupported

fun status_string :: "status \<Rightarrow> string" where
  "status_string StatusSuccess = ''success''"
| "status_string StatusFailed = ''failed''"
| "status_string StatusUnsupported = ''unsupported''"

fun resolution_string :: "resolution \<Rightarrow> string" where
  "resolution_string ResolutionCacheHit = ''cache_hit''"
| "resolution_string ResolutionDownloaded = ''downloaded''"
| "resolution_string ResolutionFailed = ''failed''"

fun cleanup_string :: "cleanup_status \<Rightarrow> string" where
  "cleanup_string CleanupSuccess = ''success''"
| "cleanup_string CleanupFailed = ''failed''"
| "cleanup_string CleanupSkippedInUse = ''skipped_in_use''"

text \<open>
  The conversion of an \<open>int\<close> or \<open>int64\<close> to \<open>float64\<close>: a number of more than 53 bits is rounded
  to the nearest multiple of the power of two that leaves 53 bits, to an even quotient on a tie.
\<close>

fun bit_length :: "nat \<Rightarrow> nat" where
  "bit_length n = (if n = 0 then 0 else Suc (bit_length (n div 2)))"

declare bit_length.simps [simp del]

definition round_at :: "nat \<Rightarrow> int \<Rightarrow> int" where
  "round_at k a =
     (let q = a div 2 ^ k; r = a mod 2 ^ k
      in (if 2 * r < 2 ^ k \<or> (2 * r = 2 ^ k \<and> even q) then q else q + 1) * 2 ^ k)"

definition float64 :: "int \<Rightarrow> int" where
  "float64 x = sgn x * round_at (bit_length (nat \<bar>x\<bar>) - 53) \<bar>x\<bar>"

text \<open>\<open>Duration.Seconds\<close>, before its floating-point addition; Go's division truncates.\<close>

definition Seconds :: "int \<Rightarrow> int \<times> int" where
  "Seconds d = (sgn d * (\<bar>d\<bar> div 1000000000), sgn d * (\<bar>d\<bar> mod 1000000000))"

definition RecordVolumeMountAttempt :: "'m prom \<Rightarrow> string \<Rightarrow> string \<Rightarrow> status \<Rightarrow> 'm \<Rightarrow> 'm option" where
  "RecordVolumeMountAttempt P volumeType path st =
     with_labels nodeVolumeMountAttempts [volumeType, path, status_string st] (pm_inc P)"

definition RecordVolumeUnMountAttempt :: "'m prom \<Rightarrow> status \<Rightarrow> 'm \<Rightarrow> 'm option" where
  "RecordVolumeUnMountAttempt P st = with_labels nodeVolumeUnmountAttempts [status_string st] (pm_inc P)"

definition RecordLibraryResolution :: "'m prom \<Rightarrow> string \<Rightarrow> resolution \<Rightarrow> 'm \<Rightarrow> 'm option" where
  "RecordLibraryResolution P library result =
     with_labels libraryResolutions [library, resolution_string result] (pm_inc P)"

definition ObserveLibraryDownloadDuration :: "'m prom \<Rightarrow> string \<Rightarrow> string \<Rightarrow> int \<Rightarrow> 'm \<Rightarrow> 'm option" where
  "ObserveLibraryDownloadDuration P library registry d =
     with_labels libraryDownloadDuration [library, registry] (\<lambda>n ls. pm_observe P n ls (Seconds d))"

definition RecordLibraryCleanup :: "'m prom \<Rightarrow> string \<Rightarrow> cleanup_status \<Rightarrow> string \<Rightarrow> 'm \<Rightarrow> 'm option" where
  "RecordLibraryCleanup P library st strategy =
     with_labels libraryCleanup [library, cleanup_string st, strategy] (pm_inc P)"

definition SetLibrariesCachedForLibrary :: "'m prom \<Rightarrow> string \<Rightarrow> int \<Rightarrow> 'm \<Rightarrow> 'm option" where
  "SetLibrariesCachedForLibrary P library count =
     with_labels librariesCached [library] (\<lambda>n ls. pm_set P n ls (float64 count))"

definition SetLibrariesCachedBytesForLibrary :: "'m prom \<Rightarrow> string \<Rightarrow> int \<Rightarrow> 'm \<Rightarrow> 'm option" where
  "SetLibrariesCachedBytesForLibrary P library bytes =
     with_labels librariesCachedBytes [library] (\<lambda>n ls. pm_set P n ls (float64 bytes))"

definition SetLibraryVolumeLinksForLibrary :: "'m prom \<Rightarrow> string \<Rightarrow> int \<Rightarrow> 'm \<Rightarrow> 'm option" where
  "SetLibraryVolumeLinksForLibrary P library links =
     with_labels libraryVolumeLinks [library] (\<lambda>n ls. pm_set P n ls (float64 links))"

section \<open>The listener\<close>

text \<open>A loop over a Go map, in the order \<open>ks\<close> of its keys.\<close>

fun range_map :: "(string \<Rightarrow> int \<Rightarrow> 'm \<Rightarrow> 'm option) \<Rightarrow> (string \<rightharpoonup> int) \<Rightarrow> string list \<Rightarrow> 'm \<Rightarrow> 'm option" where
  "range_map f mp [] m = Some m"
| "range_map f mp (k # ks) m =
     (case f k (map_index mp k) m of None \<Rightarrow> None | Some m' \<Rightarrow> range_map f mp ks m')"

definition set_cached :: "'m prom \<Rightarrow> string \<Rightarrow> int \<Rightarrow> int \<Rightarrow> 'm \<Rightarrow> 'm option" where
  "set_cached P library count bytes m =
     Option.bind (SetLibrariesCachedForLibrary P library count m) (SetLibrariesCachedBytesForLibrary P library bytes)"

definition on_snapshot :: "'m prom \<Rightarrow> ((string \<rightharpoonup> int) \<Rightarrow> string list) \<Rightarrow> snapshot \<Rightarrow> 'm \<Rightarrow> 'm option" where
  "on_snapshot P keys s m =
     (let m1 = pm_reset P (mv_name librariesCached) m;
          m2 = pm_reset P (mv_name librariesCachedBytes) m1;
          m3 = pm_reset P (mv_name libraryVolumeLinks) m2
      in case range_map (SetLibrariesCachedForLibrary P) (CachedCountByLibrary s) (keys (CachedCountByLibrary s)) m3 of
           None \<Rightarrow> None
         | Some m4 \<Rightarrow>
      case range_map (SetLibrariesCachedBytesForLibrary P) (CachedBytesByLibrary s) (keys (CachedBytesByLibrary s)) m4 of
           None \<Rightarrow> None
         | Some m5 \<Rightarrow>
      range_map (SetLibraryVolumeLinksForLibrary P) (VolumeLinksByLibrary s) (keys (VolumeLinksByLibrary s)) m5)"

fun handle_event :: "'m prom \<Rightarrow> ((string \<rightharpoonup> int) \<Rightarrow> string list) \<Rightarrow> event \<Rightarrow> 'm \<Rightarrow> 'm option" where
  "handle_event P keys (OnLibraryResolved l r) m = RecordLibraryResolution P l r m"
| "handle_event P keys (OnLibraryDownload l g d) m = ObserveLibraryDownloadDuration P l g d m"
| "handle_event P keys (OnLibraryCleanup l st strat) m = RecordLibraryCleanup P l st strat m"
| "handle_event P keys (OnLibraryCached l c b) m = set_cached P l c b m"
| "handle_event P keys (OnLibraryEvicted l c b) m = set_cached P l c b m"
| "handle_event P keys (OnVolumeLinked l n) m = SetLibraryVolumeLinksForLibrary P l n m"
| "handle_event P keys (OnVolumeUnlinked l n) m = SetLibraryVolumeLinksForLibrary P l n m"
| "handle_event P keys (OnSnapshot s) m = on_snapshot P keys s m"

definition NewLibraryListener :: "'m prom \<Rightarrow> ((string \<rightharpoonup> int) \<Rightarrow> string list) \<Rightarrow> 'm listener" where
  "NewLibraryListener P keys = handle_event P keys"

text \<open>The events of a run, one after the other.\<close>

fun handle_events :: "'m prom \<Rightarrow> ((string \<rightharpoonup> int) \<Rightarrow> string list) \<Rightarrow> event list \<Rightarrow> 'm \<Rightarrow> 'm option" where
  "handle_events P keys [] m = Some m"
| "handle_events P keys (e # es) m =
     (case handle_event P keys e m of None \<Rightarrow> None | Some m' \<Rightarrow> handle_events P keys es m')"

section \<open>A client in memory\<close>

record mem_metrics =
  mm_incs :: "(string \<times> string list) list"
  mm_gauges :: "((string \<times> string list) \<times> int) list"

definition mem_prom :: "mem_metrics prom" where
  "mem_prom =
     \<lparr>pm_inc = (\<lambda>n ls m. m\<lparr>mm_incs := (n, ls) # mm_incs m\<rparr>),
      pm_set = (\<lambda>n ls x m. m\<lparr>mm_gauges := ((n, ls), x) # mm_gauges m\<rparr>),
      pm_observe = (\<lambda>n ls d m. m),
      pm_reset = (\<lambda>n m. m\<lparr>mm_incs := filter (\<lambda>s. fst s \<noteq> n) (mm_incs m),
                         mm_gauges := filter (\<lambda>s. fst (fst s) \<noteq> n) (mm_gauges m)\<rparr>),
      counter_value = (\<lambda>m n ls. count_list (mm_incs m) (n, ls)),
      gauge_value = (\<lambda>m n ls. map_of (mm_gauges m) (n, ls))\<rparr>"

lemma count_list_filter: "count_list (filter Q xs) x = (if Q x then count_list xs x else 0)"
  by (induction xs) auto

lemma map_of_filter_fst: "map_of (filter (\<lambda>s. Q (fst s)) xs) k = (if Q k then map_of xs k else None)"
  by (induction xs) auto

interpretation mem_prom: prometheus mem_prom
  by unfold_locales
    (auto simp: mem_prom_def count_list_filter map_of_filter_fst [where Q = "\<lambda>k. fst k \<noteq> x" for x])

section \<open>What a scrape shows\<close>

lemmas vector_names = newCounterVec_def newGaugeVec_def newHistogramVec_def subsystem_def separator_def
  nodeVolumeMountAttempts_def nodeVolumeUnmountAttempts_def libraryResolutions_def libraryDownloadDuration_def
  libraryCleanup_def librariesCached_def librariesCachedBytes_def libraryVolumeLinks_def

lemmas record_defs = RecordVolumeMountAttempt_def RecordVolumeUnMountAttempt_def RecordLibraryResolution_def
  ObserveLibraryDownloadDuration_def RecordLibraryCleanup_def SetLibrariesCachedForLibrary_def
  SetLibrariesCachedBytesForLibrary_def SetLibraryVolumeLinksForLibrary_def

lemma vector_arity [simp]:
  "length (mv_labels nodeVolumeMountAttempts) = 3" "length (mv_labels nodeVolumeUnmountAttempts) = 1"
  "length (mv_labels libraryResolutions) = 2" "length (mv_labels libraryDownloadDuration) = 2"
  "length (mv_labels libraryCleanup) = 3" "length (mv_labels librariesCached) = 1"
  "length (mv_labels librariesCachedBytes) = 1" "length (mv_labels libraryVolumeLinks) = 1"
  by (simp_all add: vector_names)

lemma names_differ [simp]:
  "mv_name librariesCached \<noteq> mv_name librariesCachedBytes" "mv_name librariesCached \<noteq> mv_name libraryVolumeLinks"
  "mv_name librariesCachedBytes \<noteq> mv_name libraryVolumeLinks" "mv_name librariesCachedBytes \<noteq> mv_name librariesCached"
  "mv_name libraryVolumeLinks \<noteq> mv_name librariesCached" "mv_name libraryVolumeLinks \<noteq> mv_name librariesCachedBytes"
  by (simp_all add: vector_names)

text \<open>A loop that sets one gauge per key is the map itself.\<close>

lemma range_map_total:
  assumes "\<And>k x m. f k x m \<noteq> None"
  shows "range_map f mp ks m \<noteq> None"
proof (induction ks arbitrary: m)
  case (Cons k ks)
  obtain m' where "f k (map_index mp k) m = Some m'" using assms by blast
  then show ?case using Cons by simp
qed simp

context prometheus
begin

definition sets_gauge :: "metric_vec \<Rightarrow> (string \<Rightarrow> int \<Rightarrow> 'm \<Rightarrow> 'm option) \<Rightarrow> bool" where
  "sets_gauge v f \<longleftrightarrow> (\<forall>k x m. f k x m = Some (pm_set P (mv_name v) [k] (float64 x) m))"

lemma range_map_gauges:
  assumes "range_map f mp ks m = Some m'" "sets_gauge v f"
  shows "gauge_value P m' n ls =
    (if n = mv_name v \<and> (\<exists>k\<in>set ks. ls = [k]) then Some (float64 (map_index mp (hd ls))) else gauge_value P m n ls)"
  using assms(1)
proof (induction ks arbitrary: m)
  case (Cons k ks)
  have "f k (map_index mp k) m = Some (pm_set P (mv_name v) [k] (float64 (map_index mp k)) m)"
    using assms(2) by (simp add: sets_gauge_def)
  then show ?case using Cons by (auto simp: set_gauge)
qed simp

lemma range_map_gauge:
  assumes "range_map f mp ks m = Some m'" "sets_gauge v f" "set ks = dom mp"
  shows "gauge_value P m' (mv_name v) [l] =
    (case mp l of None \<Rightarrow> gauge_value P m (mv_name v) [l] | Some x \<Rightarrow> Some (float64 x))"
    "n \<noteq> mv_name v \<Longrightarrow> gauge_value P m' n ls = gauge_value P m n ls"
  using range_map_gauges [OF assms(1,2)] assms(3) by (auto simp: map_index_def split: option.split)

lemma gauge_setters:
  "sets_gauge librariesCached (SetLibrariesCachedForLibrary P)"
  "sets_gauge librariesCachedBytes (SetLibrariesCachedBytesForLibrary P)"
  "sets_gauge libraryVolumeLinks (SetLibraryVolumeLinksForLibrary P)"
  by (simp_all add: sets_gauge_def record_defs with_labels_def)

lemma snapshot_gauge:
  assumes "on_snapshot P keys s m = Some m'"
    and "set (keys (CachedCountByLibrary s)) = dom (CachedCountByLibrary s)"
    and "set (keys (CachedBytesByLibrary s)) = dom (CachedBytesByLibrary s)"
    and "set (keys (VolumeLinksByLibrary s)) = dom (VolumeLinksByLibrary s)"
  shows "gauge_value P m' (mv_name librariesCached) [l] = map_option float64 (CachedCountByLibrary s l)"
    "gauge_value P m' (mv_name librariesCachedBytes) [l] = map_option float64 (CachedBytesByLibrary s l)"
    "gauge_value P m' (mv_name libraryVolumeLinks) [l] = map_option float64 (VolumeLinksByLibrary s l)"
proof -
  obtain m3 m4 m5 where steps: "m3 = pm_reset P (mv_name libraryVolumeLinks)
        (pm_reset P (mv_name librariesCachedBytes) (pm_reset P (mv_name librariesCached) m))"
      "range_map (SetLibrariesCachedForLibrary P) (CachedCountByLibrary s) (keys (CachedCountByLibrary s)) m3 = Some m4"
      "range_map (SetLibrariesCachedBytesForLibrary P) (CachedBytesByLibrary s) (keys (CachedBytesByLibrary s)) m4 = Some m5"
      "range_map (SetLibraryVolumeLinksForLibrary P) (VolumeLinksByLibrary s) (keys (VolumeLinksByLibrary s)) m5 = Some m'"
    using assms(1) by (auto simp: on_snapshot_def Let_def split: option.splits)
  note g1 = range_map_gauge [OF steps(2) gauge_setters(1) assms(2)]
  note g2 = range_map_gauge [OF steps(3) gauge_setters(2) assms(3)]
  note g3 = range_map_gauge [OF steps(4) gauge_setters(3) assms(4)]
  show "gauge_value P m' (mv_name librariesCached) [l] = map_option float64 (CachedCountByLibrary s l)"
    by (simp add: g1 g2 g3 steps(1) reset_gauge split: option.split)
  show "gauge_value P m' (mv_name librariesCachedBytes) [l] = map_option float64 (CachedBytesByLibrary s l)"
    by (simp add: g1 g2 g3 steps(1) reset_gauge split: option.split)
  show "gauge_value P m' (mv_name libraryVolumeLinks) [l] = map_option float64 (VolumeLinksByLibrary s l)"
    by (simp add: g1 g2 g3 steps(1) reset_gauge split: option.split)
qed

end

section \<open>Properties\<close>

lemma handle_event_total: "handle_event P keys e m \<noteq> None"
proof -
  have "on_snapshot P keys s m \<noteq> None" for s
  proof -
    have "range_map (SetLibrariesCachedForLibrary P) mp ks m \<noteq> None"
        "range_map (SetLibrariesCachedBytesForLibrary P) mp ks m \<noteq> None"
        "range_map (SetLibraryVolumeLinksForLibrary P) mp ks m \<noteq> None" for mp ks m
      by (intro range_map_total; simp add: record_defs with_labels_def)+
    then show ?thesis by (simp add: on_snapshot_def Let_def del: not_None_eq split: option.split)
  qed
  then show ?thesis by (cases e) (simp_all add: set_cached_def record_defs with_labels_def)
qed


text \<open>
  C38: Seeding the gauges is a refresh: after \<open>OnSnapshot\<close> the three gauges of every library are
  exactly the aggregates of the snapshot, as floating-point numbers, and a library the snapshot
  does not have has no series left, whatever was shown before and in whichever order the loops
  visit the maps.
\<close>
theorem snapshot_gauges:
  assumes "prometheus P" "handle_event P keys (OnSnapshot s) m = Some m'"
    and "set (keys (CachedCountByLibrary s)) = dom (CachedCountByLibrary s)"
    and "set (keys (CachedBytesByLibrary s)) = dom (CachedBytesByLibrary s)"
    and "set (keys (VolumeLinksByLibrary s)) = dom (VolumeLinksByLibrary s)"
  shows "gauge_value P m' (mv_name librariesCached) [l] = map_option float64 (CachedCountByLibrary s l) \<and>
    gauge_value P m' (mv_name librariesCachedBytes) [l] = map_option float64 (CachedBytesByLibrary s l) \<and>
    gauge_value P m' (mv_name libraryVolumeLinks) [l] = map_option float64 (VolumeLinksByLibrary s l)"
  using prometheus.snapshot_gauge [OF assms(1) _ assms(3-5)] assms(2) by auto

definition stale_metrics :: mem_metrics where
  "stale_metrics = \<lparr>mm_incs = [], mm_gauges = [((mv_name librariesCached, [''ruby'']), 4)]\<rparr>"

definition java_snapshot :: snapshot where
  "java_snapshot =
     \<lparr>CachedCountByLibrary = [''java'' \<mapsto> 1], CachedBytesByLibrary = [''java'' \<mapsto> 7],
      VolumeLinksByLibrary = [''java'' \<mapsto> 2]\<rparr>"

theorem snapshot_gauges_witness:
  "gauge_value mem_prom (the (handle_event mem_prom (\<lambda>mp. [''java'']) (OnSnapshot java_snapshot) stale_metrics))
     (mv_name librariesCached) [''ruby''] = None"
proof -
  define m' where "m' = the (handle_event mem_prom (\<lambda>mp. [''java'']) (OnSnapshot java_snapshot) stale_metrics)"
  have "handle_event mem_prom (\<lambda>mp. [''java'']) (OnSnapshot java_snapshot) stale_metrics \<noteq> None"
    by code_simp
  then have run: "handle_event mem_prom (\<lambda>mp. [''java'']) (OnSnapshot java_snapshot) stale_metrics = Some m'"
    by (auto simp: m'_def)
  have "gauge_value mem_prom m' (mv_name librariesCached) [''ruby''] =
      map_option float64 (CachedCountByLibrary java_snapshot ''ruby'')"
    using snapshot_gauges [OF mem_prom.prometheus_axioms run] by (simp add: java_snapshot_def)
  then show ?thesis by (simp add: m'_def java_snapshot_def)
qed

subsection \<open>How precise a gauge is\<close>

lemma bit_length_bounds:
  "n > 0 \<Longrightarrow> n < 2 ^ bit_length n \<and> 2 ^ bit_length n \<le> 2 * n"
proof (induction n rule: bit_length.induct)
  case (1 n)
  show ?case
  proof (cases "n = 1")
    case True
    then show ?thesis by (simp add: bit_length.simps)
  next
    case False
    then have "n div 2 > 0" using "1.prems" by (simp add: div_greater_zero_iff)
    then have "n div 2 < 2 ^ bit_length (n div 2)" "2 ^ bit_length (n div 2) \<le> 2 * (n div 2)"
      using "1.IH" "1.prems" by auto
    then show ?thesis using "1.prems" bit_length.simps [of n] by simp linarith
  qed
qed

lemma bit_length_small: "n < 2 ^ k \<Longrightarrow> bit_length n \<le> k"
proof (rule ccontr)
  assume n: "n < 2 ^ k" "\<not> bit_length n \<le> k"
  then have "n > 0" by (cases n) (simp_all add: bit_length.simps)
  then have "2 ^ Suc k \<le> 2 * n" using bit_length_bounds [of n] n(2)
    by (meson Suc_leI le_trans not_le one_le_numeral power_increasing)
  then show False using n(1) by simp
qed

lemma round_at_0 [simp]: "round_at 0 a = a"
  by (simp add: round_at_def)

lemma round_at_error:
  assumes "0 \<le> a"
  shows "\<bar>round_at (Suc k) a - a\<bar> \<le> 2 ^ k"
proof -
  define q r where "q = a div 2 ^ Suc k" and "r = a mod 2 ^ Suc k"
  have a: "a = q * 2 ^ Suc k + r" by (simp only: q_def r_def div_mult_mod_eq)
  have r: "0 \<le> r" "r < 2 ^ Suc k" by (simp_all add: r_def)
  have "round_at (Suc k) a = (if 2 * r < 2 ^ Suc k \<or> 2 * r = 2 ^ Suc k \<and> even q then q else q + 1) * 2 ^ Suc k"
    by (simp add: round_at_def Let_def q_def r_def)
  moreover have "2 ^ Suc k = 2 * (2 ^ k :: int)" by simp
  ultimately show ?thesis using a r by (auto simp: algebra_simps)
qed

lemma float64_exact: "\<bar>x\<bar> < 2 ^ 53 \<Longrightarrow> float64 x = x"
proof -
  assume "\<bar>x\<bar> < 2 ^ 53"
  then have "nat \<bar>x\<bar> < 2 ^ 53" by (simp add: nat_less_iff)
  then have "bit_length (nat \<bar>x\<bar>) - 53 = 0" using bit_length_small by simp
  then show ?thesis by (simp add: float64_def sgn_mult_abs)
qed

lemma float64_error: "\<bar>float64 x - x\<bar> * 2 ^ 53 \<le> \<bar>x\<bar>"
proof (cases "bit_length (nat \<bar>x\<bar>) - 53")
  case 0
  then show ?thesis by (simp add: float64_def sgn_mult_abs)
next
  case (Suc k)
  then have L: "bit_length (nat \<bar>x\<bar>) = k + 54" by simp
  then have "x \<noteq> 0" by (auto simp: bit_length.simps)
  then have "nat \<bar>x\<bar> > 0" by simp
  then have "2 ^ (k + 54) \<le> 2 * nat \<bar>x\<bar>" using bit_length_bounds [of "nat \<bar>x\<bar>"] L by simp
  then have "int (2 ^ (k + 54)) \<le> int (2 * nat \<bar>x\<bar>)" by (rule zle_int [THEN iffD2])
  then have big: "(2::int) ^ k * 2 ^ 53 \<le> \<bar>x\<bar>" by (simp add: power_add)
  have "\<bar>float64 x - x\<bar> = \<bar>sgn x * (round_at (Suc k) \<bar>x\<bar> - \<bar>x\<bar>)\<bar>"
    using Suc by (simp add: float64_def right_diff_distrib sgn_mult_abs)
  also have "\<dots> = \<bar>round_at (Suc k) \<bar>x\<bar> - \<bar>x\<bar>\<bar>" using \<open>x \<noteq> 0\<close> by (simp add: abs_mult abs_sgn_eq)
  also have "\<dots> \<le> 2 ^ k" by (rule round_at_error) simp
  finally have "\<bar>float64 x - x\<bar> * 2 ^ 53 \<le> 2 ^ k * 2 ^ 53" by (rule mult_right_mono) simp
  then show ?thesis using big by linarith
qed

text \<open>
  C40: Precision of the byte gauge: the value shown for a cumulated size below 2^53 bytes (8 PiB)
  is that size, and for a larger one it is off by at most one part in 2^53; no other library's
  value changes.
\<close>
theorem bytes_gauge_precision:
  assumes "prometheus P" "SetLibrariesCachedBytesForLibrary P l x m = Some m'"
  shows "\<exists>y. gauge_value P m' (mv_name librariesCachedBytes) [l] = Some y \<and>
    (\<bar>x\<bar> < 2 ^ 53 \<longrightarrow> y = x) \<and> \<bar>y - x\<bar> * 2 ^ 53 \<le> \<bar>x\<bar> \<and>
    (k \<noteq> l \<longrightarrow> gauge_value P m' (mv_name librariesCachedBytes) [k] =
       gauge_value P m (mv_name librariesCachedBytes) [k])"
proof -
  have "m' = pm_set P (mv_name librariesCachedBytes) [l] (float64 x) m"
    using assms(2) by (simp add: SetLibrariesCachedBytesForLibrary_def with_labels_def)
  then show ?thesis
    using prometheus.set_gauge [OF assms(1)] float64_exact float64_error by auto
qed

theorem bytes_gauge_precision_witness:
  "gauge_value mem_prom (the (SetLibrariesCachedBytesForLibrary mem_prom ''java'' 123456789 stale_metrics))
     (mv_name librariesCachedBytes) [''java''] = Some 123456789"
proof -
  define m' where "m' = the (SetLibrariesCachedBytesForLibrary mem_prom ''java'' 123456789 stale_metrics)"
  have "SetLibrariesCachedBytesForLibrary mem_prom ''java'' 123456789 stale_metrics = Some m'"
    by (simp add: m'_def SetLibrariesCachedBytesForLibrary_def with_labels_def)
  then obtain y where "gauge_value mem_prom m' (mv_name librariesCachedBytes) [''java''] = Some y"
      "\<bar>123456789::int\<bar> < 2 ^ 53 \<longrightarrow> y = 123456789"
    using bytes_gauge_precision [OF mem_prom.prometheus_axioms] by blast
  then show ?thesis by (simp add: m'_def)
qed

end
