(* ===== verification/Registry_Auth.thy ===== *)
theory Registry_Auth
  imports Go_Paths
begin

text \<open>
  \<open>pkg/registryauth/registryauth.go\<close>: the registry credentials the driver takes from the
  environment, and the lookup the registry client makes with them.
\<close>

section \<open>The configuration file library\<close>

text \<open>
  Docker's \<open>ConfigFile\<close> is a parameter over states \<open>'c\<close>: \<open>LoadFromReader\<close> merges a document
  into it and may fail, \<open>GetAuthConfig\<close> looks a key up. \<open>ac_rest\<close> holds the fields of
  \<open>types.AuthConfig\<close> that the code does not name. The two constants come from the registry
  client.
\<close>

record auth_config =
  Username :: string
  Password :: string
  ServerAddress :: string
  IdentityToken :: string
  RegistryToken :: string
  ac_rest :: "string list"

definition empty_auth :: auth_config where
  "empty_auth = \<lparr>Username = [], Password = [], ServerAddress = [], IdentityToken = [], RegistryToken = [], ac_rest = []\<rparr>"

record 'c config_lib =
  cf_new :: 'c
  LoadFromReader :: "'c \<Rightarrow> string \<Rightarrow> goerr option \<times> 'c"
  GetAuthConfig :: "'c \<Rightarrow> string \<Rightarrow> auth_config res"
  DefaultRegistry :: string
  DefaultAuthKey :: string

section \<open>Reading the environment\<close>

definition envPrefix :: string where "envPrefix = ''DD_APM_REGISTRY_AUTH_''"

text \<open>\<open>strings.Cut(s, sep)\<close> with a separator of one byte: before, after, found.\<close>

definition cut :: "char \<Rightarrow> string \<Rightarrow> string \<times> string \<times> bool" where
  "cut c s =
     (if c \<in> set s then (takeWhile (\<lambda>x. x \<noteq> c) s, tl (dropWhile (\<lambda>x. x \<noteq> c) s), True) else (s, [], False))"

fun load_environment :: "'c config_lib \<Rightarrow> string list \<Rightarrow> 'c \<times> bool \<Rightarrow> ('c \<times> bool) res" where
  "load_environment L [] s = Inr s"
| "load_environment L (env # envs) (config, hasCredentials) =
     (case cut (CHR ''='') env of
        (name, value, ok) \<Rightarrow>
          if ok \<and> has_prefix name envPrefix then
            (case LoadFromReader L config value of
               (Some e, _) \<Rightarrow> Inl (Wrapf ''invalid registry credentials: %w'' [] e)
             | (None, config') \<Rightarrow> load_environment L envs (config', True))
          else load_environment L envs (config, hasCredentials))"

definition NewKeychainFromEnvironment :: "'c config_lib \<Rightarrow> string list \<Rightarrow> 'c option res" where
  "NewKeychainFromEnvironment L environ =
     (case load_environment L environ (cf_new L, False) of
        Inl e \<Rightarrow> Inl e
      | Inr (config, hasCredentials) \<Rightarrow> Inr (if \<not> hasCredentials then None else Some config))"

section \<open>Resolving credentials\<close>

text \<open>\<open>authn.Authenticator\<close>: anonymous access, or the four fields handed to \<open>FromConfig\<close>.\<close>

datatype authenticator = Anonymous | FromConfig string string string string

fun resolve_config :: "'c config_lib \<Rightarrow> 'c \<Rightarrow> string list \<Rightarrow> auth_config \<Rightarrow> auth_config res" where
  "resolve_config L k [] config = Inr config"
| "resolve_config L k (key # keys) config =
     (case GetAuthConfig L k (if key = DefaultRegistry L then DefaultAuthKey L else key) of
        Inl e \<Rightarrow> Inl e
      | Inr c \<Rightarrow>
          let c' = c\<lparr>ServerAddress := []\<rparr>
          in if c' \<noteq> empty_auth then Inr c' else resolve_config L k keys c')"

definition Resolve :: "'c config_lib \<Rightarrow> 'c \<Rightarrow> string \<times> string \<Rightarrow> authenticator res" where
  "Resolve L k target =
     (case resolve_config L k [fst target, snd target] empty_auth of
        Inl e \<Rightarrow> Inl e
      | Inr config \<Rightarrow>
          if config = empty_auth then Inr Anonymous
          else Inr (FromConfig (Username config) (Password config) (IdentityToken config) (RegistryToken config)))"

section \<open>Properties\<close>

text \<open>A process environment, and the documents in it.\<close>

definition env_entry :: "string \<times> string \<Rightarrow> string" where
  "env_entry nv = fst nv @ CHR ''='' # snd nv"

definition credential_documents :: "(string \<times> string) list \<Rightarrow> string list" where
  "credential_documents vars = map snd (filter (\<lambda>nv. has_prefix (fst nv) envPrefix) vars)"

fun load_all :: "'c config_lib \<Rightarrow> string list \<Rightarrow> 'c \<Rightarrow> 'c res" where
  "load_all L [] c = Inr c"
| "load_all L (d # ds) c = (case LoadFromReader L c d of (Some e, _) \<Rightarrow> Inl e | (None, c') \<Rightarrow> load_all L ds c')"

lemma cut_entry: "CHR ''='' \<notin> set n \<Longrightarrow> cut (CHR ''='') (env_entry (n, v)) = (n, v, True)"
  by (auto simp: cut_def env_entry_def takeWhile_append dropWhile_append)

lemma load_environment_documents:
  assumes "\<forall>nv\<in>set vars. CHR ''='' \<notin> set (fst nv)"
  shows "load_environment L (map env_entry vars) (c, b) =
    (case load_all L (credential_documents vars) c of
       Inl e \<Rightarrow> Inl (Wrapf ''invalid registry credentials: %w'' [] e)
     | Inr c' \<Rightarrow> Inr (c', b \<or> credential_documents vars \<noteq> []))"
  using assms
proof (induction vars arbitrary: c b)
  case (Cons nv vars)
  obtain n v where nv: "nv = (n, v)" by (metis surj_pair)
  then have "cut (CHR ''='') (env_entry nv) = (n, v, True)" using Cons.prems by (simp add: cut_entry)
  then show ?case
    using Cons nv by (auto simp: credential_documents_def split: prod.split option.split sum.split)
qed (simp add: credential_documents_def)

text \<open>
  The keychain is built from exactly the variables with the driver's prefix: their whole
  values, equals signs included, are loaded in the order of the environment; there is no keychain
  when there is none of them, the first document that does not load is reported, and every other
  variable is ignored.
\<close>
theorem keychain_from_environment:
  assumes "\<forall>nv\<in>set vars. CHR ''='' \<notin> set (fst nv)"
  shows "NewKeychainFromEnvironment L (map env_entry vars) =
    (case load_all L (credential_documents vars) (cf_new L) of
       Inl e \<Rightarrow> Inl (Wrapf ''invalid registry credentials: %w'' [] e)
     | Inr c \<Rightarrow> Inr (if credential_documents vars = [] then None else Some c))"
  using load_environment_documents [OF assms, of L "cf_new L" False]
  by (simp add: NewKeychainFromEnvironment_def split: sum.split)

text \<open>A configuration in memory: documents are kept, and one word is not a document.\<close>

definition mem_config :: "string list config_lib" where
  "mem_config =
     \<lparr>cf_new = [],
      LoadFromReader = (\<lambda>c d. if d = ''bad'' then (Some (ExtErr ''syntax''), c) else (None, c @ [d])),
      GetAuthConfig = (\<lambda>c k. Inr (if k \<in> set c then empty_auth\<lparr>Username := k\<rparr> else empty_auth)),
      DefaultRegistry = ''index.docker.io'', DefaultAuthKey = ''https://index.docker.io/v1/''\<rparr>"

theorem keychain_from_environment_witness:
  "NewKeychainFromEnvironment mem_config
     [''HOME=/root'', ''DD_APM_REGISTRY_AUTH_0=a=b'', ''DD_APM_REGISTRY_AUTH_1=c''] = Inr (Some [''a=b'', ''c''])"
proof -
  let ?vars = "[(''HOME'', ''/root''), (''DD_APM_REGISTRY_AUTH_0'', ''a=b''), (''DD_APM_REGISTRY_AUTH_1'', ''c'')]"
  have "\<forall>nv\<in>set ?vars. CHR ''='' \<notin> set (fst nv)" by code_simp
  note k = keychain_from_environment [OF this, of mem_config]
  have "map env_entry ?vars = [''HOME=/root'', ''DD_APM_REGISTRY_AUTH_0=a=b'', ''DD_APM_REGISTRY_AUTH_1=c'']"
      "credential_documents ?vars = [''a=b'', ''c'']"
    by code_simp+
  then show ?thesis using k by (simp add: mem_config_def)
qed

end
