(* ===== verification/Csi_Driver.thy ===== *)
theory Csi_Driver
  imports Csi_Publisher_Safety Csi_Metrics Registry_Auth
begin

text \<open>
  \<open>pkg/driver\<close>: the CSI identity and node services of the driver, its construction and its stop.
\<close>

section \<open>The driver\<close>

definition CSIDriverName :: string where "CSIDriverName = ''k8s.csi.datadoghq.com''"

text \<open>15 minutes, in nanoseconds as \<open>time.Duration\<close>.\<close>

definition cleanupDelay :: int where "cleanupDelay = 15 * 60 * 1000000000"

text \<open>
  Without storage the library manager is nil; \<open>d_manager\<close> then only stands for the file system
  and the mounter of the driver, which the publishers use.
\<close>

record ('h, 'r, 'd, 'n) driver =
  d_name :: string
  d_version :: string
  d_publisher :: "publisher list"
  d_has_manager :: bool
  d_manager :: "('h, 'r, 'd, 'n) library_manager"

definition driver_Version :: "('h, 'r, 'd, 'n) driver \<Rightarrow> string" where
  "driver_Version d = d_version d"

text \<open>\<open>order\<close> is the order in which a stopped strategy visits its pending cleanups.\<close>

definition driver_Stop ::
  "('h, 'r, 'd, 'n) driver \<Rightarrow> string list \<Rightarrow> ('h, 'd, 'n) pstate \<Rightarrow> goerr option \<times> ('h, 'd, 'n) pstate" where
  "driver_Stop d order st =
     (if \<not> d_has_manager d then (None, st)
      else case lm_Stop (d_manager d) order (fst st) (snd st) of (e, s', w') \<Rightarrow> (e, (s', w')))"

definition createStorageDir :: "'h host \<Rightarrow> string \<Rightarrow> 'h \<Rightarrow> string res \<times> 'h" where
  "createStorageDir H storageBasePath h =
     (let path = trim_space storageBasePath in
      if path = [] then (Inr [], h)
      else
        case os_mkdir_all H h path of
          (Some e, h1) \<Rightarrow> (Inl (Wrapf ''failed to create storage base path: %w'' [] e), h1)
        | (None, h1) \<Rightarrow>
        case os_temp_dir H h1 path ''.write-check-*'' of
          (Inl e, h2) \<Rightarrow> (Inl (Wrapf ''storage base path is not writable: %w'' [] e), h2)
        | (Inr probeDir, h2) \<Rightarrow> (Inr path, snd (os_remove_all H h2 probeDir)))"

text \<open>
  The libraries the driver is built over: \<open>lib_base\<close> is the library code of the manager, with the
  file system and mounter in \<open>lm_fs\<close>, \<open>lib_http\<close> that of the downloaders, \<open>registry_client\<close> the
  registry client with some options, \<open>lib_open_db\<close> is \<open>bbolt.Open\<close>, \<open>lib_keychain\<close> what the
  environment gives, \<open>lib_prom\<close> the metrics client, and \<open>map_order\<close> how a loop visits a Go map.
\<close>

record ('h, 'r, 'd, 'n, 't, 'k, 'm) libs =
  lib_base :: "('h, 'r, 'd, 'n) library_manager"
  lib_http :: "('t, 'k) http_lib"
  registry_client :: "('t, 'k) crane_options \<Rightarrow> 'n net"
  lib_open_db :: "string \<Rightarrow> 'd res"
  lib_keychain :: "'k option res"
  lib_prom :: "'m prom"
  map_order :: "(string \<rightharpoonup> int) \<Rightarrow> string list"

text \<open>The downloader and the options for the manager.\<close>

definition driver_downloader :: "('t, 'k) http_lib \<Rightarrow> 'k option \<Rightarrow> ('t, 'k) downloader" where
  "driver_downloader L keychain =
     (case keychain of None \<Rightarrow> NewDownloader L | Some k \<Rightarrow> NewDownloaderWithKeychain L k)"

definition client_of :: "('h, 'r, 'd, 'n, 't, 'k, 'm) libs \<Rightarrow> ('t, 'k) downloader \<Rightarrow> 'n net" where
  "client_of L d = registry_client L (crane_options_of (lib_http L) d)"

definition driver_options ::
  "('h, 'r, 'd, 'n, 't, 'k, 'm) libs \<Rightarrow> 'k option \<Rightarrow> ('h, 'r, 'd, 'n, 'm) LibraryManagerOption list" where
  "driver_options L keychain =
     [WithFilesystem (lm_fs (lib_base L)),
      WithDownloader (client_of L (driver_downloader (lib_http L) keychain)),
      WithCleanupStrategy (Delayed (NewDelayedCleanupStrategy cleanupDelay)),
      WithEventListener (Some (NewLibraryListener (lib_prom L) (map_order L)))]"

text \<open>With a manager, a driver comes with its cleanup strategy and its listener.\<close>

definition newDatadogCSIDriver ::
  "('h, 'r, 'd, 'n, 't, 'k, 'm) libs \<Rightarrow>
   string \<Rightarrow> socket_paths \<Rightarrow> string \<Rightarrow> string \<Rightarrow> bool \<Rightarrow> string list \<Rightarrow> ('h, 'd, 'n) world \<Rightarrow>
   (('h, 'r, 'd, 'n) driver \<times> (strategy \<times> 'm listener) option) res \<times> ('h, 'd, 'n) world" where
  "newDatadogCSIDriver L name paths storageBasePath version apmEnabled registries w =
     (let M = lib_base L;
          (r, h) = createStorageDir (lm_fs M) storageBasePath (w_host w);
          base = (case r of Inl e \<Rightarrow> [] | Inr p \<Rightarrow> p);
          w1 = w\<lparr>w_host := h\<rparr>;
          build = (\<lambda>has lm.
            \<lparr>d_name = name, d_version = version, d_publisher = GetPublishers paths base apmEnabled registries,
             d_has_manager = has, d_manager = lm\<rparr>)
      in if base = [] then (Inr (build False M, None), w1)
         else
           case lib_keychain L of
             Inl e \<Rightarrow> (Inl (Wrapf ''could not configure registry authentication: %w'' [] e), w1)
           | Inr keychain \<Rightarrow>
           case NewLibraryManager M (lm_fs M) (client_of L (NewDownloader (lib_http L))) (lib_open_db L) base
                  (driver_options L keychain) w1 of
             (Inl e, w2) \<Rightarrow> (Inl e, w2)
           | (Inr u, w2) \<Rightarrow> (Inr (build True (su_manager u), Some (su_strategy u, su_listener u)), w2))"

text \<open>\<open>os\<close> is the operating system: its file system and its mounter.\<close>

definition NewDatadogCSIDriver ::
  "'h host \<Rightarrow> ('h, 'r, 'd, 'n, 't, 'k, 'm) libs \<Rightarrow>
   string \<Rightarrow> socket_paths \<Rightarrow> string \<Rightarrow> string \<Rightarrow> bool \<Rightarrow> string list \<Rightarrow> ('h, 'd, 'n) world \<Rightarrow>
   (('h, 'r, 'd, 'n) driver \<times> (strategy \<times> 'm listener) option) res \<times> ('h, 'd, 'n) world" where
  "NewDatadogCSIDriver os L = newDatadogCSIDriver (L\<lparr>lib_base := (lib_base L)\<lparr>lm_fs := os\<rparr>\<rparr>)"

section \<open>The identity service\<close>

record plugin_info =
  pi_name :: string
  pi_vendor_version :: string

definition GetPluginInfo :: "('h, 'r, 'd, 'n) driver \<Rightarrow> plugin_info" where
  "GetPluginInfo d = \<lparr>pi_name = d_name d, pi_vendor_version = d_version d\<rparr>"

text \<open>One capability: a service whose type is not set, which is \<open>UNKNOWN\<close>.\<close>

datatype plugin_capability = CapabilityService string

definition GetPluginCapabilities :: "('h, 'r, 'd, 'n) driver \<Rightarrow> plugin_capability list" where
  "GetPluginCapabilities d = [CapabilityService ''UNKNOWN'']"

definition Probe :: "('h, 'r, 'd, 'n) driver \<Rightarrow> unit res" where
  "Probe d = Inr ()"

section \<open>The node service\<close>

definition NodeGetCapabilities :: "('h, 'r, 'd, 'n) driver \<Rightarrow> string list" where
  "NodeGetCapabilities d = []"

definition NodeGetInfo :: "(string \<Rightarrow> string) \<Rightarrow> string" where
  "NodeGetInfo getenv = getenv ''NODE_ID''"

text \<open>
  The state of a running driver is the metrics, the cleanup strategy and the world. The listener
  the driver gives its manager turns the events the manager emits into metrics; they are the ones
  a call appends to the log. A panic of the metrics client is \<open>None\<close>.
\<close>

type_synonym ('m, 'h, 'd, 'n) dstate = "'m \<times> ('h, 'd, 'n) pstate"

fun emitted :: "act list \<Rightarrow> event list" where
  "emitted [] = []"
| "emitted (Emit e # as) = e # emitted as"
| "emitted (_ # as) = emitted as"

definition listen ::
  "'m prom \<Rightarrow> ((string \<rightharpoonup> int) \<Rightarrow> string list) \<Rightarrow> ('h, 'd, 'n) pstate \<Rightarrow> ('h, 'd, 'n) pstate \<Rightarrow> 'm \<Rightarrow> 'm option" where
  "listen P keys st st' = handle_events P keys (emitted (drop (length (w_log (snd st))) (w_log (snd st'))))"

definition NodePublishVolume ::
  "'m prom \<Rightarrow> ((string \<rightharpoonup> int) \<Rightarrow> string list) \<Rightarrow> ('h, 'r, 'd, 'n) driver \<Rightarrow> publish_request \<Rightarrow>
   ('m, 'h, 'd, 'n) dstate \<Rightarrow> (unit res \<times> ('m, 'h, 'd, 'n) dstate) option" where
  "NodePublishVolume P keys d req ds =
     (let (outcome, st') = chain_Publish (d_manager d) (d_publisher d) req (snd ds);
          finish = (\<lambda>r ty path status.
            map_option (\<lambda>m'. (r, (m', st')))
              (Option.bind (listen P keys (snd ds) st' (fst ds)) (RecordVolumeMountAttempt P ty path status)))
      in case outcome of
           (_, Some err) \<Rightarrow>
             finish (Inl (Errorv ''failed to publish volume: %v'' [] err))
               (ctx req ''type'') (TargetPath req) StatusFailed
         | (None, None) \<Rightarrow>
             finish (Inl (Errorf ''unsupported volume type: %q'' [ctx req ''type'']))
               (ctx req ''type'') (TargetPath req) StatusUnsupported
         | (Some resp, None) \<Rightarrow> finish (Inr ()) (VolumeType resp) (VolumePath resp) StatusSuccess)"

definition NodeUnpublishVolume ::
  "'m prom \<Rightarrow> ((string \<rightharpoonup> int) \<Rightarrow> string list) \<Rightarrow> ('h, 'r, 'd, 'n) driver \<Rightarrow> unpublish_request \<Rightarrow>
   ('m, 'h, 'd, 'n) dstate \<Rightarrow> (unit res \<times> ('m, 'h, 'd, 'n) dstate) option" where
  "NodeUnpublishVolume P keys d req ds =
     (let (outcome, st') = chain_Unpublish (d_manager d) (d_publisher d) req (snd ds);
          finish = (\<lambda>r status.
            map_option (\<lambda>m'. (r, (m', st')))
              (Option.bind (listen P keys (snd ds) st' (fst ds)) (RecordVolumeUnMountAttempt P status)))
      in case outcome of
           (_, Some err) \<Rightarrow> finish (Inl (Errorv ''failed to unpublish volume: %v'' [] err)) StatusFailed
         | (None, None) \<Rightarrow>
             finish (Inl (Errorf ''unpublish volume request not supported by any publisher'' [])) StatusUnsupported
         | (Some resp, None) \<Rightarrow> finish (Inr ()) StatusSuccess)"

section \<open>What a call counts\<close>

lemma handle_events_total: "handle_events P keys es m \<noteq> None"
proof (induction es arbitrary: m)
  case (Cons e es)
  then show ?case using handle_event_total [of P keys e m] by auto
qed simp

lemma listen_total: "listen P keys st st' m \<noteq> None"
  by (simp add: listen_def handle_events_total del: not_None_eq)

context prometheus
begin

definition library_vectors :: "string list" where
  "library_vectors = map mv_name [libraryResolutions, libraryDownloadDuration, libraryCleanup, librariesCached,
     librariesCachedBytes, libraryVolumeLinks]"

lemma range_map_counter:
  assumes "range_map f mp ks m = Some m'" "sets_gauge v f" "n \<noteq> mv_name v"
  shows "counter_value P m' n ls = counter_value P m n ls"
  using assms(1)
proof (induction ks arbitrary: m)
  case (Cons k ks)
  have "f k (map_index mp k) m = Some (pm_set P (mv_name v) [k] (float64 (map_index mp k)) m)"
    using assms(2) by (simp add: sets_gauge_def)
  then show ?case using Cons assms(3) by (auto simp: set_counter)
qed simp

lemma handle_event_counter:
  assumes "handle_event P keys e m = Some m'" "n \<notin> set library_vectors"
  shows "counter_value P m' n ls = counter_value P m n ls"
proof (cases e)
  case (OnSnapshot s)
  then show ?thesis
    using assms gauge_setters
    by (auto simp: on_snapshot_def Let_def library_vectors_def reset_counter range_map_counter split: option.splits)
qed (use assms in \<open>auto simp: library_vectors_def record_defs with_labels_def set_cached_def inc_counter
       set_counter observe_counter\<close>)

lemma listen_counter:
  assumes "listen P keys st st' m = Some m'" "n \<notin> set library_vectors"
  shows "counter_value P m' n ls = counter_value P m n ls"
proof -
  have "handle_events P keys es m = Some m' \<Longrightarrow> counter_value P m' n ls = counter_value P m n ls" for es
    using handle_event_counter [OF _ assms(2)] by (induction es arbitrary: m) (auto split: option.splits)
  then show ?thesis using assms(1) by (simp add: listen_def)
qed

lemma attempts_apart: "mv_name nodeVolumeMountAttempts \<notin> set library_vectors"
    "mv_name nodeVolumeUnmountAttempts \<notin> set library_vectors"
    "mv_name nodeVolumeMountAttempts \<noteq> mv_name nodeVolumeUnmountAttempts"
  by (simp_all add: library_vectors_def vector_names)

end

section \<open>Runs of the driver\<close>

text \<open>
  Calls of the kubelet, whose targets lie outside the storage directory, and steps of the library
  manager on its own, timers and cleanups among them, in any order. As for the manager, fewer than
  \<open>2 ^ 63\<close> volumes are recorded.
\<close>

inductive driver_step ::
  "'m prom \<Rightarrow> ((string \<rightharpoonup> int) \<Rightarrow> string list) \<Rightarrow> ('h, 'r, 'd, 'n) driver \<Rightarrow> (string \<Rightarrow> bool) \<Rightarrow>
   ('m, 'h, 'd, 'n) dstate \<Rightarrow> ('m, 'h, 'd, 'n) dstate \<Rightarrow> bool"
  for P :: "'m prom" and keys :: "(string \<rightharpoonup> int) \<Rightarrow> string list" and d :: "('h, 'r, 'd, 'n) driver"
    and outside :: "string \<Rightarrow> bool" where
  step_publish: "outside (TargetPath req) \<Longrightarrow>
    int (card (dom (lg_vols (lm_ledger (d_manager d) (snd (snd ds)))))) + 1 < 2 ^ 63 \<Longrightarrow>
    NodePublishVolume P keys d req ds = Some (r, ds') \<Longrightarrow> driver_step P keys d outside ds ds'"
| step_unpublish: "outside (un_TargetPath req) \<Longrightarrow>
    NodeUnpublishVolume P keys d req ds = Some (r, ds') \<Longrightarrow> driver_step P keys d outside ds ds'"
| step_internal: "manager_step (d_manager d) st st' \<Longrightarrow> listen P keys st st' m = Some m' \<Longrightarrow>
    driver_step P keys d outside (m, st) (m', st')"

lemma node_publish_state:
  "NodePublishVolume P keys d req ds = Some (r, ds') \<Longrightarrow>
   snd ds' = snd (chain_Publish (d_manager d) (d_publisher d) req (snd ds))"
  by (auto simp: NodePublishVolume_def Let_def split: prod.splits option.splits)

lemma node_unpublish_state:
  "NodeUnpublishVolume P keys d req ds = Some (r, ds') \<Longrightarrow>
   snd ds' = snd (chain_Unpublish (d_manager d) (d_publisher d) req (snd ds))"
  by (auto simp: NodeUnpublishVolume_def Let_def split: prod.splits option.splits)

lemma driver_run_ok:
  assumes "publishing_node (d_manager d) base outside" "d_publisher d = GetPublishers paths base apm regs"
    and "(driver_step P keys d outside)\<^sup>*\<^sup>* ds ds'" "mgr_ok (d_manager d) (snd ds)"
  shows "mgr_ok (d_manager d) (snd ds')"
  using assms(3,4)
proof (induction rule: rtranclp_induct)
  case (step ds1 ds2)
  then have ok: "mgr_ok (d_manager d) (snd ds1)" by simp
  from step.hyps(2) show ?case
  proof (cases rule: driver_step.cases)
    case (step_publish req r)
    then show ?thesis
      using publishing_node.chain_Publish_ok [OF assms(1) ok] assms(2) by (simp add: node_publish_state)
  next
    case (step_unpublish req r)
    then show ?thesis
      using publishing_node.chain_Unpublish_ok [OF assms(1) ok] assms(2) by (simp add: node_unpublish_state)
  next
    case (step_internal st st' m m')
    then show ?thesis
      using manager.manager_step_ok [OF publishing_node.axioms(1) [OF assms(1)]] ok by auto
  qed
qed simp

text \<open>A driver over the in-memory node.\<close>

definition demo_driver :: "(mem_state, mem_raw, mem_db, mem_net) driver" where
  "demo_driver =
     \<lparr>d_name = CSIDriverName, d_version = ''dev'', d_publisher = node_publishers, d_has_manager = True,
      d_manager = mem_manager\<rparr>"

definition demo_libs ::
  "unit option res \<Rightarrow> (mem_state, mem_raw, mem_db, mem_net, unit, unit, mem_metrics) libs" where
  "demo_libs keychain =
     \<lparr>lib_base = mem_manager,
      lib_http = \<lparr>DefaultTransport = (), NewMultiKeychain = (), GOOS = ''linux'', GOARCH = ''amd64''\<rparr>,
      registry_client = (\<lambda>opts. mem_network), lib_open_db = (\<lambda>p. Inr demo_db), lib_keychain = keychain,
      lib_prom = mem_prom, map_order = (\<lambda>mp. [])\<rparr>"

lemma demo_driver_fields [simp]:
  "d_manager demo_driver = mem_manager" "d_publisher demo_driver = node_publishers"
  by (simp_all add: demo_driver_def)

section \<open>Properties\<close>

text \<open>
  C1: The whole driver keeps the libraries of its volumes: through any sequence of node calls,
  successful or failing, and of timers and cleanups in between, every volume that is recorded has
  its library in the store, ready to be mounted, and the counts of the database stay true. This
  composes the node service, the publishers, the manager, the database and the store.
\<close>
theorem driver_links_never_dangle:
  assumes "publishing_node (d_manager d) base outside" "d_publisher d = GetPublishers paths base apm regs"
    and "mgr_ok (d_manager d) (snd ds)" "(driver_step P keys d outside)\<^sup>*\<^sup>* ds ds'"
    and "lg_vols (lm_ledger (d_manager d) (snd (snd ds'))) v = Some rec"
  shows "store_get (lm_fs (d_manager d)) (lm_store (d_manager d)) (w_host (snd (snd ds'))) (LibraryID rec) =
      Inr (store_path (lm_store (d_manager d)) (LibraryID rec)) \<and>
    VolumeCount (lib_at (lm_ledger (d_manager d) (snd (snd ds'))) (LibraryID rec)) =
      int (card (users (lm_ledger (d_manager d) (snd (snd ds'))) (LibraryID rec)))"
proof -
  have safe: "safe (d_manager d) (snd (snd ds'))"
    using driver_run_ok [OF assms(1,2,4,3)] by (simp add: mgr_ok_def)
  then have "plain (LibraryID rec)" "lm_held (d_manager d) (snd (snd ds')) (LibraryID rec)"
    using assms(5) by (auto simp: safe_def links_held_def)
  then show ?thesis
    using item_store.get_Inr [OF manager.store_of [OF publishing_node.axioms(1) [OF assms(1)]]]
      consistent_count safe by (auto simp: safe_def)
qed

theorem driver_links_never_dangle_witness:
  "\<exists>ds'. NodeUnpublishVolume mem_prom (\<lambda>mp. []) demo_driver v1_unpublish (stale_metrics, node_state) = Some (Inr (), ds') \<and>
     store_get mem_host ''/d/store'' (w_host (snd (snd ds'))) ''aa'' = Inr ''/d/store/aa''"
proof -
  define x where "x = the (NodeUnpublishVolume mem_prom (\<lambda>mp. []) demo_driver v1_unpublish (stale_metrics, node_state))"
  have "NodeUnpublishVolume mem_prom (\<lambda>mp. []) demo_driver v1_unpublish (stale_metrics, node_state) \<noteq> None"
      and "fst x = Inr ()"
    unfolding x_def by code_simp+
  then have run: "NodeUnpublishVolume mem_prom (\<lambda>mp. []) demo_driver v1_unpublish (stale_metrics, node_state) =
      Some (Inr (), snd x)"
    by (auto simp: x_def)
  have "mem_outside (un_TargetPath v1_unpublish)" using node_outside by (simp add: v1_unpublish_def)
  then have steps: "(driver_step mem_prom (\<lambda>mp. []) demo_driver mem_outside)\<^sup>*\<^sup>* (stale_metrics, node_state) (snd x)"
    using run by (intro r_into_rtranclp step_unpublish)
  have v2: "lg_vols (lm_ledger (d_manager demo_driver) (snd (snd (snd x)))) ''v2'' =
      Some \<lparr>LibraryID = ''aa'', CreatedAt = 2, FromCache = True\<rparr>"
    unfolding x_def by code_simp
  have paths: "lm_store mem_manager = ''/d/store''" "store_path ''/d/store'' ''aa'' = ''/d/store/aa''"
    by code_simp+
  have "publishing_node (d_manager demo_driver) mem_base mem_outside"
    using mem_node.publishing_node_axioms by simp
  from driver_links_never_dangle [OF this _ _ steps v2] show ?thesis
    using run node_ok paths by (auto simp: node_publishers_def)
qed

text \<open>
  C14: Every publish is accounted for: the call succeeds exactly when a publisher answered without
  an error, it never panics, and it adds one to exactly one series of the attempt counter, with
  the type and path of the response on success and those of the request and the reason otherwise,
  whatever events the manager reported meanwhile.
\<close>
theorem node_publish_accounted:
  assumes "prometheus P" "chain_Publish (d_manager d) (d_publisher d) req st = ((resp, err), st')"
  shows "\<exists>r m'. NodePublishVolume P keys d req (m, st) = Some (r, (m', st')) \<and>
    (r = Inr () \<longleftrightarrow> resp \<noteq> None \<and> err = None) \<and>
    counter_value P m' (mv_name nodeVolumeMountAttempts) ls =
      counter_value P m (mv_name nodeVolumeMountAttempts) ls +
      (if ls = (case (resp, err) of
           (_, Some e) \<Rightarrow> [ctx req ''type'', TargetPath req, ''failed'']
         | (None, None) \<Rightarrow> [ctx req ''type'', TargetPath req, ''unsupported'']
         | (Some p, None) \<Rightarrow> [VolumeType p, VolumePath p, ''success'']) then 1 else 0) \<and>
    counter_value P m' (mv_name nodeVolumeUnmountAttempts) ls =
      counter_value P m (mv_name nodeVolumeUnmountAttempts) ls"
proof -
  obtain m1 where m1: "listen P keys st st' m = Some m1" using listen_total by fast
  note c = prometheus.listen_counter [OF assms(1) m1] prometheus.attempts_apart [OF assms(1)]
    prometheus.inc_counter [OF assms(1)]
  show ?thesis
    using assms(2) m1 c
    by (cases resp; cases err)
       (auto simp: NodePublishVolume_def RecordVolumeMountAttempt_def with_labels_def)
qed

theorem node_publish_accounted_witness:
  "counter_value mem_prom
     (fst (snd (the (NodePublishVolume mem_prom (\<lambda>mp. []) demo_driver library_request (stale_metrics, node_state)))))
     (mv_name nodeVolumeMountAttempts) [DatadogLibrary, ''gcr.io/java:v1'', ''success''] = 1"
proof -
  define st' where "st' = snd (chain_Publish mem_manager node_publishers library_request node_state)"
  have run: "chain_Publish (d_manager demo_driver) (d_publisher demo_driver) library_request node_state =
      ((Some \<lparr>VolumeType = DatadogLibrary, VolumePath = ''gcr.io/java:v1''\<rparr>, None), st')"
    unfolding st'_def demo_driver_fields by (rule prod_eqI) (code_simp, simp)
  obtain r m' where "NodePublishVolume mem_prom (\<lambda>mp. []) demo_driver library_request (stale_metrics, node_state) =
        Some (r, (m', st'))"
      "counter_value mem_prom m' (mv_name nodeVolumeMountAttempts) [DatadogLibrary, ''gcr.io/java:v1'', ''success''] =
       counter_value mem_prom stale_metrics (mv_name nodeVolumeMountAttempts)
         [DatadogLibrary, ''gcr.io/java:v1'', ''success''] + 1"
    using node_publish_accounted [OF mem_prom.prometheus_axioms run, of "\<lambda>mp. []" stale_metrics
        "[DatadogLibrary, ''gcr.io/java:v1'', ''success'']"] by auto
  then show ?thesis by (simp add: stale_metrics_def mem_prom_def)
qed

text \<open>
  C20: A driver whose storage cannot be used still serves sockets: when the storage path is blank,
  cannot be created or is not writable, construction succeeds without a library manager, whatever
  the registry credentials are; library and preload requests then get neither an answer nor an
  effect, and every other request is served exactly as by a driver with storage.
\<close>
theorem storage_failure_degrades:
  assumes "createStorageDir (lm_fs (lib_base L)) storage (w_host w) = (r, h)" "r = Inr [] \<or> (\<exists>e. r = Inl e)"
  shows "\<exists>d. newDatadogCSIDriver L name paths storage version apm regs w = (Inr (d, None), w\<lparr>w_host := h\<rparr>) \<and>
    \<not> d_has_manager d \<and> driver_Stop d order st = (None, st) \<and>
    chain_Publish (d_manager d) (d_publisher d) req st =
      (if ssi_type (ctx req ''type'') then ((None, None), st)
       else chain_Publish (lib_base L) (GetPublishers paths base apm regs) req st)"
proof -
  have "ssi_type (ctx req ''type'') \<Longrightarrow> VolumeContext req ''type'' \<noteq> None"
    by (auto simp: ctx_def ssi_type_def volume_types split: option.splits)
  then have "chain_Publish (lib_base L) (GetPublishers paths [] apm regs) req st =
      (if ssi_type (ctx req ''type'') then ((None, None), st)
       else chain_Publish (lib_base L) (GetPublishers paths base apm regs) req st)"
    by (auto simp: chain_route Let_def ssi_type_def legacy_request_def volume_types)
  then show ?thesis
    using assms by (auto simp: newDatadogCSIDriver_def driver_Stop_def)
qed

theorem storage_failure_degrades_witness:
  "\<exists>d. fst (newDatadogCSIDriver (demo_libs (Inl (ExtErr ''credentials''))) CSIDriverName node_paths ''/d'' ''dev''
       True [] (demo_world\<lparr>w_host := node_host\<lparr>mh_broken := [''TempDir'']\<rparr>\<rparr>)) = Inr (d, None) \<and> \<not> d_has_manager d"
proof -
  let ?L = "demo_libs (Inl (ExtErr ''credentials''))"
  let ?h = "node_host\<lparr>mh_broken := [''TempDir'']\<rparr>" and ?w = "demo_world\<lparr>w_host := node_host\<lparr>mh_broken := [''TempDir'']\<rparr>\<rparr>"
  define e where "e = Wrapf ''storage base path is not writable: %w'' [] (ExtErr ''TempDir'')"
  have "trim_space ''/d'' = ''/d''" by (rule trim_graphic) (simp add: graphic_def)
  then have "createStorageDir mem_host ''/d'' ?h = (Inl e, mem_put ?h (mem_words ''/d'') MDir)"
    by (simp add: createStorageDir_def Let_def mem_host_def mem_temp_dir_def mem_fail_def mem_put_def e_def)
  then have "createStorageDir (lm_fs (lib_base ?L)) ''/d'' (w_host ?w) = (Inl e, mem_put ?h (mem_words ''/d'') MDir)"
    by (simp add: demo_libs_def)
  moreover have "(Inl e :: string res) = Inr [] \<or> (\<exists>e'. (Inl e :: string res) = Inl e')" by blast
  ultimately have "\<exists>d. newDatadogCSIDriver ?L CSIDriverName node_paths ''/d'' ''dev'' True [] ?w =
      (Inr (d, None), ?w\<lparr>w_host := mem_put ?h (mem_words ''/d'') MDir\<rparr>) \<and> \<not> d_has_manager d"
    using storage_failure_degrades [where L = ?L and name = CSIDriverName
      and paths = node_paths and version = "''dev''" and apm = True and regs = "[]" and order = "[]"
      and st = node_state and req = library_request and base = mem_base] by fast
  then show ?thesis by (elim exE conjE) (simp only: fst_conv, blast)
qed

end
