(* ===== verification/Csi_Config.thy ===== *)
theory Csi_Config
  imports Go_Paths
begin

text \<open>
  What \<open>cmd\<close> and \<open>utils\<close> make of the configuration: the registry allow list, the endpoint of
  the CSI socket and the log level.
\<close>

section \<open>The registry allow list\<close>

definition comma :: char where "comma = CHR '',''"

text \<open>\<open>raw\<close> is what Viper returns for the flag.\<close>

definition getRegistryAllowList :: "string list \<Rightarrow> string list" where
  "getRegistryAllowList raw =
     concat (map (\<lambda>item. filter (\<lambda>r. r \<noteq> []) (map trim_space (split_on comma item))) raw)"

section \<open>The endpoint\<close>

text \<open>
  \<open>url.Parse\<close> and the removal of a file are parameters: the first is library code, the second
  a variable of the code. The driver runs on Unix, where \<open>FromSlash\<close> changes nothing.
\<close>

record url =
  Scheme :: string
  Host :: string
  Path :: string

definition to_lower :: "string \<Rightarrow> string" where
  "to_lower s = map (\<lambda>c. let n = (of_char c :: nat) in if 65 \<le> n \<and> n \<le> 90 then char_of (n + 32) else c) s"

definition EnsureSocketAvailability ::
  "(string \<Rightarrow> url res) \<Rightarrow> ('h \<Rightarrow> string \<Rightarrow> goerr option \<times> 'h) \<Rightarrow> string \<Rightarrow> 'h \<Rightarrow> string res \<times> 'h" where
  "EnsureSocketAvailability parse removeFile unixEndpoint h =
     (case parse unixEndpoint of
        Inl e \<Rightarrow> (Inl (Errorv ''could not parse endpoint: %v'' [] e), h)
      | Inr parsedURL \<Rightarrow>
          if Path parsedURL = [] then (Inl (Errorf ''endpoint path can't be empty'' []), h)
          else
            let address = (if Host parsedURL = [] then Path parsedURL else path_join [Host parsedURL, Path parsedURL])
            in if to_lower (Scheme parsedURL) \<noteq> ''unix''
               then (Inl (Errorf ''%q is not a unix endpoint'' [unixEndpoint]), h)
               else
                 (case removeFile h address of
                    (err, h1) \<Rightarrow>
                      if err \<noteq> None \<and> err \<noteq> Some ErrNotExist
                      then (Inl (Errorv ''could not remove unix socket %q: %v'' [address] (the err)), h1)
                      else (Inr address, h1)))"

section \<open>The log level\<close>

datatype level = LevelDebug | LevelInfo | LevelWarn | LevelError

text \<open>The levels of \<open>slog\<close> are ordered by severity; a handler drops what is below its level.\<close>

fun severity :: "level \<Rightarrow> int" where
  "severity LevelDebug = -4"
| "severity LevelInfo = 0"
| "severity LevelWarn = 4"
| "severity LevelError = 8"

lemma severity_inject: "severity a = severity b \<Longrightarrow> a = b"
  by (cases a; cases b) simp_all

instantiation level :: linorder
begin

definition less_eq_level :: "level \<Rightarrow> level \<Rightarrow> bool" where
  "less_eq_level a b \<longleftrightarrow> severity a \<le> severity b"

definition less_level :: "level \<Rightarrow> level \<Rightarrow> bool" where
  "less_level a b \<longleftrightarrow> severity a < severity b"

instance
  by standard (auto simp: less_eq_level_def less_level_def dest: severity_inject)

end

definition log_level :: "string \<Rightarrow> level" where
  "log_level logLevel =
     (if logLevel = ''debug'' then LevelDebug
      else if logLevel = ''warn'' then LevelWarn
      else if logLevel = ''error'' then LevelError
      else LevelInfo)"

text \<open>The handler the program logs with; \<open>getenv\<close> reads the environment.\<close>

record log_handler =
  lh_output :: string
  lh_format :: string
  lh_level :: level

definition init_logger :: "(string \<Rightarrow> string) \<Rightarrow> log_handler" where
  "init_logger getenv =
     \<lparr>lh_output = ''stdout'', lh_format = ''json'', lh_level = log_level (getenv ''LOG_LEVEL'')\<rparr>"

definition handler_enabled :: "log_handler \<Rightarrow> level \<Rightarrow> bool" where
  "handler_enabled h l \<longleftrightarrow> lh_level h \<le> l"

section \<open>The flags\<close>

datatype flag_value = FlagString string | FlagBool bool | FlagStrings "string list"

record flag =
  fl_name :: string
  fl_default :: flag_value
  fl_usage :: string

definition declared_flags :: "flag list" where
  "declared_flags =
     [\<lparr>fl_name = ''driver-name'', fl_default = FlagString ''k8s.csi.datadoghq.com'', fl_usage = ''Name of the CSI driver''\<rparr>,
      \<lparr>fl_name = ''csi-endpoint'', fl_default = FlagString ''unix:///csi/csi.sock'', fl_usage = ''CSI endpoint''\<rparr>,
      \<lparr>fl_name = ''dsd-host-socket-path'', fl_default = FlagString ''/var/run/datadog/dsd.socket'',
       fl_usage = ''Dogstatsd socket host path''\<rparr>,
      \<lparr>fl_name = ''apm-host-socket-path'', fl_default = FlagString ''/var/run/datadog/apm.socket'',
       fl_usage = ''APM socket host path''\<rparr>,
      \<lparr>fl_name = ''storage-path'', fl_default = FlagString ''/var/lib/datadog-csi-driver'',
       fl_usage = ''Base path for CSI driver storage''\<rparr>,
      \<lparr>fl_name = ''apm-enabled'', fl_default = FlagBool True,
       fl_usage = ''Enable APM/SSI publishers (library and injector preload)''\<rparr>,
      \<lparr>fl_name = ''registry-allow-list'', fl_default = FlagStrings [],
       fl_usage = ''Allowed registries for DatadogLibrary volumes. If empty, all registries are allowed.''\<rparr>]"

text \<open>
  Viper and pflag are parameters. \<open>parse_flags\<close> reads the command line and gives the values of the
  flags that are on it, or the code the process exits with; the other fields are the methods of the
  code's global Viper, whose state is a value of \<open>'v\<close>.
\<close>

record 'v viper =
  parse_flags :: "flag list \<Rightarrow> string list \<Rightarrow> int + (string \<rightharpoonup> flag_value)"
  vp_new :: 'v
  BindPFlags :: "flag list \<Rightarrow> (string \<rightharpoonup> flag_value) \<Rightarrow> 'v \<Rightarrow> goerr option \<times> 'v"
  SetEnvPrefix :: "string \<Rightarrow> 'v \<Rightarrow> 'v"
  SetEnvKeyReplacer :: "(string \<Rightarrow> string) \<Rightarrow> 'v \<Rightarrow> 'v"
  AutomaticEnv :: "'v \<Rightarrow> 'v"
  GetString :: "'v \<Rightarrow> string \<Rightarrow> string"
  GetBool :: "'v \<Rightarrow> string \<Rightarrow> bool"
  GetStringSlice :: "'v \<Rightarrow> string \<Rightarrow> string list"

text \<open>\<open>strings.NewReplacer("-", "_")\<close>.\<close>

definition dashes_to_underscores :: "string \<Rightarrow> string" where
  "dashes_to_underscores s = map (\<lambda>c. if c = CHR ''-'' then CHR ''_'' else c) s"

definition main_init :: "'v viper \<Rightarrow> string list \<Rightarrow> int + 'v" where
  "main_init V args =
     (case parse_flags V declared_flags args of
        Inl code \<Rightarrow> Inl code
      | Inr given \<Rightarrow>
          (case BindPFlags V declared_flags given (vp_new V) of
             (Some e, _) \<Rightarrow> Inl 1
           | (None, v) \<Rightarrow>
               Inr (AutomaticEnv V (SetEnvKeyReplacer V dashes_to_underscores (SetEnvPrefix V ''DD'' v)))))"

text \<open>What the driver reads from it.\<close>

record config =
  c_driver_name :: string
  c_endpoint :: string
  c_apm_socket :: string
  c_dsd_socket :: string
  c_storage_path :: string
  c_apm_enabled :: bool
  c_allow_list :: "string list"

definition read_config :: "'v viper \<Rightarrow> 'v \<Rightarrow> config" where
  "read_config V v =
     \<lparr>c_driver_name = GetString V v ''driver-name'', c_endpoint = GetString V v ''csi-endpoint'',
      c_apm_socket = GetString V v ''apm-host-socket-path'', c_dsd_socket = GetString V v ''dsd-host-socket-path'',
      c_storage_path = GetString V v ''storage-path'', c_apm_enabled = GetBool V v ''apm-enabled'',
      c_allow_list = getRegistryAllowList (GetStringSlice V v ''registry-allow-list'')\<rparr>"

text \<open>
  The documented order of Viper's sources: a flag on the command line, a variable of the environment
  that is not empty, the default of the flag. The name of the variable is the prefix, an underscore
  and the key, in upper case and with the replacer applied. \<open>cast_bool\<close> and \<open>cast_strings\<close> are
  how Viper converts a string.
\<close>

definition to_upper :: "string \<Rightarrow> string" where
  "to_upper s = map (\<lambda>c. let n = (of_char c :: nat) in if 97 \<le> n \<and> n \<le> 122 then char_of (n - 32) else c) s"

definition env_set :: "(string \<rightharpoonup> string) \<Rightarrow> string \<Rightarrow> string option" where
  "env_set env name = (case env name of None \<Rightarrow> None | Some s \<Rightarrow> if s = [] then None else Some s)"

definition env_value :: "(string \<rightharpoonup> string) \<Rightarrow> string \<Rightarrow> (string \<Rightarrow> string) \<Rightarrow> string \<Rightarrow> string option" where
  "env_value env pre replace key = env_set env (replace (to_upper (pre @ ''_'' @ key)))"

fun flag_string :: "flag_value \<Rightarrow> string" where
  "flag_string (FlagString s) = s"
| "flag_string v = []"

fun flag_bool :: "flag_value \<Rightarrow> bool" where
  "flag_bool (FlagBool b) = b"
| "flag_bool v = False"

fun flag_strings :: "flag_value \<Rightarrow> string list" where
  "flag_strings (FlagStrings ss) = ss"
| "flag_strings v = []"

definition source_of ::
  "(flag_value \<Rightarrow> 'a) \<Rightarrow> (string \<Rightarrow> 'a) \<Rightarrow> flag_value option \<Rightarrow> string option \<Rightarrow> flag_value \<Rightarrow> 'a" where
  "source_of value cast given env dflt =
     (case given of Some x \<Rightarrow> value x | None \<Rightarrow> (case env of Some s \<Rightarrow> cast s | None \<Rightarrow> value dflt))"

locale viper_laws =
  fixes V :: "'v viper" and env :: "string \<rightharpoonup> string" and cast_bool :: "string \<Rightarrow> bool"
    and cast_strings :: "string \<Rightarrow> string list"
  assumes get_string:
      "BindPFlags V fs given (vp_new V) = (None, v) \<Longrightarrow> f \<in> set fs \<Longrightarrow> fl_default f = FlagString x \<Longrightarrow>
       GetString V (AutomaticEnv V (SetEnvKeyReplacer V r (SetEnvPrefix V p v))) (fl_name f) =
         source_of flag_string id (given (fl_name f)) (env_value env p r (fl_name f)) (FlagString x)"
    and get_bool:
      "BindPFlags V fs given (vp_new V) = (None, v) \<Longrightarrow> f \<in> set fs \<Longrightarrow> fl_default f = FlagBool b \<Longrightarrow>
       GetBool V (AutomaticEnv V (SetEnvKeyReplacer V r (SetEnvPrefix V p v))) (fl_name f) =
         source_of flag_bool cast_bool (given (fl_name f)) (env_value env p r (fl_name f)) (FlagBool b)"
    and get_strings:
      "BindPFlags V fs given (vp_new V) = (None, v) \<Longrightarrow> f \<in> set fs \<Longrightarrow> fl_default f = FlagStrings ss \<Longrightarrow>
       GetStringSlice V (AutomaticEnv V (SetEnvKeyReplacer V r (SetEnvPrefix V p v))) (fl_name f) =
         source_of flag_strings cast_strings (given (fl_name f)) (env_value env p r (fl_name f)) (FlagStrings ss)"
begin

text \<open>The flags by name.\<close>

lemma declared_setting:
  assumes "main_init V args = Inr v" "parse_flags V declared_flags args = Inr given" "f \<in> set declared_flags"
  shows "fl_default f = FlagString x \<Longrightarrow>
      GetString V v (fl_name f) = source_of flag_string id (given (fl_name f))
        (env_value env ''DD'' dashes_to_underscores (fl_name f)) (FlagString x)"
    and "fl_default f = FlagBool b \<Longrightarrow>
      GetBool V v (fl_name f) = source_of flag_bool cast_bool (given (fl_name f))
        (env_value env ''DD'' dashes_to_underscores (fl_name f)) (FlagBool b)"
    and "fl_default f = FlagStrings ss \<Longrightarrow>
      GetStringSlice V v (fl_name f) = source_of flag_strings cast_strings (given (fl_name f))
        (env_value env ''DD'' dashes_to_underscores (fl_name f)) (FlagStrings ss)"
proof -
  obtain v0 where v0: "BindPFlags V declared_flags given (vp_new V) = (None, v0)"
      "v = AutomaticEnv V (SetEnvKeyReplacer V dashes_to_underscores (SetEnvPrefix V ''DD'' v0))"
    using assms(1,2) by (auto simp: main_init_def split: prod.splits option.splits)
  show "fl_default f = FlagString x \<Longrightarrow>
      GetString V v (fl_name f) = source_of flag_string id (given (fl_name f))
        (env_value env ''DD'' dashes_to_underscores (fl_name f)) (FlagString x)"
    using get_string [OF v0(1) assms(3)] v0(2) by simp
  show "fl_default f = FlagBool b \<Longrightarrow>
      GetBool V v (fl_name f) = source_of flag_bool cast_bool (given (fl_name f))
        (env_value env ''DD'' dashes_to_underscores (fl_name f)) (FlagBool b)"
    using get_bool [OF v0(1) assms(3)] v0(2) by simp
  show "fl_default f = FlagStrings ss \<Longrightarrow>
      GetStringSlice V v (fl_name f) = source_of flag_strings cast_strings (given (fl_name f))
        (env_value env ''DD'' dashes_to_underscores (fl_name f)) (FlagStrings ss)"
    using get_strings [OF v0(1) assms(3)] v0(2) by simp
qed

end

text \<open>A Viper in memory: the flags, the values of the command line, the prefix and the replacer.\<close>

record mem_viper =
  mv_flags :: "flag list"
  mv_given :: "string \<rightharpoonup> flag_value"
  mv_prefix :: string
  mv_replace :: "string \<Rightarrow> string"
  mv_env :: bool

definition mem_get ::
  "(string \<rightharpoonup> string) \<Rightarrow> (flag_value \<Rightarrow> 'a) \<Rightarrow> (string \<Rightarrow> 'a) \<Rightarrow> flag_value \<Rightarrow> mem_viper \<Rightarrow> string \<Rightarrow> 'a" where
  "mem_get env value cast zero v key =
     source_of value cast (mv_given v key)
       (if mv_env v then env_value env (mv_prefix v) (mv_replace v) key else None)
       (case filter (\<lambda>f. fl_name f = key) (mv_flags v) of [] \<Rightarrow> zero | f # fs \<Rightarrow> fl_default f)"

definition viper_of :: "(string \<rightharpoonup> flag_value) \<Rightarrow> (string \<rightharpoonup> string) \<Rightarrow> mem_viper viper" where
  "viper_of given env =
     \<lparr>parse_flags = (\<lambda>fs args. Inr given),
      vp_new = \<lparr>mv_flags = [], mv_given = Map.empty, mv_prefix = [], mv_replace = id, mv_env = False\<rparr>,
      BindPFlags = (\<lambda>fs given v. if distinct (map fl_name fs) then (None, v\<lparr>mv_flags := fs, mv_given := given\<rparr>)
                                 else (Some (ExtErr ''flag redefined''), v)),
      SetEnvPrefix = (\<lambda>p v. v\<lparr>mv_prefix := p\<rparr>), SetEnvKeyReplacer = (\<lambda>r v. v\<lparr>mv_replace := r\<rparr>),
      AutomaticEnv = (\<lambda>v. v\<lparr>mv_env := True\<rparr>),
      GetString = mem_get env flag_string id (FlagString []),
      GetBool = mem_get env flag_bool (\<lambda>s. s = ''true'') (FlagBool False),
      GetStringSlice = mem_get env flag_strings (\<lambda>s. [s]) (FlagStrings [])\<rparr>"

lemma flag_by_name:
  "distinct (map fl_name fs) \<Longrightarrow> f \<in> set fs \<Longrightarrow> filter (\<lambda>g. fl_name g = fl_name f) fs = [f]"
  by (induction fs) (auto simp: filter_empty_conv image_iff)

interpretation mem_viper: viper_laws "viper_of given env" env "\<lambda>s. s = ''true''" "\<lambda>s. [s]"
  by unfold_locales (auto simp: viper_of_def mem_get_def flag_by_name split: if_splits)

section \<open>Properties\<close>

text \<open>A registry as it can stand in the list: not empty, no comma, no space around it.\<close>

definition registry_name :: "string \<Rightarrow> bool" where
  "registry_name r \<longleftrightarrow> r \<noteq> [] \<and> comma \<notin> set r \<and> trim_space r = r"

lemma registry_nameI:
  "r \<noteq> [] \<and> comma \<notin> set r \<and> list_all graphic r \<Longrightarrow> registry_name r"
  by (simp add: registry_name_def trim_graphic)

lemma allow_list_item:
  assumes "\<forall>r\<in>set rs. registry_name r" "rs \<noteq> []"
  shows "filter (\<lambda>r. r \<noteq> []) (map trim_space (split_on comma (join_on comma rs))) = rs"
proof -
  have "split_on comma (join_on comma rs) = rs" using assms by (simp add: split_join registry_name_def)
  moreover have "map trim_space rs = rs" using assms(1) by (simp add: map_idI registry_name_def)
  moreover have "filter (\<lambda>r. r \<noteq> []) rs = rs" using assms(1) by (simp add: filter_id_conv registry_name_def)
  ultimately show ?thesis by simp
qed

lemma allow_list_names: "r \<in> set (getRegistryAllowList raw) \<Longrightarrow> registry_name r"
  using split_on_words trim_space_subset by (fastforce simp: getRegistryAllowList_def registry_name_def)

text \<open>
  C36: The allow list can be given in one string or in several: however a list of registry names
  is cut into comma-separated items, it is read back unchanged; whatever is given, the result has
  only registry names, and reading the result again gives the same list.
\<close>
theorem allow_list_roundtrip:
  assumes "\<forall>rs\<in>set groups. rs \<noteq> [] \<and> (\<forall>r\<in>set rs. registry_name r)"
  shows "getRegistryAllowList (map (join_on comma) groups) = concat groups \<and>
    (\<forall>r. r \<in> set (getRegistryAllowList raw) \<longrightarrow> registry_name r) \<and>
    getRegistryAllowList (getRegistryAllowList raw) = getRegistryAllowList raw"
proof -
  have read: "getRegistryAllowList (map (join_on comma) gs) = concat gs"
    if "\<forall>rs\<in>set gs. rs \<noteq> [] \<and> (\<forall>r\<in>set rs. registry_name r)" for gs
    using that by (induction gs) (simp_all add: getRegistryAllowList_def allow_list_item)
  have "getRegistryAllowList (map (join_on comma) (map (\<lambda>r. [r]) (getRegistryAllowList raw))) =
      concat (map (\<lambda>r. [r]) (getRegistryAllowList raw))"
    by (rule read) (auto dest: allow_list_names)
  then have "getRegistryAllowList (getRegistryAllowList raw) = getRegistryAllowList raw"
    by (simp add: comp_def concat_map_singleton)
  then show ?thesis using read [OF assms] allow_list_names by blast
qed

theorem allow_list_roundtrip_witness:
  "getRegistryAllowList [''gcr.io,ghcr.io'', ''docker.io''] = [''gcr.io'', ''ghcr.io'', ''docker.io'']"
proof -
  let ?g = "[[''gcr.io'', ''ghcr.io''], [''docker.io'']]"
  have "list_all (\<lambda>rs. rs \<noteq> [] \<and> list_all (\<lambda>r. r \<noteq> [] \<and> comma \<notin> set r \<and>
      list_all graphic r) rs) ?g"
    by code_simp
  then have g: "\<forall>rs\<in>set ?g. rs \<noteq> [] \<and> (\<forall>r\<in>set rs. registry_name r)"
    unfolding list_all_iff [of _ ?g] list_all_iff [of "\<lambda>r. r \<noteq> [] \<and> _ r"] by (blast intro: registry_nameI)
  have e: "map (join_on comma) ?g = [''gcr.io,ghcr.io'', ''docker.io'']"
      "concat ?g = [''gcr.io'', ''ghcr.io'', ''docker.io'']"
    by code_simp+
  show ?thesis using conjunct1 [OF allow_list_roundtrip [OF g]] unfolding e .
qed

text \<open>Errors are logged at every level, and no setting hides more than the one it names.\<close>

lemma log_level_range: "log_level s \<le> LevelError" "s \<noteq> ''warn'' \<and> s \<noteq> ''error'' \<Longrightarrow> log_level s \<le> LevelInfo"
  by (simp_all add: log_level_def less_eq_level_def)

lemma errors_always_logged: "handler_enabled (init_logger getenv) LevelError"
  by (simp add: handler_enabled_def init_logger_def log_level_range)

text \<open>
  No file is removed for an endpoint that is not one: when the endpoint does not parse, has no
  path or has another scheme than \<open>unix\<close>, there is an error and the node is as before; otherwise
  exactly the address returned was removed or did not exist.
\<close>
lemma endpoint_checked_first:
  assumes "EnsureSocketAvailability parse removeFile endpoint h = (r, h')"
  shows "(\<exists>u. parse endpoint = Inr u \<and> Path u \<noteq> [] \<and> to_lower (Scheme u) = ''unix'' \<and>
      (\<forall>a. r = Inr a \<longrightarrow> (removeFile h a = (None, h') \<or> removeFile h a = (Some ErrNotExist, h')))) \<or>
    (\<exists>e. r = Inl e \<and> h' = h)"
  using assms
  by (auto simp: EnsureSocketAvailability_def Let_def split: sum.splits if_splits prod.splits)

lemma env_names:
  "dashes_to_underscores (to_upper (''DD'' @ ''_'' @ ''driver-name'')) = ''DD_DRIVER_NAME''"
  "dashes_to_underscores (to_upper (''DD'' @ ''_'' @ ''csi-endpoint'')) = ''DD_CSI_ENDPOINT''"
  "dashes_to_underscores (to_upper (''DD'' @ ''_'' @ ''apm-host-socket-path'')) = ''DD_APM_HOST_SOCKET_PATH''"
  "dashes_to_underscores (to_upper (''DD'' @ ''_'' @ ''dsd-host-socket-path'')) = ''DD_DSD_HOST_SOCKET_PATH''"
  "dashes_to_underscores (to_upper (''DD'' @ ''_'' @ ''storage-path'')) = ''DD_STORAGE_PATH''"
  "dashes_to_underscores (to_upper (''DD'' @ ''_'' @ ''apm-enabled'')) = ''DD_APM_ENABLED''"
  "dashes_to_underscores (to_upper (''DD'' @ ''_'' @ ''registry-allow-list'')) = ''DD_REGISTRY_ALLOW_LIST''"
  by code_simp+

text \<open>
  C37: Every setting of the driver has its three sources in order: the flag on the command line, else
  the environment variable \<open>DD_\<close> and the name of the flag in capitals with underscores, unless it
  is empty, else the default; an allow list is then cut into registries. Nothing else is read.
\<close>
theorem configuration_sources:
  assumes "viper_laws V env cast_bool cast_strings"
    and "parse_flags V declared_flags args = Inr given" "main_init V args = Inr v"
  shows "read_config V v =
    \<lparr>c_driver_name = source_of flag_string id (given ''driver-name'') (env_set env ''DD_DRIVER_NAME'')
       (FlagString ''k8s.csi.datadoghq.com''),
     c_endpoint = source_of flag_string id (given ''csi-endpoint'') (env_set env ''DD_CSI_ENDPOINT'')
       (FlagString ''unix:///csi/csi.sock''),
     c_apm_socket = source_of flag_string id (given ''apm-host-socket-path'') (env_set env ''DD_APM_HOST_SOCKET_PATH'')
       (FlagString ''/var/run/datadog/apm.socket''),
     c_dsd_socket = source_of flag_string id (given ''dsd-host-socket-path'') (env_set env ''DD_DSD_HOST_SOCKET_PATH'')
       (FlagString ''/var/run/datadog/dsd.socket''),
     c_storage_path = source_of flag_string id (given ''storage-path'') (env_set env ''DD_STORAGE_PATH'')
       (FlagString ''/var/lib/datadog-csi-driver''),
     c_apm_enabled = source_of flag_bool cast_bool (given ''apm-enabled'') (env_set env ''DD_APM_ENABLED'')
       (FlagBool True),
     c_allow_list = getRegistryAllowList (source_of flag_strings cast_strings (given ''registry-allow-list'')
       (env_set env ''DD_REGISTRY_ALLOW_LIST'') (FlagStrings []))\<rparr>"
proof -
  note flags = viper_laws.declared_setting [OF assms(1,3,2)]
  show ?thesis
    using flags(1) [of "declared_flags ! 0"] flags(1) [of "declared_flags ! 1"] flags(1) [of "declared_flags ! 2"]
      flags(1) [of "declared_flags ! 3"] flags(1) [of "declared_flags ! 4"] flags(2) [of "declared_flags ! 5"]
      flags(3) [of "declared_flags ! 6"]
    by (simp add: read_config_def declared_flags_def env_value_def env_names [simplified])
qed

theorem configuration_sources_witness:
  "c_storage_path (read_config (viper_of [''csi-endpoint'' \<mapsto> FlagString ''unix:///x''] [''DD_STORAGE_PATH'' \<mapsto> ''/d''])
     (projr (main_init (viper_of [''csi-endpoint'' \<mapsto> FlagString ''unix:///x''] [''DD_STORAGE_PATH'' \<mapsto> ''/d'']) []))) = ''/d''"
proof -
  let ?given = "[''csi-endpoint'' \<mapsto> FlagString ''unix:///x'']" and ?env = "[''DD_STORAGE_PATH'' \<mapsto> ''/d'']"
  let ?V = "viper_of ?given ?env"
  have "distinct (map fl_name declared_flags)" by (simp add: declared_flags_def)
  then have "\<exists>v. main_init ?V [] = Inr v" by (simp add: main_init_def viper_of_def)
  then have run: "main_init ?V [] = Inr (projr (main_init ?V []))" by auto
  have parse: "parse_flags ?V declared_flags [] = Inr ?given" by (simp add: viper_of_def)
  show ?thesis
    using configuration_sources [OF mem_viper.viper_laws_axioms parse run]
    by (simp add: source_of_def env_set_def)
qed

end
