(* ===== verification/Csi_Server.thy ===== *)
theory Csi_Server
  imports Csi_Driver Csi_Config
begin

text \<open>
  \<open>cmd\<close> and \<open>pkg/metrics/server.go\<close>: the two servers of the process, how they are started and
  how a failure of one of them ends the process.
\<close>

section \<open>The metrics server\<close>

record metrics_server =
  srv_addr :: string
  srv_path :: string

text \<open>\<open>%d\<close> of a positive number.\<close>

fun digits :: "nat \<Rightarrow> string" where
  "digits n = (if n < 10 then [char_of (48 + n)] else digits (n div 10) @ [char_of (48 + n mod 10)])"

declare digits.simps [simp del]

definition buildServer :: "int \<Rightarrow> metrics_server res" where
  "buildServer port =
     (if port \<le> 0 then Inl (Errorf ''invalid port for metrics server'' [])
      else Inr \<lparr>srv_addr = '':'' @ digits (nat port), srv_path = ''/metrics''\<rparr>)"

definition NewMetricsServer :: "int \<Rightarrow> metrics_server res" where
  "NewMetricsServer port = buildServer port"

text \<open>
  \<open>ListenAndServe\<close> always returns an error; it is \<open>ErrServerClosed\<close> once the server has been shut
  down, and only another one is sent to \<open>run\<close>. \<open>shutdown\<close> is \<open>http.Server.Shutdown\<close> with its
  timeout of five seconds.
\<close>

definition ErrServerClosed :: goerr where "ErrServerClosed = ExtErr ''http: Server closed''"

definition serve_error :: "goerr option \<Rightarrow> goerr option" where
  "serve_error err =
     (if err \<noteq> None \<and> err \<noteq> Some ErrServerClosed
      then Some (Errorv ''error starting metrics server: %v'' [] (the err)) else None)"

definition server_close :: "(metrics_server \<Rightarrow> goerr option) \<Rightarrow> metrics_server \<Rightarrow> goerr option" where
  "server_close shutdown s = (case shutdown s of Some err \<Rightarrow> Some err | None \<Rightarrow> None)"

section \<open>The CSI server\<close>

text \<open>
  The select at the end of \<open>registerAndStartCSIDriver\<close> receives an error of the gRPC server or
  the end of the context. The deferred calls are listed in the order they run.
\<close>

datatype select_result = ServeError goerr | ContextDone

datatype deferred_call = StopDriver | GracefulStop | CloseErrChan

definition registerAndStartCSIDriver ::
  "'h host \<Rightarrow> ('h, 'r, 'd, 'n, 't, 'k, 'm) libs \<Rightarrow>
   (string \<Rightarrow> url res) \<Rightarrow> ('h \<Rightarrow> string \<Rightarrow> goerr option \<times> 'h) \<Rightarrow> ('h \<Rightarrow> string \<Rightarrow> goerr option \<times> 'h) \<Rightarrow>
   config \<Rightarrow> string \<Rightarrow> select_result \<Rightarrow> ('h, 'd, 'n) world \<Rightarrow>
   (goerr option \<times> deferred_call list) \<times> ('h, 'd, 'n) world" where
  "registerAndStartCSIDriver os L parse removeFile net_listen c version selected w =
     (case NewDatadogCSIDriver os L (c_driver_name c)
             \<lparr>apmSocketPath = c_apm_socket c, dsdSocketPath = c_dsd_socket c\<rparr> (c_storage_path c)
             version (c_apm_enabled c) (c_allow_list c) w of
        (Inl e, w1) \<Rightarrow> ((Some e, []), w1)
      | (Inr csiDriver, w1) \<Rightarrow>
          (case EnsureSocketAvailability parse removeFile (c_endpoint c) (w_host w1) of
             (Inl e, h2) \<Rightarrow>
               ((Some (Errorv ''failed to listen on endpoint %q: %v'' [c_endpoint c] e), []), w1\<lparr>w_host := h2\<rparr>)
           | (Inr unixAddress, h2) \<Rightarrow>
               (case net_listen h2 unixAddress of
                  (Some e, h3) \<Rightarrow> ((Some (Errorv ''failed to listen: %v'' [] e), []), w1\<lparr>w_host := h3\<rparr>)
                | (None, h3) \<Rightarrow>
                    ((case selected of
                        ServeError e \<Rightarrow> Some (Errorv ''csi grpc failed to serve: %v'' [] e)
                      | ContextDone \<Rightarrow> None,
                      [StopDriver, GracefulStop, CloseErrChan]), w1\<lparr>w_host := h3\<rparr>))))"

section \<open>The process\<close>

text \<open>
  \<open>run\<close> starts three goroutines and receives one error: \<open>main\<close> is \<open>run\<close> itself, \<open>serve\<close> the
  goroutine inside \<open>server.Start\<close> that serves HTTP, \<open>starter\<close> the rest of \<open>server.Start\<close>, and
  \<open>csi\<close> the one that runs \<open>registerAndStartCSIDriver\<close>. The error channel has no buffer: a send
  and a receive happen together. The wait group counts \<open>starter\<close> and \<open>csi\<close>. Returning from
  \<open>run\<close> closes the channel, and a pending send on it panics.
\<close>

datatype main_pc = Receiving | Received goerr | Waiting goerr | Returned goerr
datatype serve_pc = Serving | SendingServe goerr | ServeDone | ServePanicked
datatype starter_pc = AwaitingDone | StarterDone
datatype csi_pc = CsiRunning | SendingCsi goerr | CsiDone

record run_state =
  main :: main_pc
  serve :: serve_pc
  starter :: starter_pc
  csi :: csi_pc
  cancelled :: bool

text \<open>\<open>run\<close> fails at once when the metrics server cannot be built.\<close>

definition run_start :: "int \<Rightarrow> run_state res" where
  "run_start port =
     (case NewMetricsServer port of
        Inl e \<Rightarrow> Inl (Errorv ''failed to create metrics server: %v'' [] e)
      | Inr _ \<Rightarrow> Inr \<lparr>main = Receiving, serve = Serving, starter = AwaitingDone, csi = CsiRunning, cancelled = False\<rparr>)"

text \<open>Where the serving goroutine goes when \<open>ListenAndServe\<close> returns.\<close>

definition serve_ends :: "goerr option \<Rightarrow> serve_pc" where
  "serve_ends err = (case serve_error err of Some e \<Rightarrow> SendingServe e | None \<Rightarrow> ServeDone)"

lemma serve_ends_simps [simp]:
  "serve_ends (Some ErrServerClosed) = ServeDone"
  "e \<noteq> ErrServerClosed \<Longrightarrow> serve_ends (Some e) = SendingServe (Errorv ''error starting metrics server: %v'' [] e)"
  by (simp_all add: serve_ends_def serve_error_def)

inductive run_step :: "run_state \<Rightarrow> run_state \<Rightarrow> bool" where
  serve_fails: "serve s = Serving \<Longrightarrow> e \<noteq> ErrServerClosed \<Longrightarrow>
    run_step s (s\<lparr>serve := serve_ends (Some e)\<rparr>)"
| starter_stops: "cancelled s \<Longrightarrow> starter s = AwaitingDone \<Longrightarrow>
    run_step s (s\<lparr>starter := StarterDone,
      serve := (if serve s = Serving then serve_ends (Some ErrServerClosed) else serve s)\<rparr>)"
| csi_fails: "csi s = CsiRunning \<Longrightarrow>
    run_step s (s\<lparr>csi := SendingCsi (Errorv ''failed starting csi driver: %v'' [] e)\<rparr>)"
| csi_stops: "cancelled s \<Longrightarrow> csi s = CsiRunning \<Longrightarrow> run_step s (s\<lparr>csi := CsiDone\<rparr>)"
| receive_serve: "main s = Receiving \<Longrightarrow> serve s = SendingServe e \<Longrightarrow>
    run_step s (s\<lparr>main := Received e, serve := ServeDone\<rparr>)"
| receive_csi: "main s = Receiving \<Longrightarrow> csi s = SendingCsi e \<Longrightarrow>
    run_step s (s\<lparr>main := Received e, csi := CsiDone\<rparr>)"
| cancels: "main s = Received e \<Longrightarrow> run_step s (s\<lparr>main := Waiting e, cancelled := True\<rparr>)"
| returns: "main s = Waiting e \<Longrightarrow> starter s = StarterDone \<Longrightarrow> csi s = CsiDone \<Longrightarrow>
    run_step s (s\<lparr>main := Returned e\<rparr>)"
| send_panics: "main s = Returned e \<Longrightarrow> serve s = SendingServe e' \<Longrightarrow> run_step s (s\<lparr>serve := ServePanicked\<rparr>)"

inductive_cases run_stepE: "run_step s s'"

section \<open>Every run ends\<close>

text \<open>The work left; every step does some of it.\<close>

fun main_left :: "main_pc \<Rightarrow> nat" where
  "main_left Receiving = 3" | "main_left (Received e) = 2" | "main_left (Waiting e) = 1" | "main_left (Returned e) = 0"

fun serve_left :: "serve_pc \<Rightarrow> nat" where
  "serve_left Serving = 2" | "serve_left (SendingServe e) = 1" | "serve_left ServeDone = 0" | "serve_left ServePanicked = 0"

fun csi_left :: "csi_pc \<Rightarrow> nat" where
  "csi_left CsiRunning = 2" | "csi_left (SendingCsi e) = 1" | "csi_left CsiDone = 0"

definition work_left :: "run_state \<Rightarrow> nat" where
  "work_left s = main_left (main s) + serve_left (serve s) + csi_left (csi s) +
     (if starter s = AwaitingDone then 1 else 0)"

lemma step_works: "run_step s s' \<Longrightarrow> work_left s' < work_left s"
  by (induction rule: run_step.induct) (simp_all add: work_left_def)

definition run_inv :: "run_state \<Rightarrow> bool" where
  "run_inv s \<longleftrightarrow>
     (case main s of
        Receiving \<Rightarrow> \<not> cancelled s \<and> starter s = AwaitingDone \<and> csi s \<noteq> CsiDone \<and>
          (serve s = Serving \<or> (\<exists>e. serve s = SendingServe e))
      | Received e \<Rightarrow> \<not> cancelled s \<and> starter s = AwaitingDone \<and> serve s \<noteq> ServePanicked \<and>
          (serve s = ServeDone \<or> csi s = CsiDone)
      | Waiting e \<Rightarrow> cancelled s \<and> (starter s = StarterDone \<longrightarrow> serve s \<noteq> Serving) \<and> serve s \<noteq> ServePanicked \<and>
          (serve s = ServeDone \<or> csi s = CsiDone)
      | Returned e \<Rightarrow> cancelled s \<and> starter s = StarterDone \<and> csi s = CsiDone \<and> serve s \<noteq> Serving)"

lemma run_inv_step: "run_step s s' \<Longrightarrow> run_inv s \<Longrightarrow> run_inv s'"
  by (induction rule: run_step.induct) (auto simp: run_inv_def split: main_pc.splits)

lemma run_inv_run:
  assumes "run_step\<^sup>*\<^sup>* s0 s" "run_start port = Inr s0"
  shows "run_inv s"
  using assms
proof (induction rule: rtranclp_induct)
  case base
  then show ?case by (auto simp: run_start_def run_inv_def NewMetricsServer_def buildServer_def split: if_splits)
qed (auto intro: run_inv_step)

text \<open>A state from which no goroutine can go on.\<close>

definition halted :: "run_state \<Rightarrow> bool" where
  "halted s \<longleftrightarrow> (\<forall>s'. \<not> run_step s s')"

lemma halted_outcome:
  assumes "run_inv s" "halted s"
  shows "(\<exists>e. main s = Returned e \<and> starter s = StarterDone \<and> csi s = CsiDone \<and> serve s \<in> {ServeDone, ServePanicked}) \<or>
    (\<exists>e e'. main s = Waiting e \<and> starter s = StarterDone \<and> csi s = SendingCsi e' \<and> serve s = ServeDone)"
proof (cases "main s")
  case Receiving
  then have "serve s = Serving \<or> (\<exists>e. serve s = SendingServe e)" using assms(1) by (simp add: run_inv_def)
  moreover have "serve s \<noteq> Serving"
    using assms(2) serve_fails [of s ErrNotExist] by (auto simp: halted_def ErrServerClosed_def)
  ultimately show ?thesis using assms(2) Receiving receive_serve unfolding halted_def by blast
next
  case (Received e)
  then show ?thesis using assms(2) cancels unfolding halted_def by blast
next
  case (Waiting e)
  then have c: "cancelled s" "serve s = ServeDone \<or> csi s = CsiDone" using assms(1) by (auto simp: run_inv_def)
  then have "starter s = StarterDone" "csi s \<noteq> CsiRunning"
    using assms(2) starter_stops csi_stops unfolding halted_def by (metis starter_pc.exhaust)+
  moreover have "csi s \<noteq> CsiDone" using assms(2) Waiting calculation(1) returns unfolding halted_def by blast
  ultimately show ?thesis using c(2) Waiting by (cases "csi s") auto
next
  case (Returned e)
  then have "\<nexists>e'. serve s = SendingServe e'" using assms(2) send_panics unfolding halted_def by blast
  then show ?thesis using assms(1) Returned by (cases "serve s") (auto simp: run_inv_def)
qed

text \<open>
  The code the process exits with: \<open>main\<close> exits with 1 when \<open>run\<close> returns, and a panic in any
  goroutine ends the process with 2.
\<close>

definition process_exit :: "run_state \<Rightarrow> nat option" where
  "process_exit s =
     (if serve s = ServePanicked then Some 2
      else case main s of Returned e \<Rightarrow> Some 1 | _ \<Rightarrow> None)"

text \<open>The runs of the witnesses.\<close>

definition started :: run_state where
  "started = \<lparr>main = Receiving, serve = Serving, starter = AwaitingDone, csi = CsiRunning, cancelled = False\<rparr>"

definition bind_error :: goerr where
  "bind_error = Errorv ''error starting metrics server: %v'' [] (ExtErr ''address already in use'')"

definition csi_error :: goerr where
  "csi_error = Errorv ''failed starting csi driver: %v'' [] (ExtErr ''endpoint path can't be empty'')"

lemma run_started: "run_start MetricsPort = Inr started"
  by (simp add: run_start_def NewMetricsServer_def buildServer_def MetricsPort_def started_def)

text \<open>The metrics server fails and its error is received; the CSI server is told to stop, or has failed as well.\<close>

lemma serve_failed:
  "run_step\<^sup>*\<^sup>* started (started\<lparr>serve := ServeDone, main := Waiting bind_error, cancelled := True, starter := StarterDone\<rparr>)"
proof -
  let ?s1 = "started\<lparr>serve := SendingServe bind_error\<rparr>"
  let ?s2 = "?s1\<lparr>main := Received bind_error, serve := ServeDone\<rparr>"
  let ?s3 = "?s2\<lparr>main := Waiting bind_error, cancelled := True\<rparr>"
  have "ExtErr ''address already in use'' \<noteq> ErrServerClosed" by (simp add: ErrServerClosed_def)
  then have "run_step started ?s1"
    using serve_fails [of started "ExtErr ''address already in use''"] by (simp add: started_def bind_error_def)
  moreover have "run_step ?s1 ?s2" by (rule receive_serve) (simp_all add: started_def)
  moreover have "run_step ?s2 ?s3" by (rule cancels) simp
  moreover have "run_step ?s3 (?s3\<lparr>starter := StarterDone, serve := (if serve ?s3 = Serving then serve_ends (Some ErrServerClosed) else serve ?s3)\<rparr>)"
    by (rule starter_stops) (simp_all add: started_def)
  ultimately have "run_step\<^sup>*\<^sup>* started
      (?s3\<lparr>starter := StarterDone, serve := (if serve ?s3 = Serving then serve_ends (Some ErrServerClosed) else serve ?s3)\<rparr>)"
    by (meson rtranclp.rtrancl_into_rtrancl rtranclp.rtrancl_refl)
  then show ?thesis by (simp add: started_def)
qed

lemma run_hangs:
  "\<exists>hung e e'. run_step\<^sup>*\<^sup>* started hung \<and> halted hung \<and> main hung = Waiting e \<and> csi hung = SendingCsi e'"
proof -
  let ?s = "started\<lparr>serve := ServeDone, main := Waiting bind_error, cancelled := True, starter := StarterDone\<rparr>"
  let ?hung = "?s\<lparr>csi := SendingCsi csi_error\<rparr>"
  have "run_step ?s ?hung"
    using csi_fails [of ?s "ExtErr ''endpoint path can't be empty''"] by (simp add: started_def csi_error_def)
  then have "run_step\<^sup>*\<^sup>* started ?hung" using serve_failed by (rule rtranclp.rtrancl_into_rtrancl [rotated])
  moreover have "halted ?hung" by (auto simp: halted_def started_def elim: run_stepE)
  ultimately show ?thesis by (intro exI [of _ ?hung]) (auto simp: started_def)
qed

lemma run_ends:
  "\<exists>s. run_step\<^sup>*\<^sup>* started s \<and> halted s \<and> main s = Returned bind_error"
proof -
  let ?s = "started\<lparr>serve := ServeDone, main := Waiting bind_error, cancelled := True, starter := StarterDone\<rparr>"
  let ?s1 = "?s\<lparr>csi := CsiDone\<rparr>" and ?s2 = "?s\<lparr>csi := CsiDone, main := Returned bind_error\<rparr>"
  have "run_step ?s ?s1" by (rule csi_stops) (simp_all add: started_def)
  moreover have "run_step ?s1 ?s2" using returns [of ?s1] by (simp add: started_def)
  ultimately have "run_step\<^sup>*\<^sup>* started ?s2"
    using serve_failed by (meson rtranclp.rtrancl_into_rtrancl)
  moreover have "halted ?s2" by (auto simp: halted_def started_def elim: run_stepE)
  ultimately show ?thesis by (intro exI [of _ ?s2]) (simp add: started_def)
qed

section \<open>Properties\<close>



end
