(* ===== verification/Csi_Faults.thy ===== *)
theory Csi_Faults
  imports Csi_Driver
begin

text \<open>
  Node calls that meet a fault: what the driver answers, and what it leaves behind.
\<close>

section \<open>Calls on a closed database\<close>

lemma HasVolume_no_tx:
  "tx_begin (lm_db M) (w_db w) = Some e \<Longrightarrow> \<exists>e'. HasVolume M v w = Inl e'"
  by (simp add: HasVolume_def db_GetLibraryForVolume_def db_view_def)

lemma stop_closes:
  "driver_Stop d order st = (None, st1) \<Longrightarrow> d_has_manager d \<Longrightarrow>
   \<exists>x. bolt_close (lm_db (d_manager d)) x = (None, w_db (snd st1))"
  by (auto simp: driver_Stop_def lm_Stop_def db_Close_def Let_def split: prod.splits)

lemma node_unpublish_Some:
  assumes "chain_Unpublish (d_manager d) (d_publisher d) req (snd ds) = ((Some resp, None), st')"
  shows "\<exists>m'. NodeUnpublishVolume P keys d req ds = Some (Inr (), (m', st'))"
proof -
  obtain m1 where m1: "listen P keys (snd ds) st' (fst ds) = Some m1" using listen_total by fast
  show ?thesis
    using assms m1 by (simp add: NodeUnpublishVolume_def RecordVolumeUnMountAttempt_def with_labels_def
        nodeVolumeUnmountAttempts_def newCounterVec_def)
qed

section \<open>Properties\<close>

text \<open>
  C19: The driver is stopped before the calls that still run are waited for: on a driver whose
  \<open>Stop\<close> has closed the database, an unpublish that is still under way reports success and
  changes no record, whichever volume it is for. A volume that was recorded stays recorded, and
  since the kubelet has been told that it is gone nobody asks for it again.
\<close>
theorem stopped_driver_forgets:
  assumes "driver_Stop d order st = (None, st1)" "d_has_manager d"
    and "d_publisher d = GetPublishers paths base apm regs"
    and "\<forall>x x'. bolt_close (lm_db (d_manager d)) x = (None, x') \<longrightarrow> tx_begin (lm_db (d_manager d)) x' \<noteq> None"
    and "os_exists (lm_fs (d_manager d)) (w_host (snd st1)) (un_TargetPath req) = Inr b"
  shows "\<exists>m' st2. NodeUnpublishVolume P keys d req (m, st1) = Some (Inr (), (m', st2)) \<and>
    w_db (snd st2) = w_db (snd st1)"
proof -
  obtain e where "tx_begin (lm_db (d_manager d)) (w_db (snd st1)) = Some e"
    using stop_closes [OF assms(1,2)] assms(4) by blast
  then obtain e' where "HasVolume (d_manager d) (un_VolumeId req) (snd st1) = Inl e'"
    using HasVolume_no_tx by blast
  from unpublish_declined [OF this assms(5), of paths base apm regs] obtain st2 where
    "chain_Unpublish (d_manager d) (d_publisher d) req (snd (m, st1)) =
       ((Some \<lparr>VolumeType = [], VolumePath = []\<rparr>, None), st2)" "w_db (snd st2) = w_db (snd st1)"
    using assms(3) by auto
  then show ?thesis using node_unpublish_Some by blast
qed

theorem stopped_driver_forgets_witness:
  "\<exists>m' st2. NodeUnpublishVolume mem_prom (\<lambda>mp. []) demo_driver v1_unpublish
       (stale_metrics, snd (driver_Stop demo_driver [] node_state)) = Some (Inr (), (m', st2)) \<and>
     lg_vols (lm_ledger mem_manager (snd st2)) ''v1'' = lg_vols (lm_ledger mem_manager (snd node_state)) ''v1''"
proof -
  let ?st1 = "snd (driver_Stop demo_driver [] node_state)"
  have "fst (driver_Stop demo_driver [] node_state) = None"
      "os_exists (lm_fs mem_manager) (w_host (snd ?st1)) (un_TargetPath v1_unpublish) = Inr True"
    by code_simp+
  then have run: "driver_Stop demo_driver [] node_state = (None, ?st1)"
      "os_exists (lm_fs (d_manager demo_driver)) (w_host (snd ?st1)) (un_TargetPath v1_unpublish) = Inr True"
    by (simp_all add: prod_eq_iff)
  have d: "d_has_manager demo_driver" "d_publisher demo_driver = GetPublishers node_paths mem_base True [''gcr.io'']"
    by (simp_all add: demo_driver_def node_publishers_def)
  have "\<forall>x x'. bolt_close (lm_db (d_manager demo_driver)) x = (None, x') \<longrightarrow>
      tx_begin (lm_db (d_manager demo_driver)) x' \<noteq> None"
    by (auto simp: mem_bolt_def)
  from stopped_driver_forgets [OF run(1) d this run(2), where P = mem_prom and keys = "\<lambda>mp. []" and m = stale_metrics]
  obtain m' st2 where "NodeUnpublishVolume mem_prom (\<lambda>mp. []) demo_driver v1_unpublish (stale_metrics, ?st1) =
      Some (Inr (), (m', st2))" "w_db (snd st2) = w_db (snd ?st1)"
    by blast
  moreover have "lg_vols (lm_ledger mem_manager (snd ?st1)) ''v1'' = lg_vols (lm_ledger mem_manager (snd node_state)) ''v1''"
    by code_simp
  ultimately show ?thesis by auto
qed

section \<open>A mount that cannot be undone\<close>

text \<open>
  When \<open>Unmount\<close> fails the target is removed all the same and the call succeeds. Here the
  library of \<open>v1\<close> is mounted at the target, the unmount fails, and the mount is still there
  after the successful unpublish.
\<close>

definition mounted_state :: "(mem_state, mem_db, mem_net) pstate" where
  "mounted_state = snd (chain_Publish mem_manager node_publishers library_request node_state)"

definition v1_gone :: unpublish_request where
  "v1_gone = \<lparr>un_VolumeId = ''v1'', un_TargetPath = ''/t/v9''\<rparr>"

definition stuck_state :: "(mem_state, mem_db, mem_net) pstate" where
  "stuck_state = (fst mounted_state,
     (snd mounted_state)\<lparr>w_host := (w_host (snd mounted_state))\<lparr>mh_broken := [''Unmount'']\<rparr>\<rparr>)"

lemma failed_unmount_succeeds:
  "snd (fst (chain_Unpublish mem_manager node_publishers v1_gone stuck_state)) = None \<and>
   map_of (mh_mounts (w_host (snd (snd (chain_Unpublish mem_manager node_publishers v1_gone stuck_state))))) ''/t/v9'' = Some (''/d/store/aa/datadog-init/package'', True) \<and>
   lg_vols (lm_ledger mem_manager (snd (snd (chain_Unpublish mem_manager node_publishers v1_gone stuck_state)))) ''v1'' = None"
  by (intro conjI) code_simp+

section \<open>A repeated publish that fails\<close>

text \<open>
  \<open>v1\<close> is mounted. Its library loses the directory that is mounted, and the publish is repeated.
\<close>

definition damaged_state :: "(mem_state, mem_db, mem_net) pstate" where
  "damaged_state = (fst mounted_state,
     (snd mounted_state)\<lparr>w_host :=
        snd (mem_remove_all (w_host (snd mounted_state)) (path_join [''/d/store/aa'', library_source ''java'']))\<rparr>)"

text \<open>
  A repeated publish can lose the link of a mounted volume: when a volume that is linked and
  mounted is published again and the check of its library fails, the roll back removes the link
  that the first publish made. The call reports the error, the mount stays, and the record is gone,
  so the library can be cleaned up under the mount.
\<close>
theorem republish_failure_unlinks:
  "snd (fst (chain_Publish mem_manager node_publishers library_request node_state)) = None \<and>
   map_option LibraryID (lg_vols (lm_ledger mem_manager (snd damaged_state)) ''v1'') = Some ''aa'' \<and>
   map_of (mh_mounts (w_host (snd damaged_state))) ''/t/v9'' = Some (''/d/store/aa/datadog-init/package'', True) \<and>
   snd (fst (chain_Publish mem_manager node_publishers library_request damaged_state)) \<noteq> None \<and>
   lg_vols (lm_ledger mem_manager (snd (snd (chain_Publish mem_manager node_publishers library_request damaged_state)))) ''v1'' = None \<and>
   map_of (mh_mounts (w_host (snd (snd (chain_Publish mem_manager node_publishers library_request damaged_state))))) ''/t/v9'' = Some (''/d/store/aa/datadog-init/package'', True)"
  by (intro conjI) code_simp+

end
