(* ===== verification/Lib_Manager_Locks.thy ===== *)
theory Lib_Manager_Locks
  imports Lib_Manager_Props
begin

text \<open>
  The locks a call of the library manager takes, the order in which it takes and releases them,
  and the events it reports. These facts hold on every host, database and network.
\<close>

section \<open>Events only\<close>

fun is_event :: "act \<Rightarrow> bool" where
  "is_event (Emit e) = True"
| "is_event (LockAct k) = False"
| "is_event (UnlockAct k) = False"

text \<open>A step that only reports events, and one that holds at most one library lock.\<close>

definition logs_events :: "('h, 'd, 'n) world \<Rightarrow> ('h, 'd, 'n) world \<Rightarrow> bool" where
  "logs_events w w' \<longleftrightarrow> (\<exists>es. w_log w' = w_log w @ es \<and> list_all is_event es)"

definition one_lock :: "act list \<Rightarrow> bool" where
  "one_lock xs \<longleftrightarrow> list_all is_event xs \<or>
     (\<exists>es l es' es''. xs = es @ LockAct l # es' @ UnlockAct l # es'' \<and>
        list_all is_event es \<and> list_all is_event es' \<and> list_all is_event es'')"

lemma logs_events_refl [simp]: "logs_events w w"
  by (simp add: logs_events_def)

lemma logs_events_same: "w_log w' = w_log w \<Longrightarrow> logs_events w w'"
  by (simp add: logs_events_def)

lemma logs_events_trans: "logs_events w w1 \<Longrightarrow> logs_events w1 w2 \<Longrightarrow> logs_events w w2"
  by (auto simp: logs_events_def)

lemma logs_events_emit [simp]: "logs_events w (note_act (Emit e) w') = logs_events w w'" if "w_log w' = w_log w"
  using that by (simp add: logs_events_def)

lemma logs_events_note: "logs_events w w' \<Longrightarrow> logs_events w (note_act (Emit e) w')"
  by (auto simp: logs_events_def)

lemma logs_events_cong: "w_log w1' = w_log w' \<Longrightarrow> logs_events w w1' = logs_events w w'"
  by (simp add: logs_events_def)

lemma clock_logs: "clock M w = (t, w') \<Longrightarrow> logs_events w w'"
  using clock_fields by (intro logs_events_same) blast

lemma download_into_logs:
  assumes "download_into M i lib img p w = (r, w')"
  shows "logs_events w w'"
proof -
  obtain t0 w1 where w1: "clock M w = (t0, w1)" by force
  obtain dr h n where d: "Download (lm_fs M) (lm_net M) (lm_getwd M) img p (w_host w1) (w_net w1) = (dr, h, n)"
    using prod_cases3 by blast
  let ?w2 = "w1\<lparr>w_host := h, w_net := n\<rparr>"
  obtain t w3 where w3: "clock M ?w2 = (t, w3)" by force
  have log3: "w_log w3 = w_log w" using clock_fields [OF w1] clock_fields [OF w3] by simp
  show ?thesis
    using assms w1 d w3 log3 clock_fields [OF w1]
    by (cases dr) (auto simp: download_into_def logs_events_def Let_def split: prod.splits)
qed

lemma downloadToStore_logs:
  assumes "downloadToStore M i lib img w = (r, w')"
  shows "logs_events w w'"
proof -
  obtain temp h where temp: "os_temp_dir (lm_fs M) (w_host w) (lm_scratchDir M) ''datadog-csi-driver-*'' = (temp, h)"
    by force
  show ?thesis
  proof (cases temp)
    case (Inl e)
    then show ?thesis using assms temp by (auto simp: downloadToStore_def logs_events_def)
  next
    case (Inr p)
    obtain w2 where w2: "download_into M i lib img p (w\<lparr>w_host := h\<rparr>) = (r, w2)"
        "w' = w2\<lparr>w_host := snd (os_remove_all (lm_fs M) (w_host w2) p)\<rparr>"
      using assms temp Inr by (auto simp: downloadToStore_def split: prod.splits)
    then show ?thesis using download_into_logs [OF w2(1)] by (simp add: logs_events_def)
  qed
qed

lemma linkVolume_logs:
  assumes "linkVolume M l v p fc w = (r, w')"
  shows "logs_events w w'"
proof -
  obtain now w1 where w1: "clock M w = (now, w1)" by force
  obtain lr d where d: "LinkVolume (lm_json M) (lm_db M) now l v fc (w_db w1) = (lr, d)" by force
  show ?thesis
    using assms w1 d clock_fields [OF w1]
    by (auto simp: linkVolume_def logs_events_def Let_def split: sum.splits prod.splits)
qed

lemma reuse_linked_logs:
  assumes "reuse_linked M l lib w = (r, w')"
  shows "logs_events w w'"
  using assms downloadToStore_logs
  by (fastforce simp: reuse_linked_def Let_def split: sum.splits prod.splits if_splits)

lemma download_and_link_logs:
  assumes "download_and_link M l v lib w = (r, w')"
  shows "logs_events w w'"
proof -
  obtain dr w1 where d: "downloadToStore M l lib (Image lib) w = (dr, w1)" by force
  have 1: "logs_events w w1" by (rule downloadToStore_logs [OF d])
  show ?thesis
  proof (cases dr)
    case (Inl e)
    then show ?thesis using assms d 1 by (auto simp: download_and_link_def)
  next
    case (Inr q)
    obtain path bytes where q: "q = (path, bytes)" by force
    obtain ar db where a: "AddLibrary (lm_json M) (lm_db M) l (lib_name lib) bytes (w_db w1) = (ar, db)"
      by force
    let ?w2 = "w1\<lparr>w_db := db\<rparr>"
    have 2: "logs_events w ?w2" using 1 by (simp add: logs_events_def)
    obtain c t k where st: "packageStats M (lib_name lib) ?w2 = (c, t, k)" using prod_cases3 by blast
    let ?w3 = "note_act (Emit (OnLibraryCached (lib_name lib) c t)) ?w2"
    obtain lr w4 where l4: "linkVolume M l v (lib_name lib) False ?w3 = (lr, w4)" by force
    have "logs_events w w4"
      using logs_events_trans [OF logs_events_note [OF 2] linkVolume_logs [OF l4]] .
    then show ?thesis
      using assms d Inr q a st l4 2
      by (cases ar; cases lr) (auto simp: download_and_link_def)
  qed
qed

lemma resolve_new_logs:
  assumes "resolve_new M l v lib w = (r, w')"
  shows "logs_events w w'"
proof (cases "stored_path M l w")
  case (Inl e)
  then show ?thesis using assms by (auto simp: resolve_new_def)
next
  case (Inr path)
  obtain lr w1 where l: "linkVolume M l v (lib_name lib) True w = (lr, w1)" by force
  show ?thesis
    using assms Inr l linkVolume_logs [OF l] download_and_link_logs [of M l v lib w r w']
    by (auto simp: resolve_new_def split: sum.splits if_splits)
qed

lemma locked_logs:
  assumes "with_lock k f w = (r, w')" "\<And>w1 r w2. f w1 = (r, w2) \<Longrightarrow> logs_events w1 w2"
  shows "\<exists>es. w_log w' = w_log w @ LockAct k # es @ [UnlockAct k] \<and> list_all is_event es"
proof -
  obtain w2 where w2: "f (note_act (LockAct k) w) = (r, w2)" "w' = note_act (UnlockAct k) w2"
    using with_lock_result [OF assms(1)] by blast
  from assms(2) [OF this(1)] show ?thesis using w2(2) by (auto simp: logs_events_def)
qed

lemma resolve_volume_logs:
  assumes "resolve_volume M v lib w = (r, w')"
  shows "\<exists>xs. w_log w' = w_log w @ xs \<and> one_lock xs"
proof (cases "db_GetLibraryForVolume (lm_json M) (lm_db M) v (w_db w)")
  case (Inl e)
  then show ?thesis using assms by (auto simp: resolve_volume_def one_lock_def)
next
  case (Inr l)
  have one: "one_lock (LockAct k # es @ [UnlockAct k])" if "list_all is_event es" for k es
    unfolding one_lock_def using that
    by (intro disjI2 exI [of _ "[]"] exI [of _ k] exI [of _ es]) simp
  show ?thesis
  proof (cases "l = []")
    case False
    then have "with_lock l (reuse_linked M l lib) w = (r, w')"
      using assms Inr by (simp add: resolve_volume_def)
    then have "\<exists>es. w_log w' = w_log w @ LockAct l # es @ [UnlockAct l] \<and> list_all is_event es"
      by (rule locked_logs) (rule reuse_linked_logs)
    then show ?thesis using one by blast
  next
    case True
    obtain fr c n where f: "FetchDigest (lm_net M) (lm_ttl M) (Image lib) (lib_pull lib) (w_cache w) (w_net w) = (fr, c, n)"
      using prod_cases3 by blast
    show ?thesis
    proof (cases fr)
      case fe: (Inl e)
      then show ?thesis using assms Inr True f by (auto simp: resolve_volume_def one_lock_def)
    next
      case fd: (Inr d)
      then have "with_lock d (resolve_new M d v lib) (w\<lparr>w_cache := c, w_net := n\<rparr>) = (r, w')"
        using assms Inr True f by (simp add: resolve_volume_def)
      then have "\<exists>es. w_log w' = w_log (w\<lparr>w_cache := c, w_net := n\<rparr>) @ LockAct d # es @ [UnlockAct d] \<and>
          list_all is_event es"
        by (rule locked_logs) (rule resolve_new_logs)
      then show ?thesis using one by fastforce
    qed
  qed
qed

lemma map_sum_Inr: "map_sum id f x = Inr y \<longleftrightarrow> (\<exists>a. x = Inr a \<and> y = f a)"
  by (cases x) auto

text \<open>A resolution that returns a path is never reported as failed.\<close>

lemma reuse_linked_result: "reuse_linked M l lib w = (Inr (p, res), w') \<Longrightarrow> res \<noteq> ResolutionFailed"
  by (auto simp: reuse_linked_def Let_def map_sum_Inr split: sum.splits prod.splits if_splits)

lemma resolve_new_result: "resolve_new M l v lib w = (Inr (p, res), w') \<Longrightarrow> res \<noteq> ResolutionFailed"
  by (auto simp: resolve_new_def download_and_link_def Let_def split: sum.splits prod.splits if_splits)

lemma resolve_volume_result:
  "resolve_volume M v lib w = (r, w') \<Longrightarrow> \<forall>p res. r = Inr (p, res) \<longrightarrow> res \<noteq> ResolutionFailed"
  by (auto simp: resolve_volume_def split: sum.splits prod.splits if_splits
      dest!: with_lock_result dest: reuse_linked_result resolve_new_result)

section \<open>Cleanup and removal\<close>

lemma cleanup_event_logs: "logs_events w w1 \<Longrightarrow> logs_events w (cleanup_event M p st w1)"
  unfolding cleanup_event_def by (rule logs_events_note)

lemma remove_unused_logs:
  assumes "remove_unused M l info w = (r, w')"
  shows "logs_events w w'"
proof -
  obtain sr h where st: "store_remove (lm_fs M) (lm_store M) (w_host w) l = (sr, h)" by force
  obtain rr d where rl: "RemoveLibrary (lm_db M) l (w_db w) = (rr, d)" by force
  show ?thesis
    using assms st rl
    by (cases sr; cases rr)
       (auto simp: remove_unused_def Let_def cleanup_event_def logs_events_def split: prod.splits if_splits)
qed

lemma try_cleanup_logs:
  assumes "try_cleanup M l w = (r, w')"
  shows "logs_events w w'"
  using assms remove_unused_logs [of M l _ w r w']
  by (auto simp: try_cleanup_def cleanup_event_logs split: sum.splits prod.splits if_splits)

lemma tryCleanup_logs:
  assumes "tryCleanupLibrary M l w = (r, w')"
  shows "\<exists>es. w_log w' = w_log w @ LockAct l # es @ [UnlockAct l] \<and> list_all is_event es"
  using assms unfolding tryCleanupLibrary_def by (rule locked_logs) (rule try_cleanup_logs)

lemma one_lock_events: "list_all is_event xs \<Longrightarrow> one_lock ys \<Longrightarrow> one_lock (xs @ ys)"
  unfolding one_lock_def
proof (elim disjE exE conjE)
  fix es l es' es''
  assume "list_all is_event xs" "ys = es @ LockAct l # es' @ UnlockAct l # es''"
    "list_all is_event es" "list_all is_event es'" "list_all is_event es''"
  then show "list_all is_event (xs @ ys) \<or>
      (\<exists>es l es' es''. xs @ ys = es @ LockAct l # es' @ UnlockAct l # es'' \<and>
        list_all is_event es \<and> list_all is_event es' \<and> list_all is_event es'')"
    by (intro disjI2 exI [of _ "xs @ es"] exI [of _ l] exI [of _ es'] exI [of _ es'']) simp
qed simp

text \<open>Scheduling either runs the cleanup, under the lock of its library, or does nothing now.\<close>

lemma schedule_logs:
  assumes "ScheduleCleanup (cleanup_call M) () l (s, w) = (s', w')" "strategy_ok s"
  shows "\<exists>xs. w_log w' = w_log w @ xs \<and> one_lock xs"
proof -
  have "w' = snd (tryCleanupLibrary M l w) \<or> w' = w"
    using strat.schedule_runs [OF assms(2,1)] by (auto simp: cleanup_call_def)
  then show ?thesis
  proof
    assume w': "w' = snd (tryCleanupLibrary M l w)"
    obtain r where "tryCleanupLibrary M l w = (r, w')" using w' by (metis prod.collapse)
    from tryCleanup_logs [OF this] obtain es
      where es: "w_log w' = w_log w @ LockAct l # es @ [UnlockAct l]" "list_all is_event es" by blast
    then have "one_lock (LockAct l # es @ [UnlockAct l])"
      unfolding one_lock_def by (intro disjI2 exI [of _ "[]"] exI [of _ l] exI [of _ es]) simp
    then show ?thesis using es(1) by blast
  qed (auto simp: one_lock_def)
qed

lemma remove_volume_logs:
  assumes "remove_volume M v s w = ((r, s'), w')" "strategy_ok s"
  shows "\<exists>xs. w_log w' = w_log w @ xs \<and> one_lock xs"
proof -
  obtain ur d where u: "UnlinkVolume (lm_json M) (lm_db M) v (w_db w) = (ur, d)" by force
  show ?thesis
  proof (cases ur)
    case (Inl e)
    then show ?thesis using assms u by (auto simp: remove_volume_def one_lock_def)
  next
    case (Inr q)
    obtain l p where q: "q = (l, p)" by force
    show ?thesis
    proof (cases "l = []")
      case True
      then show ?thesis using assms u Inr q by (auto simp: remove_volume_def one_lock_def)
    next
      case False
      then obtain w2 where w2: "ScheduleCleanup (cleanup_call M) () l (s, w2) = (s', w')" "logs_events w w2"
        using assms(1) u Inr q
        by (auto simp: remove_volume_def Let_def logs_events_def split: prod.splits if_splits)
      obtain es where es: "w_log w2 = w_log w @ es" "list_all is_event es"
        using w2(2) by (auto simp: logs_events_def)
      obtain xs where "w_log w' = w_log w2 @ xs" "one_lock xs"
        using schedule_logs [OF w2(1) assms(2)] by blast
      then show ?thesis using es one_lock_events [OF es(2)] by (intro exI [of _ "es @ xs"]) simp
    qed
  qed
qed

section \<open>Properties\<close>




end
