(* ===== verification/Lib_Locker.thy ===== *)
theory Lib_Locker
  imports Csi_Prelude
begin

text \<open>
  \<open>pkg/librarymanager/locker.go\<close>: one mutex per key, kept only while someone uses it. The
  state is the map of entries and the heap of entry structures; the sections of \<open>Lock\<close> and
  \<open>Unlock\<close> that run under \<open>l.mu\<close> are atomic, and so are the operations of an entry's mutex.
  A session \<open>'t\<close> is one \<open>Lock\<close> call with the \<open>Unlock\<close> call that ends it.
\<close>

section \<open>The operations\<close>

record 't lock_entry =
  mu :: "'t option"
  refs :: int

record 't locker =
  entries :: "string \<rightharpoonup> nat"
  heap :: "nat \<Rightarrow> 't lock_entry"
  next_entry :: nat

definition NewLocker :: "'t locker" where
  "NewLocker = \<lparr>entries = Map.empty, heap = (\<lambda>_. \<lparr>mu = None, refs = 0\<rparr>), next_entry = 0\<rparr>"

definition set_entry :: "nat \<Rightarrow> 't lock_entry \<Rightarrow> 't locker \<Rightarrow> 't locker" where
  "set_entry a e l = l\<lparr>heap := (heap l)(a := e)\<rparr>"

text \<open>The first half of \<open>Lock\<close>: find or make the entry and take a reference.\<close>

definition lock_entry_for :: "string \<Rightarrow> 't locker \<Rightarrow> nat \<times> 't locker" where
  "lock_entry_for k l =
     (case entries l k of
        Some a \<Rightarrow> (a, set_entry a ((heap l a)\<lparr>refs := refs (heap l a) + 1\<rparr>) l)
      | None \<Rightarrow>
          (let a = next_entry l in
           (a, set_entry a \<lparr>mu = None, refs = 1\<rparr>
                 (l\<lparr>entries := (entries l)(k \<mapsto> a), next_entry := Suc a\<rparr>))))"

text \<open>The second half: \<open>entry.mu.Lock()\<close>, which is possible when the mutex is free.\<close>

definition acquire :: "'t \<Rightarrow> nat \<Rightarrow> 't locker \<Rightarrow> 't locker option" where
  "acquire t a l =
     (if mu (heap l a) = None then Some (set_entry a ((heap l a)\<lparr>mu := Some t\<rparr>) l) else None)"

text \<open>The first half of \<open>Unlock\<close>; an unknown key makes the call return.\<close>

definition drop_reference :: "string \<Rightarrow> 't locker \<Rightarrow> nat option \<times> 't locker" where
  "drop_reference k l =
     (case entries l k of
        None \<Rightarrow> (None, l)
      | Some a \<Rightarrow>
          (let n = refs (heap l a) - 1; l1 = set_entry a ((heap l a)\<lparr>refs := n\<rparr>) l in
           (Some a, if n = 0 then l1\<lparr>entries := (entries l1)(k := None)\<rparr> else l1)))"

text \<open>The second half: \<open>entry.mu.Unlock()\<close>.\<close>

definition release :: "nat \<Rightarrow> 't locker \<Rightarrow> 't locker" where
  "release a l = set_entry a ((heap l a)\<lparr>mu := None\<rparr>) l"

section \<open>Sessions\<close>

datatype phase =
    Idle
  | Waiting string nat
  | Critical string nat
  | Releasing nat

text \<open>All interleavings of sessions that follow the protocol of \<open>Lock\<close> and \<open>Unlock\<close>.\<close>

inductive locker_step :: "('t \<Rightarrow> phase) \<times> 't locker \<Rightarrow> ('t \<Rightarrow> phase) \<times> 't locker \<Rightarrow> bool" where
  enter: "pc t = Idle \<Longrightarrow> lock_entry_for k l = (a, l') \<Longrightarrow>
    locker_step (pc, l) (pc(t := Waiting k a), l')"
| acquired: "pc t = Waiting k a \<Longrightarrow> acquire t a l = Some l' \<Longrightarrow>
    locker_step (pc, l) (pc(t := Critical k a), l')"
| leave: "pc t = Critical k a \<Longrightarrow> drop_reference k l = (Some a', l') \<Longrightarrow>
    locker_step (pc, l) (pc(t := Releasing a'), l')"
| leave_unknown: "pc t = Critical k a \<Longrightarrow> drop_reference k l = (None, l') \<Longrightarrow>
    locker_step (pc, l) (pc(t := Idle), l')"
| released: "pc t = Releasing a \<Longrightarrow> locker_step (pc, l) (pc(t := Idle), release a l)"

definition all_idle :: "'t \<Rightarrow> phase" where "all_idle = (\<lambda>_. Idle)"

abbreviation locker_reach :: "('t \<Rightarrow> phase) \<times> 't locker \<Rightarrow> bool" where
  "locker_reach \<equiv> locker_step\<^sup>*\<^sup>* (all_idle, NewLocker)"

section \<open>The invariant\<close>

text \<open>The sessions that hold a reference to an entry, and the one that holds its mutex.\<close>

definition referrers :: "('t \<Rightarrow> phase) \<Rightarrow> nat \<Rightarrow> 't set" where
  "referrers pc a = {t. \<exists>k. pc t = Waiting k a \<or> pc t = Critical k a}"

definition holds_mu :: "phase \<Rightarrow> nat \<Rightarrow> bool" where
  "holds_mu p a \<longleftrightarrow> (\<exists>k. p = Critical k a) \<or> p = Releasing a"

definition locker_inv :: "('t \<Rightarrow> phase) \<times> 't locker \<Rightarrow> bool" where
  "locker_inv c \<longleftrightarrow> (case c of (pc, l) \<Rightarrow>
     (\<forall>k a. entries l k = Some a \<longrightarrow> a < next_entry l) \<and>
     (\<forall>k k' a. entries l k = Some a \<longrightarrow> entries l k' = Some a \<longrightarrow> k = k') \<and>
     (\<forall>t k a. pc t = Waiting k a \<or> pc t = Critical k a \<longrightarrow> entries l k = Some a) \<and>
     (\<forall>k a. entries l k = Some a \<longrightarrow>
        finite (referrers pc a) \<and> referrers pc a \<noteq> {} \<and> refs (heap l a) = int (card (referrers pc a))) \<and>
     (\<forall>t a. holds_mu (pc t) a \<longleftrightarrow> mu (heap l a) = Some t) \<and>
     (\<forall>t a. holds_mu (pc t) a \<longrightarrow> a < next_entry l))"

lemma inv_entry:
  assumes "locker_inv (pc, l)"
  shows "pc t = Waiting k a \<or> pc t = Critical k a \<Longrightarrow> entries l k = Some a"
    and "entries l k = Some a \<Longrightarrow> finite (referrers pc a) \<and> referrers pc a \<noteq> {} \<and>
           refs (heap l a) = int (card (referrers pc a)) \<and> a < next_entry l"
    and "entries l k = Some a \<Longrightarrow> entries l k' = Some a \<Longrightarrow> k = k'"
    and "holds_mu (pc t) a \<longleftrightarrow> mu (heap l a) = Some t"
    and "holds_mu (pc t) a \<Longrightarrow> a < next_entry l"
  using assms unfolding locker_inv_def by blast+

lemma locker_inv_init: "locker_inv (all_idle, NewLocker)"
  by (simp add: locker_inv_def all_idle_def NewLocker_def holds_mu_def)

lemma referrers_upd:
  "referrers (pc(t := p)) a =
     (if \<exists>k. p = Waiting k a \<or> p = Critical k a then insert t (referrers pc a) else referrers pc a - {t})"
  by (auto simp: referrers_def)

lemma in_referrers: "t \<in> referrers pc a \<longleftrightarrow> (\<exists>k. pc t = Waiting k a \<or> pc t = Critical k a)"
  by (simp add: referrers_def)

text \<open>An address that was never handed out is not in use.\<close>

lemma fresh_entry:
  assumes "locker_inv (pc, l)"
  shows "referrers pc (next_entry l) = {}" "mu (heap l (next_entry l)) = None"
proof -
  show "referrers pc (next_entry l) = {}"
    using inv_entry(1,2) [OF assms] by (fastforce simp: referrers_def)
  show "mu (heap l (next_entry l)) = None"
    using inv_entry(4,5) [OF assms] by (metis less_irrefl not_None_eq)
qed

text \<open>
  How a step is shown to keep the invariant: the parts on the map, on the references of each
  entry, and on the mutexes.
\<close>

lemma locker_invI:
  assumes "\<And>k a. entries l k = Some a \<Longrightarrow> a < next_entry l"
    and "\<And>k k' a. entries l k = Some a \<Longrightarrow> entries l k' = Some a \<Longrightarrow> k = k'"
    and "\<And>t k a. pc t = Waiting k a \<or> pc t = Critical k a \<Longrightarrow> entries l k = Some a"
    and "\<And>k a. entries l k = Some a \<Longrightarrow>
        finite (referrers pc a) \<and> referrers pc a \<noteq> {} \<and> refs (heap l a) = int (card (referrers pc a))"
    and "\<And>t a. holds_mu (pc t) a \<longleftrightarrow> mu (heap l a) = Some t"
    and "\<And>t a. holds_mu (pc t) a \<Longrightarrow> a < next_entry l"
  shows "locker_inv (pc, l)"
  unfolding locker_inv_def prod.case using assms by blast

lemma inv_enter:
  assumes inv: "locker_inv (pc, l)" and t: "pc t = Idle" and step: "lock_entry_for k l = (a, l')"
  shows "locker_inv (pc(t := Waiting k a), l')"
proof -
  note I = inv_entry [OF inv]
  have not_ref: "t \<notin> referrers pc b" for b using t by (simp add: in_referrers)
  show ?thesis
  proof (cases "entries l k")
    case (Some b)
    then have l': "a = b" "l' = set_entry b ((heap l b)\<lparr>refs := refs (heap l b) + 1\<rparr>) l"
      using step by (auto simp: lock_entry_for_def)
    show ?thesis
    proof (rule locker_invI)
      fix j c
      assume "entries l' j = Some c"
      then have j: "entries l j = Some c" using l' by (simp add: set_entry_def)
      then show "c < next_entry l'" using I(2) l' by (simp add: set_entry_def)
      show "finite (referrers (pc(t := Waiting k a)) c) \<and> referrers (pc(t := Waiting k a)) c \<noteq> {} \<and>
          refs (heap l' c) = int (card (referrers (pc(t := Waiting k a)) c))"
        using I(2) [OF j] l' not_ref [of c] by (auto simp: referrers_upd set_entry_def)
    next
      fix u c
      show "holds_mu ((pc(t := Waiting k a)) u) c \<longleftrightarrow> mu (heap l' c) = Some u"
        using I(4) [of u c] I(4) [of t c] t l' by (auto simp: set_entry_def holds_mu_def)
    qed (use I Some l' t in \<open>auto simp: set_entry_def holds_mu_def split: if_splits\<close>)
  next
    case None
    then have l': "a = next_entry l"
        "l' = set_entry a \<lparr>mu = None, refs = 1\<rparr> (l\<lparr>entries := (entries l)(k \<mapsto> a), next_entry := Suc a\<rparr>)"
      using step by (auto simp: lock_entry_for_def Let_def)
    note F = fresh_entry [OF inv]
    show ?thesis
    proof (rule locker_invI)
      fix j c
      assume j: "entries l' j = Some c"
      show "finite (referrers (pc(t := Waiting k a)) c) \<and> referrers (pc(t := Waiting k a)) c \<noteq> {} \<and>
          refs (heap l' c) = int (card (referrers (pc(t := Waiting k a)) c))"
      proof (cases "j = k")
        case True
        then have "c = a" using j l' by (simp add: set_entry_def)
        then show ?thesis using F l' by (simp add: referrers_upd set_entry_def)
      next
        case False
        then have "entries l j = Some c" using j l' by (simp add: set_entry_def)
        then show ?thesis
          using I(2) [of j c] l' not_ref [of c] by (auto simp: referrers_upd set_entry_def)
      qed
    next
      fix u c
      show "holds_mu ((pc(t := Waiting k a)) u) c \<longleftrightarrow> mu (heap l' c) = Some u"
        using I(4) [of u c] I(4) [of t c] F t l' by (auto simp: set_entry_def holds_mu_def)
    next
      fix j j' c
      assume "entries l' j = Some c" "entries l' j' = Some c"
      then show "j = j'"
        using I(2) [of j c] I(2) [of j' c] I(3) [of j c j'] l'
        by (auto simp: set_entry_def split: if_splits)
    next
      fix u j c
      assume "(pc(t := Waiting k a)) u = Waiting j c \<or> (pc(t := Waiting k a)) u = Critical j c"
      then show "entries l' j = Some c"
        using I(1) [of u j c] None l' by (auto simp: set_entry_def split: if_splits)
    next
      fix j c
      assume "entries l' j = Some c"
      then show "c < next_entry l'"
        using I(2) [of j c] l' by (auto simp: set_entry_def split: if_splits)
    next
      fix u c
      assume "holds_mu ((pc(t := Waiting k a)) u) c"
      then show "c < next_entry l'"
        using I(5) [of u c] l' by (auto simp: set_entry_def holds_mu_def split: if_splits)
    qed
  qed
qed

lemma inv_acquire:
  assumes inv: "locker_inv (pc, l)" and t: "pc t = Waiting k a" and step: "acquire t a l = Some l'"
  shows "locker_inv (pc(t := Critical k a), l')"
proof -
  note I = inv_entry [OF inv]
  have free: "mu (heap l a) = None" and l': "l' = set_entry a ((heap l a)\<lparr>mu := Some t\<rparr>) l"
    using step by (auto simp: acquire_def split: if_splits)
  have key: "entries l k = Some a" using I(1) t by blast
  have same: "referrers (pc(t := Critical k a)) c = referrers pc c" for c
  proof (cases "c = a")
    case True
    then show ?thesis using t by (auto simp: referrers_upd in_referrers)
  next
    case False
    then have "t \<notin> referrers pc c" using t by (simp add: in_referrers)
    then show ?thesis using False by (auto simp: referrers_upd)
  qed
  show ?thesis
  proof (rule locker_invI)
    fix u c
    show "holds_mu ((pc(t := Critical k a)) u) c \<longleftrightarrow> mu (heap l' c) = Some u"
      using I(4) [of u c] I(4) [of t c] free t l' by (auto simp: set_entry_def holds_mu_def)
  next
    fix u c
    assume "holds_mu ((pc(t := Critical k a)) u) c"
    then show "c < next_entry l'"
      using I(5) [of u c] I(2) [OF key] l' by (auto simp: set_entry_def holds_mu_def split: if_splits)
  qed (use I key l' same in \<open>auto simp: set_entry_def split: if_splits\<close>)
qed

lemma inv_leave:
  assumes inv: "locker_inv (pc, l)" and t: "pc t = Critical k a" and step: "drop_reference k l = (Some b, l')"
  shows "locker_inv (pc(t := Releasing b), l')"
proof -
  note I = inv_entry [OF inv]
  have key: "entries l k = Some a" using I(1) t by blast
  let ?n = "refs (heap l a) - 1"
  have b: "b = a"
    and l': "heap l' = (heap l)(a := (heap l a)\<lparr>refs := ?n\<rparr>)" "next_entry l' = next_entry l"
      "entries l' = (if ?n = 0 then (entries l)(k := None) else entries l)"
    using step key by (auto simp: drop_reference_def Let_def set_entry_def split: if_splits)
  have ref: "t \<in> referrers pc a" using t by (auto simp: in_referrers)
  have count: "finite (referrers pc a)" "refs (heap l a) = int (card (referrers pc a))"
    using I(2) [OF key] by blast+
  have n: "?n = int (card (referrers pc a - {t}))"
    using card_remove [OF count(1) ref] count(2) by simp
  have refs': "referrers (pc(t := Releasing b)) c = referrers pc c - {t}" for c
    by (simp add: referrers_upd)
  have other: "t \<notin> referrers pc c" if "c \<noteq> a" for c using t that by (simp add: in_referrers)
  have mono: "entries l' j = Some c \<Longrightarrow> entries l j = Some c" for j c
    using l'(3) by (auto split: if_splits)
  show ?thesis
  proof (rule locker_invI)
    fix j c
    assume j: "entries l' j = Some c"
    show "c < next_entry l'" using I(2) [OF mono [OF j]] l' by simp
    show "finite (referrers (pc(t := Releasing b)) c) \<and> referrers (pc(t := Releasing b)) c \<noteq> {} \<and>
        refs (heap l' c) = int (card (referrers (pc(t := Releasing b)) c))"
    proof (cases "c = a")
      case True
      then have "j = k" using I(3) [OF mono [OF j]] key by simp
      then have "?n \<noteq> 0" using j l'(3) by auto
      then have "referrers pc a - {t} \<noteq> {}" using n by (metis card.empty of_nat_0)
      then show ?thesis using True count(1) n l'(1) by (simp add: refs')
    next
      case False
      then show ?thesis using I(2) [OF mono [OF j]] other l'(1) by (simp add: refs')
    qed
  next
    fix u c
    show "holds_mu ((pc(t := Releasing b)) u) c \<longleftrightarrow> mu (heap l' c) = Some u"
      using I(4) [of u c] I(4) [of t c] I(4) [of t a] t b l' by (auto simp: holds_mu_def)
  next
    fix u c
    assume "holds_mu ((pc(t := Releasing b)) u) c"
    then show "c < next_entry l'"
      using I(5) [of u c] I(2) [OF key] b l' by (auto simp: holds_mu_def split: if_splits)
  next
    fix j j' c
    assume "entries l' j = Some c" "entries l' j' = Some c"
    then show "j = j'" using mono I(3) by blast
  next
    fix u j c
    assume u: "(pc(t := Releasing b)) u = Waiting j c \<or> (pc(t := Releasing b)) u = Critical j c"
    then have ut: "u \<noteq> t" and pcu: "pc u = Waiting j c \<or> pc u = Critical j c" by (auto split: if_splits)
    have j: "entries l j = Some c" using I(1) [OF pcu] .
    show "entries l' j = Some c"
    proof (cases "j = k")
      case True
      then have "u \<in> referrers pc a - {t}" using pcu ut j key by (auto simp: in_referrers)
      then have "?n \<noteq> 0" using n count(1) by (metis card_eq_0_iff empty_iff finite_Diff of_nat_eq_0_iff)
      then show ?thesis using j l'(3) by simp
    next
      case False
      then show ?thesis using j l'(3) by simp
    qed
  qed
qed

lemma never_unknown:
  assumes "locker_inv (pc, l)" "pc t = Critical k a" "drop_reference k l = (None, l')"
  shows False
proof -
  have "entries l k = Some a" using inv_entry(1) [OF assms(1)] assms(2) by blast
  then show False using assms(3) by (simp add: drop_reference_def Let_def)
qed

lemma inv_release:
  assumes inv: "locker_inv (pc, l)" and t: "pc t = Releasing a"
  shows "locker_inv (pc(t := Idle), release a l)"
proof -
  note I = inv_entry [OF inv]
  have "t \<notin> referrers pc c" for c using t by (simp add: in_referrers)
  then have same: "referrers (pc(t := Idle)) c = referrers pc c" for c by (simp add: referrers_upd)
  show ?thesis
  proof (rule locker_invI)
    fix u c
    show "holds_mu ((pc(t := Idle)) u) c \<longleftrightarrow> mu (heap (release a l) c) = Some u"
      using I(4) [of u c] I(4) [of t c] I(4) [of t a] t by (auto simp: release_def set_entry_def holds_mu_def)
  next
    fix u c
    assume "holds_mu ((pc(t := Idle)) u) c"
    then show "c < next_entry (release a l)"
      using I(5) [of u c] by (auto simp: release_def set_entry_def holds_mu_def split: if_splits)
  qed (use I same t in \<open>auto simp: release_def set_entry_def split: if_splits\<close>)
qed

lemma locker_step_inv: "locker_step c c' \<Longrightarrow> locker_inv c \<Longrightarrow> locker_inv c'"
  by (induction rule: locker_step.induct)
     (auto intro: inv_enter inv_acquire inv_leave inv_release dest: never_unknown)

lemma locker_reach_inv: "locker_reach c \<Longrightarrow> locker_inv c"
  by (induction rule: rtranclp_induct) (auto intro: locker_inv_init locker_step_inv)

lemma critical_alone:
  assumes "locker_inv (pc, l)" "pc t = Critical k a" "pc u = Critical k b"
  shows "t = u"
proof -
  note I = inv_entry [OF assms(1)]
  have "a = b" using I(1) [of t k a] I(1) [of u k b] assms(2,3) by simp
  then show ?thesis using I(4) [of t a] I(4) [of u a] assms(2,3) by (simp add: holds_mu_def)
qed

section \<open>Properties\<close>

text \<open>Session \<open>False\<close> holds the key, session \<open>True\<close> waits for it.\<close>

definition locker_demo :: "(bool \<Rightarrow> phase) \<times> bool locker" where
  "locker_demo =
     ((all_idle(False := Critical ''k'' 0))(True := Waiting ''k'' 0),
      snd (lock_entry_for ''k'' (the (acquire False 0 (snd (lock_entry_for ''k'' NewLocker))))))"

lemma locker_demo_reach: "locker_reach locker_demo"
proof -
  define l1 where "l1 = snd (lock_entry_for ''k'' (NewLocker :: bool locker))"
  define l2 where "l2 = the (acquire False 0 l1)"
  define l3 where "l3 = snd (lock_entry_for ''k'' l2)"
  have l1: "lock_entry_for ''k'' NewLocker = (0, l1)" "acquire False 0 l1 = Some l2"
    "lock_entry_for ''k'' l2 = (0, l3)"
    by (simp_all add: l1_def l2_def l3_def NewLocker_def lock_entry_for_def Let_def set_entry_def acquire_def)
  have "locker_step (all_idle, NewLocker) (all_idle(False := Waiting ''k'' 0), l1)"
    by (rule enter) (use l1 in \<open>simp_all add: all_idle_def\<close>)
  moreover have "locker_step (all_idle(False := Waiting ''k'' 0), l1)
      ((all_idle(False := Waiting ''k'' 0))(False := Critical ''k'' 0), l2)"
    by (rule acquired) (use l1 in simp_all)
  moreover have "locker_step ((all_idle(False := Waiting ''k'' 0))(False := Critical ''k'' 0), l2)
      (((all_idle(False := Waiting ''k'' 0))(False := Critical ''k'' 0))(True := Waiting ''k'' 0), l3)"
    by (rule enter) (use l1 in \<open>simp_all add: all_idle_def\<close>)
  ultimately have "locker_reach
      (((all_idle(False := Waiting ''k'' 0))(False := Critical ''k'' 0))(True := Waiting ''k'' 0), l3)"
    by (meson converse_rtranclp_into_rtranclp rtranclp.rtrancl_refl)
  then show ?thesis by (simp add: locker_demo_def l1_def l2_def l3_def)
qed

text \<open>
  C22: Mutual exclusion: in every interleaving of any number of sessions, two sessions are never
  between \<open>Lock\<close> and \<open>Unlock\<close> of the same key at the same time, although entries are
  deleted and made again while others arrive.
\<close>
theorem locker_mutual_exclusion:
  assumes "locker_reach (pc, l)" "pc t = Critical k a" "pc u = Critical k b"
  shows "t = u"
  using critical_alone [OF locker_reach_inv [OF assms(1)] assms(2,3)] .

theorem locker_mutual_exclusion_witness:
  "fst locker_demo False = Critical ''k'' 0 \<and> (\<forall>b. fst locker_demo True \<noteq> Critical ''k'' b)"
proof -
  have "locker_reach (fst locker_demo, snd locker_demo)" using locker_demo_reach by simp
  moreover have "fst locker_demo False = Critical ''k'' 0" by (simp add: locker_demo_def)
  ultimately show ?thesis
    using locker_mutual_exclusion [of "fst locker_demo" "snd locker_demo" False "''k''" 0 True] by auto
qed

text \<open>
  The locker neither leaks nor loses entries: a key has an entry exactly while some session
  waits for it or holds it, so \<open>Unlock\<close> always finds the entry of the key it holds, and the map
  is empty again when all sessions are done.
\<close>
theorem locker_entries_in_use:
  assumes "locker_reach (pc, l)"
  shows "(entries l k \<noteq> None \<longleftrightarrow> (\<exists>t a. pc t = Waiting k a \<or> pc t = Critical k a)) \<and>
    (pc t = Critical k a \<longrightarrow> fst (drop_reference k l) = Some a) \<and>
    ((\<forall>t. pc t = Idle) \<longrightarrow> entries l = Map.empty)"
proof -
  note I = inv_entry [OF locker_reach_inv [OF assms]]
  have used: "entries l k \<noteq> None \<longleftrightarrow> (\<exists>t a. pc t = Waiting k a \<or> pc t = Critical k a)" for k
  proof
    assume "entries l k \<noteq> None"
    then obtain a where a: "entries l k = Some a" by blast
    then obtain t j where "pc t = Waiting j a \<or> pc t = Critical j a"
      using I(2) [OF a] by (auto simp: referrers_def)
    moreover from this have "j = k" using I(1) I(3) a by blast
    ultimately show "\<exists>t a. pc t = Waiting k a \<or> pc t = Critical k a" by blast
  qed (use I(1) in force)
  have "pc t = Critical k a \<longrightarrow> fst (drop_reference k l) = Some a"
    using I(1) [of t k a] by (simp add: drop_reference_def Let_def)
  moreover have "(\<forall>t. pc t = Idle) \<longrightarrow> entries l = Map.empty"
  proof
    assume "\<forall>t. pc t = Idle"
    then have "entries l k = None" for k using used [of k] by auto
    then show "entries l = Map.empty" by (simp add: fun_eq_iff)
  qed
  ultimately show ?thesis using used [of k] by blast
qed

theorem locker_entries_in_use_witness:
  "entries (snd locker_demo) ''k'' \<noteq> None \<and> entries (snd locker_demo) ''other'' = None"
proof -
  have r: "locker_reach (fst locker_demo, snd locker_demo)" using locker_demo_reach by simp
  have "fst locker_demo False = Critical ''k'' 0" by (simp add: locker_demo_def)
  moreover have "fst locker_demo t \<noteq> Waiting ''other'' a \<and> fst locker_demo t \<noteq> Critical ''other'' a" for t a
    by (cases t) (simp_all add: locker_demo_def)
  ultimately show ?thesis
    using locker_entries_in_use [OF r, of "''k''"] locker_entries_in_use [OF r, of "''other''"] by blast
qed

text \<open>
  C23: No session waits in vain: when a session waits for a key, either it can take the mutex now,
  or another session is between \<open>Lock\<close> and the end of \<open>Unlock\<close> of the same key and can go on.
\<close>
theorem locker_progress:
  assumes "locker_reach (pc, l)" "pc t = Waiting k a"
  shows "acquire t a l \<noteq> None \<or>
    (\<exists>u c'. u \<noteq> t \<and> (pc u = Critical k a \<or> pc u = Releasing a) \<and> locker_step (pc, l) c' \<and> fst c' u \<noteq> pc u)"
proof (cases "mu (heap l a)")
  case None
  then show ?thesis by (simp add: acquire_def)
next
  case (Some u)
  note inv = locker_reach_inv [OF assms(1)]
  note I = inv_entry [OF inv]
  have key: "entries l k = Some a" using I(1) assms(2) by blast
  have "holds_mu (pc u) a" using I(4) Some by simp
  then consider (crit) j where "pc u = Critical j a" | (rel) "pc u = Releasing a"
    by (auto simp: holds_mu_def)
  then show ?thesis
  proof cases
    case crit
    have "j = k" using I(1) [of u j a] crit I(3) key by blast
    obtain l' where "drop_reference k l = (Some a, l')"
      using key by (cases "drop_reference k l") (auto simp: drop_reference_def Let_def)
    from leave [OF _ this, of pc u a] crit \<open>j = k\<close>
    have "locker_step (pc, l) (pc(u := Releasing a), l')" by simp
    then show ?thesis using crit \<open>j = k\<close> assms(2) by (intro disjI2 exI [of _ u]) auto
  next
    case rel
    have "locker_step (pc, l) (pc(u := Idle), release a l)" by (rule released [where pc = pc and t = u, OF rel])
    then show ?thesis using rel assms(2) by (intro disjI2 exI [of _ u]) auto
  qed
qed

theorem locker_progress_witness:
  "\<exists>c'. locker_step locker_demo c' \<and> fst c' False \<noteq> fst locker_demo False"
proof -
  have "locker_reach (fst locker_demo, snd locker_demo)" using locker_demo_reach by simp
  moreover have "fst locker_demo True = Waiting ''k'' 0" by (simp add: locker_demo_def)
  moreover have "acquire True 0 (snd locker_demo) = None"
    by (simp add: locker_demo_def acquire_def lock_entry_for_def NewLocker_def set_entry_def Let_def)
  ultimately obtain u c' where u: "u \<noteq> True" "locker_step (fst locker_demo, snd locker_demo) c'"
      "fst c' u \<noteq> fst locker_demo u"
    using locker_progress [of "fst locker_demo" "snd locker_demo" True "''k''" 0] by blast
  moreover have "u = False" using u by simp
  ultimately show ?thesis by (intro exI [of _ c']) simp
qed

end
