(* ===== verification/Lib_Conc.thy ===== *)
theory Lib_Conc
  imports Lib_Manager_Locks Lib_Locker
begin

text \<open>
  The library manager with any number of goroutines in it: each runs one call of
  \<open>GetLibraryForVolume\<close>, \<open>RemoveVolume\<close> or a cleanup callback, one statement at a time, and they
  share the disk, the database, the digest cache, the cleanup strategy and the keyed locker. A
  statement is one transaction, one operation of the store, one answer of the registry or one
  listener call; \<open>Lock\<close> and \<open>Unlock\<close> are the sections of \<open>Lib_Locker\<close>.
\<close>

section \<open>Where a goroutine is\<close>

text \<open>A control point is named after the statement that is next: \<open>tryCleanupLibrary\<close> first.\<close>

datatype clean_pc =
    CleanLock
  | CleanCheck
  | CleanStore library_info
  | CleanDb library_info
  | EvictStats library_info
  | EvictEmit library_info int int
  | CleanUnlock "unit res"
  | CleanReturned "unit res"

text \<open>\<open>downloadToStore\<close>; its last statement is the deferred removal of the scratch directory.\<close>

datatype download_pc =
    TempDir string
  | Fetch string string
  | StoreAdd string int
  | CleanScratch string "(string \<times> int) res"

text \<open>
  \<open>GetLibraryForVolume\<close> for valid arguments. The first string is the library's ID; the download has
  two callers, and the flag says that the volume is new, so the library is recorded and linked next.
\<close>

datatype get_pc =
    GetLock
  | GetVolume
  | ReuseLock string
  | ReuseStored string
  | DigestLookup
  | DigestFetch
  | DigestCache string
  | NewLock string
  | NewStored string
  | Downloading bool string download_pc
  | Record string string int
  | RecordStats string string
  | RecordEmit string string int int
  | Link string string resolution
  | LinkStats string string resolution
  | LinkEmit string string resolution int
  | GetUnlockLib string "(string \<times> resolution) res"
  | GetUnlockVol "(string \<times> resolution) res"
  | GetReport "(string \<times> resolution) res"
  | GetReturned "string res"

text \<open>\<open>RemoveVolume\<close>; a cleanup may run inside it.\<close>

datatype remove_pc =
    RemLock
  | Unlink
  | UnlinkStats string string
  | UnlinkEmit string string int
  | Schedule string
  | Cleanup string clean_pc
  | RemUnlockVol "unit res"
  | RemReturned "unit res"

datatype control =
    Resting
  | GetCall string "library option"
  | Rejecting string goerr
  | Rejected goerr
  | Getting string library get_pc
  | Removing string remove_pc
  | Callback "unit timer" clean_pc

text \<open>Each goroutine uses the locker for one volume and for one library at a time.\<close>

datatype slot = VolSlot | LibSlot

text \<open>The key a goroutine is about to lock or to unlock, if its next statement is one of these.\<close>

fun clean_wants :: "string \<Rightarrow> clean_pc \<Rightarrow> (slot \<times> string) option" where
  "clean_wants l CleanLock = Some (LibSlot, l)"
| "clean_wants l p = None"

fun get_wants :: "string \<Rightarrow> get_pc \<Rightarrow> (slot \<times> string) option" where
  "get_wants v GetLock = Some (VolSlot, volumeLockKey v)"
| "get_wants v (ReuseLock l) = Some (LibSlot, l)"
| "get_wants v (NewLock l) = Some (LibSlot, l)"
| "get_wants v p = None"

fun remove_wants :: "string \<Rightarrow> remove_pc \<Rightarrow> (slot \<times> string) option" where
  "remove_wants v RemLock = Some (VolSlot, volumeLockKey v)"
| "remove_wants v (Cleanup l p) = clean_wants l p"
| "remove_wants v p = None"

fun wants :: "control \<Rightarrow> (slot \<times> string) option" where
  "wants (Getting v lib p) = get_wants v p"
| "wants (Removing v p) = remove_wants v p"
| "wants (Callback x p) = clean_wants (tm_library x) p"
| "wants c = None"

fun clean_gives :: "string \<Rightarrow> clean_pc \<Rightarrow> (slot \<times> string) option" where
  "clean_gives l (CleanUnlock r) = Some (LibSlot, l)"
| "clean_gives l p = None"

fun get_gives :: "string \<Rightarrow> get_pc \<Rightarrow> (slot \<times> string) option" where
  "get_gives v (GetUnlockLib l r) = Some (LibSlot, l)"
| "get_gives v (GetUnlockVol r) = Some (VolSlot, volumeLockKey v)"
| "get_gives v p = None"

fun remove_gives :: "string \<Rightarrow> remove_pc \<Rightarrow> (slot \<times> string) option" where
  "remove_gives v (RemUnlockVol r) = Some (VolSlot, volumeLockKey v)"
| "remove_gives v (Cleanup l p) = clean_gives l p"
| "remove_gives v p = None"

fun gives :: "control \<Rightarrow> (slot \<times> string) option" where
  "gives (Getting v lib p) = get_gives v p"
| "gives (Removing v p) = remove_gives v p"
| "gives (Callback x p) = clean_gives (tm_library x) p"
| "gives c = None"

text \<open>A goroutine between two calls.\<close>

fun at_rest :: "control \<Rightarrow> bool" where
  "at_rest Resting = True"
| "at_rest (Rejected e) = True"
| "at_rest (Getting v lib (GetReturned r)) = True"
| "at_rest (Removing v (RemReturned r)) = True"
| "at_rest c = False"

section \<open>The statements\<close>

text \<open>
  What the next statement of a goroutine does to the world, and where it goes on. A cleanup of \<open>l\<close>:
\<close>

fun clean_act ::
  "('h, 'r, 'd, 'n) library_manager \<Rightarrow> string \<Rightarrow> clean_pc \<Rightarrow> ('h, 'd, 'n) world \<Rightarrow>
   clean_pc \<times> ('h, 'd, 'n) world" where
  "clean_act M l CleanLock w = (CleanCheck, note_act (LockAct l) w)"
| "clean_act M l CleanCheck w =
     (case GetLibrary (lm_json M) (lm_db M) l (w_db w) of
        Inl e \<Rightarrow>
          (CleanUnlock (Inl (Wrapf ''could not get library for ID %s: %w'' [l] e)),
           cleanup_event M [] CleanupFailed w)
      | Inr (info, _) \<Rightarrow>
          if VolumeCount info > 0
          then (CleanUnlock (Inr ()), cleanup_event M (Package info) CleanupSkippedInUse w)
          else (CleanStore info, w))"
| "clean_act M l (CleanStore info) w =
     (case store_remove (lm_fs M) (lm_store M) (w_host w) l of
        (Inl e, h) \<Rightarrow>
          (CleanUnlock (Inl e), cleanup_event M (Package info) CleanupFailed (w\<lparr>w_host := h\<rparr>))
      | (Inr _, h) \<Rightarrow> (CleanDb info, w\<lparr>w_host := h\<rparr>))"
| "clean_act M l (CleanDb info) w =
     (case RemoveLibrary (lm_db M) l (w_db w) of
        (Inl e, d) \<Rightarrow>
          (CleanUnlock (Inl (Wrapf ''could not remove library metadata for %s: %w'' [l] e)),
           cleanup_event M (Package info) CleanupFailed (w\<lparr>w_db := d\<rparr>))
      | (Inr _, d) \<Rightarrow>
          if Package info \<noteq> [] then (EvictStats info, w\<lparr>w_db := d\<rparr>)
          else (CleanUnlock (Inr ()), cleanup_event M (Package info) CleanupSuccess (w\<lparr>w_db := d\<rparr>)))"
| "clean_act M l (EvictStats info) w =
     (case packageStats M (Package info) w of
        (newCount, newBytes, _) \<Rightarrow> (EvictEmit info newCount newBytes, w))"
| "clean_act M l (EvictEmit info newCount newBytes) w =
     (CleanUnlock (Inr ()),
      cleanup_event M (Package info) CleanupSuccess
        (note_act (Emit (OnLibraryEvicted (Package info) newCount newBytes)) w))"
| "clean_act M l (CleanUnlock r) w = (CleanReturned r, note_act (UnlockAct l) w)"
| "clean_act M l (CleanReturned r) w = (CleanReturned r, w)"

text \<open>A download of \<open>l\<close>; \<open>k\<close> is where its caller goes on with the result.\<close>

fun download_act ::
  "('h, 'r, 'd, 'n) library_manager \<Rightarrow> library \<Rightarrow> bool \<Rightarrow> string \<Rightarrow> download_pc \<Rightarrow> ('h, 'd, 'n) world \<Rightarrow>
   get_pc \<times> ('h, 'd, 'n) world" where
  "download_act M lib fresh l (TempDir img) w =
     (case os_temp_dir (lm_fs M) (w_host w) (lm_scratchDir M) ''datadog-csi-driver-*'' of
        (Inl e, h) \<Rightarrow>
          (GetUnlockLib l (Inl (Wrapf ''could not create scratch directory: %w'' [] e)), w\<lparr>w_host := h\<rparr>)
      | (Inr scratch, h) \<Rightarrow> (Downloading fresh l (Fetch img scratch), w\<lparr>w_host := h\<rparr>))"
| "download_act M lib fresh l (Fetch img scratch) w =
     (let (downloadStart, w1) = clock M w;
          (r, h, n) = Download (lm_fs M) (lm_net M) (lm_getwd M) img scratch (w_host w1) (w_net w1);
          w2 = w1\<lparr>w_host := h, w_net := n\<rparr>
      in case r of
           Inl e \<Rightarrow> (Downloading fresh l (CleanScratch scratch (Inl e)), w2)
         | Inr sizeBytes \<Rightarrow>
             (let (t, w3) = clock M w2
              in (Downloading fresh l (StoreAdd scratch sizeBytes),
                  note_act (Emit (OnLibraryDownload (lib_name lib) (lib_registry lib) (t - downloadStart))) w3)))"
| "download_act M lib fresh l (StoreAdd scratch sizeBytes) w =
     (case store_add (lm_fs M) (lm_store M) (w_host w) l scratch of
        (r, h) \<Rightarrow>
          (Downloading fresh l (CleanScratch scratch (map_sum id (\<lambda>storePath. (storePath, sizeBytes)) r)),
           w\<lparr>w_host := h\<rparr>))"
| "download_act M lib fresh l (CleanScratch scratch r) w =
     ((case r of
         Inl e \<Rightarrow> GetUnlockLib l (Inl e)
       | Inr (storePath, sizeBytes) \<Rightarrow>
           if fresh then Record l storePath sizeBytes
           else GetUnlockLib l (Inr (storePath, ResolutionDownloaded))),
      w\<lparr>w_host := snd (os_remove_all (lm_fs M) (w_host w) scratch)\<rparr>)"

fun get_act ::
  "('h, 'r, 'd, 'n) library_manager \<Rightarrow> string \<Rightarrow> library \<Rightarrow> get_pc \<Rightarrow> ('h, 'd, 'n) world \<Rightarrow>
   get_pc \<times> ('h, 'd, 'n) world" where
  "get_act M v lib GetLock w = (GetVolume, note_act (LockAct (volumeLockKey v)) w)"
| "get_act M v lib GetVolume w =
     (case db_GetLibraryForVolume (lm_json M) (lm_db M) v (w_db w) of
        Inl e \<Rightarrow> (GetUnlockVol (Inl e), w)
      | Inr l \<Rightarrow> (if l \<noteq> [] then ReuseLock l else DigestLookup, w))"
| "get_act M v lib (ReuseLock l) w = (ReuseStored l, note_act (LockAct l) w)"
| "get_act M v lib (ReuseStored l) w =
     (case stored_path M l w of
        Inl e \<Rightarrow> (GetUnlockLib l (Inl e), w)
      | Inr path \<Rightarrow>
          if path \<noteq> [] then (GetUnlockLib l (Inr (path, ResolutionCacheHit)), w)
          else (Downloading False l (TempDir (lib_registry lib @ ''/'' @ lib_name lib @ ''@sha256:'' @ l)), w))"
| "get_act M v lib DigestLookup w =
     (case parse_reference (lm_net M) (Image lib) of
        Some e \<Rightarrow>
          (GetUnlockVol (Inl (Wrapf ''could not determine library ID: %w'' []
             (Wrapf ''invalid image reference %q: %w'' [Image lib] e))), w)
      | None \<Rightarrow>
          (case cache_lookup (lm_net M) (lib_pull lib) (Image lib) (w_cache w) (w_net w) of
             (cached, c, n) \<Rightarrow>
               (if cached \<noteq> [] then NewLock cached else DigestFetch, w\<lparr>w_cache := c, w_net := n\<rparr>)))"
| "get_act M v lib DigestFetch w =
     (case downloader_FetchDigest (lm_net M) (Image lib) (w_net w) of
        (Inl e, n) \<Rightarrow> (GetUnlockVol (Inl (Wrapf ''could not determine library ID: %w'' [] e)), w\<lparr>w_net := n\<rparr>)
      | (Inr digest, n) \<Rightarrow> (DigestCache digest, w\<lparr>w_net := n\<rparr>))"
| "get_act M v lib (DigestCache digest) w =
     (case time_now (lm_net M) (w_net w) of
        (now, n) \<Rightarrow>
          (NewLock digest,
           w\<lparr>w_cache := cacheDigest now (lm_ttl M) (Image lib) digest (w_cache w), w_net := n\<rparr>))"
| "get_act M v lib (NewLock l) w = (NewStored l, note_act (LockAct l) w)"
| "get_act M v lib (NewStored l) w =
     (case stored_path M l w of
        Inl e \<Rightarrow> (GetUnlockLib l (Inl e), w)
      | Inr path \<Rightarrow>
          if path \<noteq> [] then (Link l path ResolutionCacheHit, w)
          else (Downloading True l (TempDir (Image lib)), w))"
| "get_act M v lib (Downloading fresh l p) w = download_act M lib fresh l p w"
| "get_act M v lib (Record l path sizeBytes) w =
     (case AddLibrary (lm_json M) (lm_db M) l (lib_name lib) sizeBytes (w_db w) of
        (Inl e, d) \<Rightarrow>
          (GetUnlockLib l (Inl (Wrapf ''could not record library metadata: %w'' [] e)), w\<lparr>w_db := d\<rparr>)
      | (Inr _, d) \<Rightarrow> (RecordStats l path, w\<lparr>w_db := d\<rparr>))"
| "get_act M v lib (RecordStats l path) w =
     (case packageStats M (lib_name lib) w of (num, totalBytes, _) \<Rightarrow> (RecordEmit l path num totalBytes, w))"
| "get_act M v lib (RecordEmit l path num totalBytes) w =
     (Link l path ResolutionDownloaded, note_act (Emit (OnLibraryCached (lib_name lib) num totalBytes)) w)"
| "get_act M v lib (Link l path res) w =
     (case clock M w of
        (now, w1) \<Rightarrow>
          (case LinkVolume (lm_json M) (lm_db M) now l v (res = ResolutionCacheHit) (w_db w1) of
             (Inl e, d) \<Rightarrow> (GetUnlockLib l (Inl e), w1\<lparr>w_db := d\<rparr>)
           | (Inr _, d) \<Rightarrow> (LinkStats l path res, w1\<lparr>w_db := d\<rparr>)))"
| "get_act M v lib (LinkStats l path res) w =
     (case packageStats M (lib_name lib) w of (_, _, volumeLinks) \<Rightarrow> (LinkEmit l path res volumeLinks, w))"
| "get_act M v lib (LinkEmit l path res volumeLinks) w =
     (GetUnlockLib l (Inr (path, res)), note_act (Emit (OnVolumeLinked (lib_name lib) volumeLinks)) w)"
| "get_act M v lib (GetUnlockLib l r) w = (GetUnlockVol r, note_act (UnlockAct l) w)"
| "get_act M v lib (GetUnlockVol r) w = (GetReport r, note_act (UnlockAct (volumeLockKey v)) w)"
| "get_act M v lib (GetReport r) w =
     (GetReturned (map_sum id fst r),
      note_act (Emit (OnLibraryResolved (lib_name lib)
        (case r of Inl _ \<Rightarrow> ResolutionFailed | Inr (_, res) \<Rightarrow> res))) w)"
| "get_act M v lib (GetReturned r) w = (GetReturned r, w)"

text \<open>
  \<open>ScheduleCleanup\<close> either runs the cleanup in the same goroutine, which still holds the volume's
  lock, or arms a timer; \<open>no_call\<close> stands for a cleanup function that is not called.
\<close>

definition no_call :: "(unit, unit) caller" where "no_call f l w = (Inr (), w)"

fun schedule_act :: "string \<Rightarrow> strategy \<Rightarrow> remove_pc \<times> strategy" where
  "schedule_act l Immediate = (Cleanup l CleanLock, Immediate)"
| "schedule_act l (Delayed s) =
     (if stopped s then (Cleanup l CleanLock, Delayed s)
      else (RemUnlockVol (Inr ()), Delayed (fst (delayed_ScheduleCleanup no_call () l (s, ())))))"

fun remove_act ::
  "('h, 'r, 'd, 'n) library_manager \<Rightarrow> string \<Rightarrow> remove_pc \<Rightarrow> strategy \<times> ('h, 'd, 'n) world \<Rightarrow>
   remove_pc \<times> strategy \<times> ('h, 'd, 'n) world" where
  "remove_act M v RemLock (s, w) = (Unlink, s, note_act (LockAct (volumeLockKey v)) w)"
| "remove_act M v Unlink (s, w) =
     (case UnlinkVolume (lm_json M) (lm_db M) v (w_db w) of
        (Inl e, d) \<Rightarrow>
          (RemUnlockVol (Inl (Wrapf ''could not unlink volume ID %s: %w'' [v] e)), s, w\<lparr>w_db := d\<rparr>)
      | (Inr (l, library), d) \<Rightarrow>
          (if l = [] then RemUnlockVol (Inr ())
           else if library \<noteq> [] then UnlinkStats l library
           else Schedule l, s, w\<lparr>w_db := d\<rparr>))"
| "remove_act M v (UnlinkStats l library) (s, w) =
     (case packageStats M library w of (_, _, volumeLinks) \<Rightarrow> (UnlinkEmit l library volumeLinks, s, w))"
| "remove_act M v (UnlinkEmit l library volumeLinks) (s, w) =
     (Schedule l, s, note_act (Emit (OnVolumeUnlinked library volumeLinks)) w)"
| "remove_act M v (Schedule l) (s, w) = (case schedule_act l s of (p, s') \<Rightarrow> (p, s', w))"
| "remove_act M v (Cleanup l (CleanReturned r)) (s, w) = (RemUnlockVol (Inr ()), s, w)"
| "remove_act M v (Cleanup l p) (s, w) = (case clean_act M l p w of (p', w') \<Rightarrow> (Cleanup l p', s, w'))"
| "remove_act M v (RemUnlockVol r) (s, w) = (RemReturned r, s, note_act (UnlockAct (volumeLockKey v)) w)"
| "remove_act M v (RemReturned r) (s, w) = (RemReturned r, s, w)"

text \<open>The end of a timer's callback.\<close>

fun finish_callback :: "unit timer \<Rightarrow> strategy \<Rightarrow> strategy" where
  "finish_callback x Immediate = Immediate"
| "finish_callback x (Delayed s) = Delayed (s\<lparr>running := remove1 x (running s)\<rparr>)"

fun thread_act ::
  "('h, 'r, 'd, 'n) library_manager \<Rightarrow> control \<Rightarrow> strategy \<times> ('h, 'd, 'n) world \<Rightarrow>
   control \<times> strategy \<times> ('h, 'd, 'n) world" where
  "thread_act M Resting (s, w) = (Resting, s, w)"
| "thread_act M (GetCall v lib) (s, w) =
     ((if v = [] then
         Rejecting (case lib of None \<Rightarrow> [] | Some l \<Rightarrow> lib_name l) (Errorf ''volume ID cannot be empty'' [])
       else case lib of
         None \<Rightarrow> Rejecting [] (Errorf ''library cannot be nil'' [])
       | Some l \<Rightarrow> Getting v l GetLock), s, w)"
| "thread_act M (Rejecting library e) (s, w) =
     (Rejected e, s, note_act (Emit (OnLibraryResolved library ResolutionFailed)) w)"
| "thread_act M (Rejected e) (s, w) = (Rejected e, s, w)"
| "thread_act M (Getting v lib p) (s, w) =
     (case get_act M v lib p w of (p', w') \<Rightarrow> (Getting v lib p', s, w'))"
| "thread_act M (Removing v p) (s, w) =
     (case remove_act M v p (s, w) of (p', s', w') \<Rightarrow> (Removing v p', s', w'))"
| "thread_act M (Callback x (CleanReturned r)) (s, w) = (Resting, finish_callback x s, w)"
| "thread_act M (Callback x p) (s, w) =
     (case clean_act M (tm_library x) p w of (p', w') \<Rightarrow> (Callback x p', s, w'))"

section \<open>The keyed locker as the manager sees it\<close>

text \<open>
  A session of the locker, one section at a time: arriving at \<open>Lock\<close>, getting the mutex, starting
  \<open>Unlock\<close>, and giving the mutex back. \<open>None\<close> is a section that is not next, or has to wait.
\<close>

type_synonym 't locks = "('t \<Rightarrow> phase) \<times> 't locker"

definition session_enter :: "'t \<Rightarrow> string \<Rightarrow> 't locks \<Rightarrow> 't locks option" where
  "session_enter t k c =
     (case fst c t of
        Idle \<Rightarrow> (case lock_entry_for k (snd c) of (a, l) \<Rightarrow> Some ((fst c)(t := Waiting k a), l))
      | _ \<Rightarrow> None)"

definition session_take :: "'t \<Rightarrow> string \<Rightarrow> 't locks \<Rightarrow> 't locks option" where
  "session_take t k c =
     (case fst c t of
        Waiting j a \<Rightarrow>
          if j = k then map_option (\<lambda>l. ((fst c)(t := Critical k a), l)) (acquire t a (snd c)) else None
      | _ \<Rightarrow> None)"

definition session_leave :: "'t \<Rightarrow> string \<Rightarrow> 't locks \<Rightarrow> 't locks option" where
  "session_leave t k c =
     (case fst c t of
        Critical j a \<Rightarrow>
          if j = k then
            (case drop_reference k (snd c) of
               (Some b, l) \<Rightarrow> Some ((fst c)(t := Releasing b), l)
             | (None, l) \<Rightarrow> Some ((fst c)(t := Idle), l))
          else None
      | _ \<Rightarrow> None)"

definition session_free :: "'t \<Rightarrow> 't locks \<Rightarrow> 't locks option" where
  "session_free t c =
     (case fst c t of Releasing a \<Rightarrow> Some ((fst c)(t := Idle), release a (snd c)) | _ \<Rightarrow> None)"

definition session_holds :: "'t locks \<Rightarrow> 't \<Rightarrow> string option" where
  "session_holds c t = (case fst c t of Critical k a \<Rightarrow> Some k | _ \<Rightarrow> None)"

text \<open>The contract: only these two sections change who holds what, and a key has one holder.\<close>

locale keyed_mutex =
  fixes ok :: "'c \<Rightarrow> bool"
    and holds :: "'c \<Rightarrow> 't \<Rightarrow> string option"
    and enter :: "'t \<Rightarrow> string \<Rightarrow> 'c \<Rightarrow> 'c option"
    and take_it :: "'t \<Rightarrow> string \<Rightarrow> 'c \<Rightarrow> 'c option"
    and leave_it :: "'t \<Rightarrow> string \<Rightarrow> 'c \<Rightarrow> 'c option"
    and free_it :: "'t \<Rightarrow> 'c \<Rightarrow> 'c option"
  assumes enter_holds: "ok c \<Longrightarrow> enter t k c = Some c' \<Longrightarrow> ok c' \<and> holds c' = holds c"
    and take_holds: "ok c \<Longrightarrow> take_it t k c = Some c' \<Longrightarrow> ok c' \<and> holds c t = None \<and> holds c' = (holds c)(t := Some k)"
    and leave_holds: "ok c \<Longrightarrow> leave_it t k c = Some c' \<Longrightarrow> ok c' \<and> holds c' = (holds c)(t := None)"
    and free_holds: "ok c \<Longrightarrow> free_it t c = Some c' \<Longrightarrow> ok c' \<and> holds c' = holds c"
    and exclusive: "ok c \<Longrightarrow> holds c t = Some k \<Longrightarrow> holds c u = Some k \<Longrightarrow> t = u"
begin

lemma taken_alone:
  assumes "ok c" "take_it t k c = Some c'"
  shows "holds c u \<noteq> Some k"
proof
  assume u: "holds c u = Some k"
  then have "u \<noteq> t" using take_holds [OF assms] by auto
  then show False
    using exclusive [of c' u k t] take_holds [OF assms] u by simp
qed

end

lemma session_steps:
  "session_enter t k c = Some c' \<Longrightarrow> locker_step c c'"
  "session_take t k c = Some c' \<Longrightarrow> locker_step c c'"
  "session_leave t k c = Some c' \<Longrightarrow> locker_step c c'"
  "session_free t c = Some c' \<Longrightarrow> locker_step c c'"
  by (cases c; auto simp: session_enter_def session_take_def session_leave_def session_free_def
      split: phase.splits if_splits option.splits prod.splits
      intro: locker_step.intros)+

lemma session_holds_after:
  "session_enter t k c = Some c' \<Longrightarrow> session_holds c' = session_holds c"
  "session_take t k c = Some c' \<Longrightarrow> session_holds c t = None \<and> session_holds c' = (session_holds c)(t := Some k)"
  "session_leave t k c = Some c' \<Longrightarrow> session_holds c' = (session_holds c)(t := None)"
  "session_free t c = Some c' \<Longrightarrow> session_holds c' = session_holds c"
  by (auto simp: session_enter_def session_take_def session_leave_def session_free_def session_holds_def
      fun_eq_iff split: phase.splits if_splits option.splits prod.splits)

interpretation mutexes: keyed_mutex locker_inv session_holds session_enter session_take session_leave session_free
proof (unfold_locales, goal_cases)
  case (1 c t k c')
  show ?case using session_holds_after(1) [OF 1(2)] locker_step_inv [OF session_steps(1) [OF 1(2)] 1(1)] by simp
next
  case (2 c t k c')
  show ?case using session_holds_after(2) [OF 2(2)] locker_step_inv [OF session_steps(2) [OF 2(2)] 2(1)] by simp
next
  case (3 c t k c')
  show ?case using session_holds_after(3) [OF 3(2)] locker_step_inv [OF session_steps(3) [OF 3(2)] 3(1)] by simp
next
  case (4 c t c')
  show ?case using session_holds_after(4) [OF 4(2)] locker_step_inv [OF session_steps(4) [OF 4(2)] 4(1)] by simp
next
  case (5 c t k u)
  obtain pc l where c: "c = (pc, l)" by force
  then obtain a b where ab: "pc t = Critical k a" "pc u = Critical k b"
    using 5 by (auto simp: session_holds_def split: phase.splits)
  have "locker_inv (pc, l)" using 5(1) c by simp
  from critical_alone [OF this ab] show ?case .
qed

section \<open>The system\<close>

record ('t, 'h, 'd, 'n) system =
  sys_pc :: "'t \<Rightarrow> control"
  sys_locks :: "('t \<times> slot) locks"
  sys_strategy :: strategy
  sys_world :: "('h, 'd, 'n) world"

text \<open>A goroutine whose last \<open>Unlock\<close> has not given the mutex back yet does not go on.\<close>

definition quiet :: "('t \<times> slot) locks \<Rightarrow> 't \<Rightarrow> bool" where
  "quiet c t \<longleftrightarrow> (\<forall>sl\<in>{VolSlot, LibSlot}. session_free (t, sl) c = None)"

definition moved ::
  "'t \<Rightarrow> control \<times> strategy \<times> ('h, 'd, 'n) world \<Rightarrow> ('t, 'h, 'd, 'n) system \<Rightarrow> ('t, 'h, 'd, 'n) system" where
  "moved t r S =
     S\<lparr>sys_pc := (sys_pc S)(t := fst r), sys_strategy := fst (snd r), sys_world := snd (snd r)\<rparr>"

abbreviation next_act ::
  "('h, 'r, 'd, 'n) library_manager \<Rightarrow> 't \<Rightarrow> ('t, 'h, 'd, 'n) system \<Rightarrow>
   control \<times> strategy \<times> ('h, 'd, 'n) world" where
  "next_act M t S \<equiv> thread_act M (sys_pc S t) (sys_strategy S, sys_world S)"

text \<open>A link is only made while fewer than \<open>2 ^ 63\<close> volumes are recorded.\<close>

fun links_next :: "control \<Rightarrow> bool" where
  "links_next (Getting v lib (Link l p r)) = True"
| "links_next c = False"

definition room_for_link :: "('h, 'r, 'd, 'n) library_manager \<Rightarrow> ('h, 'd, 'n) world \<Rightarrow> bool" where
  "room_for_link M w \<longleftrightarrow> int (card (dom (lg_vols (lm_ledger M w)))) + 1 < 2 ^ 63"

text \<open>
  Every interleaving: calls begin at any time, for any volume and library; timers expire and their
  callbacks claim cleanups at any time; and any goroutine that can go on may do so.
\<close>

inductive conc_step ::
  "('h, 'r, 'd, 'n) library_manager \<Rightarrow> ('t, 'h, 'd, 'n) system \<Rightarrow> ('t, 'h, 'd, 'n) system \<Rightarrow> bool"
  for M :: "('h, 'r, 'd, 'n) library_manager" where
  begin_get: "at_rest (sys_pc S t) \<Longrightarrow>
    conc_step M S (S\<lparr>sys_pc := (sys_pc S)(t := GetCall v lib)\<rparr>)"
| begin_remove: "at_rest (sys_pc S t) \<Longrightarrow>
    conc_step M S (S\<lparr>sys_pc := (sys_pc S)(t := Removing v RemLock)\<rparr>)"
| expire: "sys_strategy S = Delayed s \<Longrightarrow>
    conc_step M S (S\<lparr>sys_strategy := Delayed (timer_expire n s)\<rparr>)"
| claim: "sys_strategy S = Delayed s \<Longrightarrow>
    conc_step M S (S\<lparr>sys_strategy := Delayed (callback_claim x s)\<rparr>)"
| begin_callback: "at_rest (sys_pc S t) \<Longrightarrow> sys_strategy S = Delayed s \<Longrightarrow> x \<in> set (running s) \<Longrightarrow>
    (\<forall>u p. sys_pc S u \<noteq> Callback x p) \<Longrightarrow>
    conc_step M S (S\<lparr>sys_pc := (sys_pc S)(t := Callback x CleanLock)\<rparr>)"
| arrive: "wants (sys_pc S t) = Some (sl, k) \<Longrightarrow> quiet (sys_locks S) t \<Longrightarrow>
    session_enter (t, sl) k (sys_locks S) = Some c \<Longrightarrow> conc_step M S (S\<lparr>sys_locks := c\<rparr>)"
| take_lock: "wants (sys_pc S t) = Some (sl, k) \<Longrightarrow> session_take (t, sl) k (sys_locks S) = Some c \<Longrightarrow>
    conc_step M S (moved t (next_act M t S) (S\<lparr>sys_locks := c\<rparr>))"
| start_unlock: "gives (sys_pc S t) = Some (sl, k) \<Longrightarrow> quiet (sys_locks S) t \<Longrightarrow>
    session_leave (t, sl) k (sys_locks S) = Some c \<Longrightarrow>
    conc_step M S (moved t (next_act M t S) (S\<lparr>sys_locks := c\<rparr>))"
| end_unlock: "session_free (t, sl) (sys_locks S) = Some c \<Longrightarrow> conc_step M S (S\<lparr>sys_locks := c\<rparr>)"
| statement: "\<not> at_rest (sys_pc S t) \<Longrightarrow> wants (sys_pc S t) = None \<Longrightarrow> gives (sys_pc S t) = None \<Longrightarrow>
    quiet (sys_locks S) t \<Longrightarrow> (links_next (sys_pc S t) \<Longrightarrow> room_for_link M (sys_world S)) \<Longrightarrow>
    conc_step M S (moved t (next_act M t S) S)"

definition initial_system :: "strategy \<Rightarrow> ('h, 'd, 'n) world \<Rightarrow> ('t, 'h, 'd, 'n) system" where
  "initial_system s w =
     \<lparr>sys_pc = (\<lambda>_. Resting), sys_locks = (all_idle, NewLocker), sys_strategy = s, sys_world = w\<rparr>"

section \<open>Running a schedule\<close>

text \<open>
  The next step of goroutine \<open>t\<close>, and a schedule of such steps, computed; \<open>room\<close> is a test that
  implies \<open>room_for_link\<close>.
\<close>

definition go_on ::
  "('h, 'r, 'd, 'n) library_manager \<Rightarrow> (('h, 'd, 'n) world \<Rightarrow> bool) \<Rightarrow> 't \<Rightarrow> ('t, 'h, 'd, 'n) system \<Rightarrow>
   ('t, 'h, 'd, 'n) system option" where
  "go_on M room t S =
     (case session_free (t, VolSlot) (sys_locks S) of
        Some c \<Rightarrow> Some (S\<lparr>sys_locks := c\<rparr>)
      | None \<Rightarrow>
     (case session_free (t, LibSlot) (sys_locks S) of
        Some c \<Rightarrow> Some (S\<lparr>sys_locks := c\<rparr>)
      | None \<Rightarrow>
     (case wants (sys_pc S t) of
        Some (sl, k) \<Rightarrow>
          (case session_enter (t, sl) k (sys_locks S) of
             Some c \<Rightarrow> Some (S\<lparr>sys_locks := c\<rparr>)
           | None \<Rightarrow> map_option (\<lambda>c. moved t (next_act M t S) (S\<lparr>sys_locks := c\<rparr>))
                       (session_take (t, sl) k (sys_locks S)))
      | None \<Rightarrow>
     (case gives (sys_pc S t) of
        Some (sl, k) \<Rightarrow>
          map_option (\<lambda>c. moved t (next_act M t S) (S\<lparr>sys_locks := c\<rparr>))
            (session_leave (t, sl) k (sys_locks S))
      | None \<Rightarrow>
          if at_rest (sys_pc S t) \<or> links_next (sys_pc S t) \<and> \<not> room (sys_world S) then None
          else Some (moved t (next_act M t S) S)))))"

fun run_schedule ::
  "('h, 'r, 'd, 'n) library_manager \<Rightarrow> (('h, 'd, 'n) world \<Rightarrow> bool) \<Rightarrow> 't list \<Rightarrow>
   ('t, 'h, 'd, 'n) system \<Rightarrow> ('t, 'h, 'd, 'n) system option" where
  "run_schedule M room [] S = Some S"
| "run_schedule M room (t # ts) S = Option.bind (go_on M room t S) (run_schedule M room ts)"

lemma go_on_step:
  assumes "go_on M room t S = Some S'" "\<And>w. room w \<Longrightarrow> room_for_link M w"
  shows "conc_step M S S'"
proof (cases "session_free (t, VolSlot) (sys_locks S) = None \<and> session_free (t, LibSlot) (sys_locks S) = None")
  case False
  then obtain sl c where "session_free (t, sl) (sys_locks S) = Some c" "S' = S\<lparr>sys_locks := c\<rparr>"
    using assms(1) by (auto simp: go_on_def split: option.splits)
  then show ?thesis using conc_step.end_unlock by metis
next
  case True
  then have q: "quiet (sys_locks S) t" by (simp add: quiet_def)
  note free = True [THEN conjunct1] True [THEN conjunct2]
  consider (wants) sl k where "wants (sys_pc S t) = Some (sl, k)"
    | (gives) sl k where "wants (sys_pc S t) = None" "gives (sys_pc S t) = Some (sl, k)"
    | (none) "wants (sys_pc S t) = None" "gives (sys_pc S t) = None"
    by (cases "wants (sys_pc S t)"; cases "gives (sys_pc S t)") auto
  then show ?thesis
  proof cases
    case wants
    show ?thesis
    proof (cases "session_enter (t, sl) k (sys_locks S)")
      case (Some c)
      then have "S' = S\<lparr>sys_locks := c\<rparr>" using assms(1) wants free by (simp add: go_on_def)
      then show ?thesis using conc_step.arrive [OF wants q Some] by simp
    next
      case None
      then obtain c where "session_take (t, sl) k (sys_locks S) = Some c"
          "S' = moved t (next_act M t S) (S\<lparr>sys_locks := c\<rparr>)"
        using assms(1) wants free by (auto simp: go_on_def)
      then show ?thesis using conc_step.take_lock [OF wants] by metis
    qed
  next
    case gives
    then obtain c where "session_leave (t, sl) k (sys_locks S) = Some c"
        "S' = moved t (next_act M t S) (S\<lparr>sys_locks := c\<rparr>)"
      using assms(1) free by (auto simp: go_on_def)
    then show ?thesis using conc_step.start_unlock [OF gives(2) q] by metis
  next
    case none
    then have "\<not> at_rest (sys_pc S t)" "links_next (sys_pc S t) \<Longrightarrow> room (sys_world S)"
        "S' = moved t (next_act M t S) S"
      using assms(1) free by (auto simp: go_on_def split: if_splits)
    then show ?thesis using conc_step.statement [OF _ none q] assms(2) by metis
  qed
qed

lemma run_schedule_steps:
  assumes "run_schedule M room ts S = Some S'" "\<And>w. room w \<Longrightarrow> room_for_link M w"
  shows "(conc_step M)\<^sup>*\<^sup>* S S'"
  using assms(1)
proof (induction ts arbitrary: S)
  case (Cons t ts)
  then obtain S1 where S1: "go_on M room t S = Some S1" "run_schedule M room ts S1 = Some S'"
    by (auto simp: bind_eq_Some_conv)
  have "conc_step M S S1" by (rule go_on_step [OF S1(1) assms(2)])
  then show ?case using Cons.IH [OF S1(2)] by (rule converse_rtranclp_into_rtranclp)
qed simp

end
