(* ===== verification/Lib_Conc_Safety.thy ===== *)
theory Lib_Conc_Safety
  imports Lib_Conc
begin

text \<open>
  What the manager keeps when calls overlap, by rely-guarantee reasoning: an assertion at every
  control point, a guarantee every statement gives (it changes the record of a volume, links a
  library or removes one only under the locks it holds), and the stability of every assertion
  under the guarantees of the goroutines that hold other locks.
\<close>

section \<open>The locks held at a control point\<close>

fun clean_locked :: "clean_pc \<Rightarrow> bool" where
  "clean_locked CleanLock = False"
| "clean_locked (CleanReturned r) = False"
| "clean_locked p = True"

fun get_library_lock :: "get_pc \<Rightarrow> string option" where
  "get_library_lock (ReuseStored l) = Some l"
| "get_library_lock (NewStored l) = Some l"
| "get_library_lock (Downloading fresh l p) = Some l"
| "get_library_lock (Record l path n) = Some l"
| "get_library_lock (RecordStats l path) = Some l"
| "get_library_lock (RecordEmit l path n b) = Some l"
| "get_library_lock (Link l path res) = Some l"
| "get_library_lock (LinkStats l path res) = Some l"
| "get_library_lock (LinkEmit l path res n) = Some l"
| "get_library_lock (GetUnlockLib l r) = Some l"
| "get_library_lock p = None"

fun get_locked :: "get_pc \<Rightarrow> bool" where
  "get_locked GetLock = False"
| "get_locked (GetReport r) = False"
| "get_locked (GetReturned r) = False"
| "get_locked p = True"

fun remove_locked :: "remove_pc \<Rightarrow> bool" where
  "remove_locked RemLock = False"
| "remove_locked (RemReturned r) = False"
| "remove_locked p = True"

text \<open>The volume and the library a goroutine has locked.\<close>

fun volume_locked :: "control \<Rightarrow> string option" where
  "volume_locked (Getting v lib p) = (if get_locked p then Some v else None)"
| "volume_locked (Removing v p) = (if remove_locked p then Some v else None)"
| "volume_locked c = None"

fun library_locked :: "control \<Rightarrow> string option" where
  "library_locked (Getting v lib p) = get_library_lock p"
| "library_locked (Removing v (Cleanup l p)) = (if clean_locked p then Some l else None)"
| "library_locked (Callback x p) = (if clean_locked p then Some (tm_library x) else None)"
| "library_locked c = None"

fun locked_keys :: "control \<Rightarrow> slot \<Rightarrow> string option" where
  "locked_keys c VolSlot = map_option volumeLockKey (volume_locked c)"
| "locked_keys c LibSlot = library_locked c"

text \<open>A statement locks and unlocks as \<open>wants\<close> and \<open>gives\<close> say, and keeps its locks otherwise.\<close>

definition keys_after :: "control \<Rightarrow> slot \<Rightarrow> string option" where
  "keys_after c sl =
     (case wants c of
        Some (sl', k) \<Rightarrow> if sl' = sl then Some k else locked_keys c sl
      | None \<Rightarrow>
          (case gives c of
             Some (sl', k) \<Rightarrow> if sl' = sl then None else locked_keys c sl
           | None \<Rightarrow> locked_keys c sl))"

lemma clean_act_locks:
  "fst (clean_act M l p w) = p' \<Longrightarrow>
   clean_locked p' = (clean_wants l p \<noteq> None \<or> clean_locked p \<and> clean_gives l p = None)"
  by (cases p) (auto split: sum.splits prod.splits if_splits)

lemma download_act_locks:
  "fst (download_act M lib fresh l p w) = p' \<Longrightarrow>
   get_library_lock p' = Some l \<and> get_locked p'"
  by (cases p) (auto simp: Let_def split: sum.splits prod.splits if_splits)

lemma get_act_locks:
  "fst (get_act M v lib p w) = p' \<Longrightarrow>
   get_locked p' = (p = GetLock \<or> get_locked p \<and> (\<forall>r. p \<noteq> GetUnlockVol r)) \<and>
   get_library_lock p' =
     (case p of ReuseLock l \<Rightarrow> Some l | NewLock l \<Rightarrow> Some l | GetUnlockLib l r \<Rightarrow> None | _ \<Rightarrow> get_library_lock p)"
  using download_act_locks [of M lib]
  by (cases p) (auto split: sum.splits prod.splits if_splits option.splits)

lemma act_locks:
  assumes "thread_act M c (s, w) = (c', s', w')"
  shows "locked_keys c' sl = keys_after c sl"
proof (cases c)
  case (Getting v lib p)
  obtain p' w1 where p': "get_act M v lib p w = (p', w1)" by force
  then have "c' = Getting v lib p'" using assms Getting by simp
  then show ?thesis
    using get_act_locks [of M v lib p w p'] p' Getting
    by (cases sl; cases p) (auto simp: keys_after_def)
next
  case (Removing v p)
  obtain p' s1 w1 where p': "remove_act M v p (s, w) = (p', s1, w1)" using prod_cases3 by blast
  then have c': "c' = Removing v p'" using assms Removing by simp
  show ?thesis
  proof (cases "\<exists>l q. p = Cleanup l q")
    case True
    then obtain l q where q: "p = Cleanup l q" by blast
    obtain q' w2 where q': "clean_act M l q w = (q', w2)" by force
    show ?thesis
      using clean_act_locks [of M l q w q'] q' p' c' q Removing
      by (cases sl; cases q) (auto simp: keys_after_def)
  next
    case False
    then show ?thesis
      using p' c' Removing
      by (cases sl; cases p; cases s)
         (auto simp: keys_after_def split: sum.splits prod.splits if_splits)
  qed
next
  case (Callback x p)
  obtain q' w2 where q': "clean_act M (tm_library x) p w = (q', w2)" by force
  show ?thesis
    using clean_act_locks [of M "tm_library x" p w q'] q' assms Callback
    by (cases sl; cases p) (auto simp: keys_after_def)
qed (use assms in \<open>auto simp: keys_after_def split: option.splits if_splits; cases sl; auto\<close>)+

lemma gives_not_wants: "gives c = Some k \<Longrightarrow> wants c = None"
proof (cases c)
  case (Getting v lib p)
  then show "gives c = Some k \<Longrightarrow> wants c = None" by (cases p) auto
next
  case (Removing v p)
  have "clean_gives l q = Some k \<Longrightarrow> clean_wants l q = None" for l q by (cases q) auto
  then show "gives c = Some k \<Longrightarrow> wants c = None" using Removing by (cases p) auto
next
  case (Callback x p)
  then show "gives c = Some k \<Longrightarrow> wants c = None" by (cases p) auto
qed auto

section \<open>The assertions\<close>

definition linked_to ::
  "('h, 'r, 'd, 'n) library_manager \<Rightarrow> string \<Rightarrow> string \<Rightarrow> ('h, 'd, 'n) world \<Rightarrow> bool" where
  "linked_to M v l w \<longleftrightarrow> (\<exists>rec. lg_vols (lm_ledger M w) v = Some rec \<and> LibraryID rec = l)"

definition unlinked :: "('h, 'r, 'd, 'n) library_manager \<Rightarrow> string \<Rightarrow> ('h, 'd, 'n) world \<Rightarrow> bool" where
  "unlinked M v w \<longleftrightarrow> lg_vols (lm_ledger M w) v = None"

definition stored_at ::
  "('h, 'r, 'd, 'n) library_manager \<Rightarrow> string \<Rightarrow> string \<Rightarrow> ('h, 'd, 'n) world \<Rightarrow> bool" where
  "stored_at M l path w \<longleftrightarrow> path = store_path (lm_store M) l \<and> lm_held M w l"

definition usable :: "('h, 'r, 'd, 'n) library_manager \<Rightarrow> string \<Rightarrow> string \<Rightarrow> ('h, 'd, 'n) world \<Rightarrow> bool" where
  "usable M v path w \<longleftrightarrow> (\<exists>l. linked_to M v l w \<and> stored_at M l path w)"

definition unused :: "('h, 'r, 'd, 'n) library_manager \<Rightarrow> string \<Rightarrow> ('h, 'd, 'n) world \<Rightarrow> bool" where
  "unused M l w \<longleftrightarrow> users (lm_ledger M w) l = {}"

fun download_ok ::
  "('h, 'r, 'd, 'n) library_manager \<Rightarrow> string \<Rightarrow> string \<Rightarrow> download_pc \<Rightarrow> ('h, 'd, 'n) world \<Rightarrow> bool" where
  "download_ok M base l (TempDir img) w = True"
| "download_ok M base l (Fetch img scratch) w = scratch_src base (lm_store M) scratch"
| "download_ok M base l (StoreAdd scratch n) w = scratch_src base (lm_store M) scratch"
| "download_ok M base l (CleanScratch scratch r) w =
     (scratch_src base (lm_store M) scratch \<and> (\<forall>path n. r = Inr (path, n) \<longrightarrow> stored_at M l path w))"

fun get_ok ::
  "('h, 'r, 'd, 'n) library_manager \<Rightarrow> string \<Rightarrow> string \<Rightarrow> get_pc \<Rightarrow> ('h, 'd, 'n) world \<Rightarrow> bool" where
  "get_ok M base v GetLock w = True"
| "get_ok M base v GetVolume w = True"
| "get_ok M base v (ReuseLock l) w = (plain l \<and> linked_to M v l w)"
| "get_ok M base v (ReuseStored l) w = (plain l \<and> linked_to M v l w)"
| "get_ok M base v DigestLookup w = unlinked M v w"
| "get_ok M base v DigestFetch w = unlinked M v w"
| "get_ok M base v (DigestCache l) w = (plain l \<and> unlinked M v w)"
| "get_ok M base v (NewLock l) w = (plain l \<and> unlinked M v w)"
| "get_ok M base v (NewStored l) w = (plain l \<and> unlinked M v w)"
| "get_ok M base v (Downloading fresh l p) w =
     (plain l \<and> (if fresh then unlinked M v w else linked_to M v l w) \<and> download_ok M base l p w)"
| "get_ok M base v (Record l path n) w = (plain l \<and> unlinked M v w \<and> stored_at M l path w)"
| "get_ok M base v (RecordStats l path) w = (plain l \<and> unlinked M v w \<and> stored_at M l path w)"
| "get_ok M base v (RecordEmit l path n b) w = (plain l \<and> unlinked M v w \<and> stored_at M l path w)"
| "get_ok M base v (Link l path res) w = (plain l \<and> unlinked M v w \<and> stored_at M l path w)"
| "get_ok M base v (LinkStats l path res) w = usable M v path w"
| "get_ok M base v (LinkEmit l path res n) w = usable M v path w"
| "get_ok M base v (GetUnlockLib l r) w = (\<forall>path res. r = Inr (path, res) \<longrightarrow> usable M v path w)"
| "get_ok M base v (GetUnlockVol r) w = (\<forall>path res. r = Inr (path, res) \<longrightarrow> usable M v path w)"
| "get_ok M base v (GetReport r) w = True"
| "get_ok M base v (GetReturned r) w = True"

fun clean_ok ::
  "('h, 'r, 'd, 'n) library_manager \<Rightarrow> string \<Rightarrow> clean_pc \<Rightarrow> ('h, 'd, 'n) world \<Rightarrow> bool" where
  "clean_ok M l (CleanStore info) w = unused M l w"
| "clean_ok M l (CleanDb info) w = unused M l w"
| "clean_ok M l p w = True"

fun remove_ok :: "('h, 'r, 'd, 'n) library_manager \<Rightarrow> remove_pc \<Rightarrow> ('h, 'd, 'n) world \<Rightarrow> bool" where
  "remove_ok M (UnlinkStats l p) w = plain l"
| "remove_ok M (UnlinkEmit l p n) w = plain l"
| "remove_ok M (Schedule l) w = plain l"
| "remove_ok M (Cleanup l p) w = (plain l \<and> clean_ok M l p w)"
| "remove_ok M p w = True"

fun control_ok ::
  "('h, 'r, 'd, 'n) library_manager \<Rightarrow> string \<Rightarrow> control \<Rightarrow> ('h, 'd, 'n) world \<Rightarrow> bool" where
  "control_ok M base (Getting v lib p) w = get_ok M base v p w"
| "control_ok M base (Removing v p) w = remove_ok M p w"
| "control_ok M base (Callback x p) w = (plain (tm_library x) \<and> clean_ok M (tm_library x) p w)"
| "control_ok M base c w = True"

section \<open>The guarantee and what it leaves true\<close>

definition guar ::
  "('h, 'r, 'd, 'n) library_manager \<Rightarrow> string option \<Rightarrow> string option \<Rightarrow> ('h, 'd, 'n) world \<Rightarrow>
   ('h, 'd, 'n) world \<Rightarrow> bool" where
  "guar M vl ll w w' \<longleftrightarrow>
     (\<forall>u. vl \<noteq> Some u \<longrightarrow> lg_vols (lm_ledger M w') u = lg_vols (lm_ledger M w) u) \<and>
     (\<forall>l. ll \<noteq> Some l \<longrightarrow> users (lm_ledger M w') l \<subseteq> users (lm_ledger M w) l) \<and>
     (\<forall>l. plain l \<longrightarrow> lm_held M w l \<longrightarrow> lm_held M w' l \<or> ll = Some l \<and> unused M l w)"

lemma guar_same_db:
  assumes "w_db w' = w_db w" "\<And>l. plain l \<Longrightarrow> lm_held M w l \<Longrightarrow> lm_held M w' l"
  shows "guar M vl ll w w'"
  using assms by (simp add: guar_def)

lemma guar_refl: "w_db w' = w_db w \<Longrightarrow> w_host w' = w_host w \<Longrightarrow> guar M vl ll w w'"
  by (simp add: guar_def)

lemma guar_same_vols:
  assumes "lg_vols (lm_ledger M w') = lg_vols (lm_ledger M w)" "w_host w' = w_host w"
  shows "guar M vl ll w w'"
  using assms by (simp add: guar_def users_def)

lemma linked_stable: "guar M vl ll w w' \<Longrightarrow> vl \<noteq> Some v \<Longrightarrow> linked_to M v l w' = linked_to M v l w"
  by (simp add: guar_def linked_to_def)

lemma unlinked_stable: "guar M vl ll w w' \<Longrightarrow> vl \<noteq> Some v \<Longrightarrow> unlinked M v w' = unlinked M v w"
  by (simp add: guar_def unlinked_def)

lemma stored_stable:
  "guar M vl ll w w' \<Longrightarrow> ll \<noteq> Some l \<Longrightarrow> plain l \<Longrightarrow> stored_at M l path w \<Longrightarrow> stored_at M l path w'"
  by (auto simp: guar_def stored_at_def)

lemma unused_stable: "guar M vl ll w w' \<Longrightarrow> ll \<noteq> Some l \<Longrightarrow> unused M l w \<Longrightarrow> unused M l w'"
  by (auto simp: guar_def unused_def)

lemma usable_stable:
  assumes "guar M vl ll w w'" "vl \<noteq> Some v" "safe M w" "usable M v path w"
  shows "usable M v path w'"
proof -
  obtain l where l: "linked_to M v l w" "stored_at M l path w" using assms(4) by (auto simp: usable_def)
  then have used: "plain l" "\<not> unused M l w"
    using assms(3) by (auto simp: linked_to_def safe_def links_held_def unused_def users_def)
  then have "stored_at M l path w'" using assms(1) l(2) by (auto simp: guar_def stored_at_def)
  then show ?thesis using linked_stable [OF assms(1,2)] l(1) by (auto simp: usable_def)
qed

lemma download_ok_stable:
  "guar M vl ll w w' \<Longrightarrow> ll \<noteq> Some l \<Longrightarrow> plain l \<Longrightarrow> download_ok M base l p w \<Longrightarrow> download_ok M base l p w'"
  by (cases p) (auto intro: stored_stable)

lemma get_ok_stable:
  assumes "guar M vl ll w w'" "get_locked p \<Longrightarrow> vl \<noteq> Some v"
    and "\<And>l. get_library_lock p = Some l \<Longrightarrow> ll \<noteq> Some l" "safe M w" "get_ok M base v p w"
  shows "get_ok M base v p w'"
  using assms(2,3,5)
  by (cases p)
     (auto simp: linked_stable [OF assms(1)] unlinked_stable [OF assms(1)]
        intro: stored_stable [OF assms(1)] usable_stable [OF assms(1) _ assms(4)]
          download_ok_stable [OF assms(1)])

lemma clean_ok_stable:
  "guar M vl ll w w' \<Longrightarrow> (clean_locked p \<Longrightarrow> ll \<noteq> Some l) \<Longrightarrow> clean_ok M l p w \<Longrightarrow> clean_ok M l p w'"
  by (cases p) (auto intro: unused_stable)

lemma control_ok_stable:
  assumes "guar M vl ll w w'" "\<And>v. volume_locked c = Some v \<Longrightarrow> vl \<noteq> Some v"
    and "\<And>l. library_locked c = Some l \<Longrightarrow> ll \<noteq> Some l" "safe M w" "control_ok M base c w"
  shows "control_ok M base c w'"
proof (cases c)
  case (Getting v lib p)
  then show ?thesis using assms(2,3,5) get_ok_stable [OF assms(1) _ _ assms(4), of p v base] by auto
next
  case (Removing v p)
  then show ?thesis
    using assms(3,5) clean_ok_stable [OF assms(1)] by (cases p) auto
next
  case (Callback x p)
  then show ?thesis using assms(3,5) clean_ok_stable [OF assms(1), of p "tm_library x"] by auto
qed (use assms in simp_all)

lemma users_other_library:
  assumes "lg_vols L' v = Some rec" "LibraryID rec = l" "j \<noteq> l"
    and "\<forall>u. u \<noteq> v \<longrightarrow> lg_vols L' u = lg_vols L u"
  shows "users L' j \<subseteq> users L j"
proof
  fix u
  assume "u \<in> users L' j"
  then obtain r where r: "lg_vols L' u = Some r" "LibraryID r = j" by (auto simp: users_def)
  then have "u \<noteq> v" using assms(1-3) by auto
  then show "u \<in> users L j" using r assms(4) by (auto simp: users_def)
qed

section \<open>The strategy\<close>

lemma strategy_of_schedule:
  assumes "schedule_act l s = (p', s')" "strategy_ok s" "timers_for P s" "P l"
  shows "strategy_ok s' \<and> timers_for P s' \<and> (p' = Cleanup l CleanLock \<or> p' = RemUnlockVol (Inr ()))"
proof (cases s)
  case Immediate
  then show ?thesis using assms by simp
next
  case (Delayed t)
  obtain t' u where t': "delayed_ScheduleCleanup no_call () l (t, ()) = (t', u)" by (metis prod.collapse)
  then have sc: "ScheduleCleanup no_call () l (Delayed t, ()) = (Delayed t', u)" by simp
  have "delayed_ok t'" using schedule_ok [of t no_call "()" l "()"] assms(2) Delayed t' by simp
  moreover have "delayed_for P t'" using timers_for_schedule [where P = P, OF sc _ assms(4)] assms(3) Delayed by simp
  ultimately show ?thesis using assms Delayed t' by (auto split: if_splits)
qed

lemma finish_callback_ok:
  "strategy_ok s \<Longrightarrow> timers_for P s \<Longrightarrow> strategy_ok (finish_callback x s) \<and> timers_for P (finish_callback x s)"
  by (cases s) (auto simp: delayed_ok_def delayed_for_def dest: notin_set_remove1)

section \<open>Every statement keeps the invariant and gives the guarantee\<close>

context manager
begin

lemma keeps_more_held:
  assumes "safe M w" "w_db w' = w_db w" "w_cache w' = w_cache w"
    and "\<And>j. plain j \<Longrightarrow> lm_held M w j \<Longrightarrow> lm_held M w' j"
  shows "safe M w' \<and> guar M vl ll w w'"
  using safe_more_held [OF assms] guar_same_db [OF assms(2,4)] by blast

lemma keeps_note:
  assumes "safe M w" "w_db w' = w_db w" "w_cache w' = w_cache w" "w_host w' = w_host w"
  shows "safe M w' \<and> guar M vl ll w w'"
  by (rule keeps_more_held [OF assms(1-3)]) (simp add: assms(4))

lemma download_act_ok:
  assumes "download_act M lib fresh l p w = (p', w')" "safe M w" "plain l"
    and "if fresh then unlinked M v w else linked_to M v l w" "download_ok M base l p w"
  shows "safe M w' \<and> guar M vl ll w w' \<and> get_ok M base v p' w'"
proof -
  have same: "(if fresh then unlinked M v w1 else linked_to M v l w1)" if "w_db w1 = w_db w" for w1
    using assms(4) that by (simp add: unlinked_def linked_to_def split: if_splits)
  show ?thesis
  proof (cases p)
    case (TempDir img)
    obtain r h where t: "os_temp_dir (lm_fs M) (w_host w) (lm_scratchDir M) ''datadog-csi-driver-*'' = (r, h)"
      by force
    have w': "w' = w\<lparr>w_host := h\<rparr>" using assms(1) TempDir t by (cases r) auto
    have "safe M w' \<and> guar M vl ll w w'"
      using temp_keeps [OF t] w' by (intro keeps_more_held [OF assms(2)]) auto
    moreover have "get_ok M base v p' w'"
      using assms(1,3) TempDir t temp_scratch [of "w_host w" "''datadog-csi-driver-*''"] same [of w'] w'
      by (cases r) auto
    ultimately show ?thesis by blast
  next
    case (Fetch img scratch)
    obtain t0 w1 where w1: "clock M w = (t0, w1)" by force
    obtain r h n where d: "Download (lm_fs M) (lm_net M) (lm_getwd M) img scratch (w_host w1) (w_net w1) = (r, h, n)"
      using prod_cases3 by blast
    obtain t1 w3 where w3: "clock M (w1\<lparr>w_host := h, w_net := n\<rparr>) = (t1, w3)" by force
    have s: "scratch_src base (lm_store M) scratch" using assms(5) Fetch by simp
    have w': "w_db w' = w_db w" "w_cache w' = w_cache w" "w_host w' = h"
      using assms(1) Fetch w1 d w3 clock_fields [OF w1] clock_fields [OF w3] by (cases r; auto)+
    have "safe M w' \<and> guar M vl ll w w'"
      using download_keeps [OF d s] w' clock_fields [OF w1]
      by (intro keeps_more_held [OF assms(2)]) auto
    moreover have "get_ok M base v p' w'"
      using assms(1,3) Fetch w1 d w3 same [of w'] w' s by (cases r) auto
    ultimately show ?thesis by blast
  next
    case (StoreAdd scratch n)
    obtain r h where a: "store_add (lm_fs M) (lm_store M) (w_host w) l scratch = (r, h)" by force
    have s: "scratch_src base (lm_store M) scratch" using assms(5) StoreAdd by simp
    have w': "w' = w\<lparr>w_host := h\<rparr>"
      and p': "p' = Downloading fresh l (CleanScratch scratch (map_sum id (\<lambda>q. (q, n)) r))"
      using assms(1) StoreAdd a by auto
    have "safe M w' \<and> guar M vl ll w w'"
      using add_keeps [OF assms(3) _ s, of _ "w_host w"] a w' by (intro keeps_more_held [OF assms(2)]) auto
    moreover have "stored_at M l q w'" if "r = Inr q" for q
      using add_Inr [OF assms(3) s, of "w_host w" q h] a that w' by (simp add: stored_at_def)
    then have "get_ok M base v p' w'"
      using assms(3) same [of w'] w' s p' by (cases r) auto
    ultimately show ?thesis by blast
  next
    case (CleanScratch scratch r)
    have s: "scratch_src base (lm_store M) scratch"
      and st: "\<And>path n. r = Inr (path, n) \<Longrightarrow> stored_at M l path w"
      using assms(5) CleanScratch by auto
    have w': "w' = w\<lparr>w_host := snd (os_remove_all (lm_fs M) (w_host w) scratch)\<rparr>"
      using assms(1) CleanScratch by simp
    have held: "lm_held M w' j = lm_held M w j" if "plain j" for j
      using remove_all_scratch_held [OF that s] w' by simp
    have "safe M w' \<and> guar M vl ll w w'"
      using held w' by (intro keeps_more_held [OF assms(2)]) auto
    moreover have "get_ok M base v p' w'"
    proof (cases r)
      case (Inl e)
      then show ?thesis using assms(1) CleanScratch by auto
    next
      case (Inr q)
      obtain path n where q: "q = (path, n)" by force
      have "stored_at M l path w'" using st Inr q held [OF assms(3)] by (simp add: stored_at_def)
      then show ?thesis
        using assms(1,3) CleanScratch Inr q same [of w'] w' by (auto simp: usable_def split: if_splits)
    qed
    ultimately show ?thesis by blast
  qed
qed

text \<open>The transaction that links, taken out of \<open>linkVolume\<close>.\<close>

lemma link_statement:
  assumes "clock M w = (now, w1)" "LinkVolume (lm_json M) (lm_db M) now l v fc (w_db w1) = (r, d)"
  shows "\<exists>r' w'. linkVolume M l v p fc w = (r', w') \<and> w_db w' = d \<and> w_host w' = w_host w \<and>
    w_cache w' = w_cache w \<and> (r' = Inr () \<longleftrightarrow> r = Inr ())"
  using assms clock_fields [OF assms(1)]
  by (cases r) (auto simp: linkVolume_def Let_def split: prod.splits)

lemma link_act_ok:
  assumes "get_act M v lib (Link l path res) w = (p', w')" "safe M w" "plain l"
    and "unlinked M v w" "stored_at M l path w" "room_for_link M w"
  shows "safe M w' \<and> guar M (Some v) (Some l) w w' \<and> get_ok M base v p' w'"
proof -
  obtain now w1 where w1: "clock M w = (now, w1)" by force
  obtain r d where d: "LinkVolume (lm_json M) (lm_db M) now l v (res = ResolutionCacheHit) (w_db w1) = (r, d)"
    by force
  obtain r' w2 where l2: "linkVolume M l v [] (res = ResolutionCacheHit) w = (r', w2)"
      "w_db w2 = d" "w_host w2 = w_host w" "w_cache w2 = w_cache w" "r' = Inr () \<longleftrightarrow> r = Inr ()"
    using link_statement [OF w1 d] by blast
  have held: "lm_held M w l" using assms(5) by (simp add: stored_at_def)
  have room: "int (card (dom (lg_vols (lm_ledger M w)))) + 1 < 2 ^ 63"
    using assms(6) by (simp add: room_for_link_def)
  note k = link_safe [OF l2(1) assms(2,3) held room]
  have w': "w_db w' = d" "w_host w' = w_host w" "w_cache w' = w_cache w"
    and p': "p' = (case r of Inl e \<Rightarrow> GetUnlockLib l (Inl e) | Inr _ \<Rightarrow> LinkStats l path res)"
    using assms(1) w1 d clock_fields [OF w1] by (auto split: sum.splits)
  have "safe M w' = safe M w2" by (rule safe_cong) (simp_all add: w' l2)
  then have safe': "safe M w'" using k by simp
  have vols: "lg_vols (lm_ledger M w') = lg_vols (lm_ledger M w2)" using w'(1) l2(2) by simp
  have users: "users (lm_ledger M w') j \<subseteq> users (lm_ledger M w) j" if "j \<noteq> l" for j
  proof (cases r)
    case (Inl e)
    then have "lm_ledger M w2 = lm_ledger M w"
      using linkVolume_facts [OF l2(1)] assms(2) l2(5) by (cases r') (auto simp: safe_def)
    then show ?thesis using w'(1) l2(2) by simp
  next
    case (Inr x)
    then have "lg_vols (lm_ledger M w) v = None \<and> r' = Inr ()" using assms(4) l2(5) by (simp add: unlinked_def)
    then obtain rec where "lg_vols (lm_ledger M w') v = Some rec" "LibraryID rec = l" using k vols by auto
    then show ?thesis using k vols that by (intro users_other_library [of _ v rec l]) simp_all
  qed
  have "guar M (Some v) (Some l) w w'"
    using k vols w'(2) users by (auto simp: guar_def)
  moreover have "get_ok M base v p' w'"
  proof (cases r)
    case (Inl e)
    then show ?thesis using p' by simp
  next
    case (Inr x)
    then have "r' = Inr ()" using l2(5) by simp
    then have "linked_to M v l w'" using k vols assms(4) by (auto simp: linked_to_def unlinked_def)
    moreover have "stored_at M l path w'" using assms(5) w'(2) by (simp add: stored_at_def)
    ultimately show ?thesis using p' Inr by (auto simp: usable_def)
  qed
  ultimately show ?thesis using safe' by blast
qed

lemma get_act_ok:
  assumes "get_act M v lib p w = (p', w')" "safe M w" "get_ok M base v p w"
    and "links_next (Getting v lib p) \<Longrightarrow> room_for_link M w"
  shows "safe M w' \<and> guar M (Some v) (get_library_lock p) w w' \<and> get_ok M base v p' w'"
proof -
  have cp: "cache_plain (w_cache w)" using assms(2) by (simp add: safe_def)
  have frame: "safe M w' \<and> guar M vl ll w w' \<and> unlinked M u w' = unlinked M u w \<and>
      usable M u path w' = usable M u path w \<and> linked_to M u l w' = linked_to M u l w \<and>
      stored_at M l path w' = stored_at M l path w"
    if "w_db w' = w_db w" "w_host w' = w_host w" "cache_plain (w_cache w')" for vl ll u l path
    using that assms(2)
    by (auto simp: safe_def links_held_def guar_def unlinked_def usable_def linked_to_def stored_at_def)
  show ?thesis
  proof (cases p)
    case GetVolume
    then have w': "w' = w" using assms(1) by (auto split: sum.splits)
    have "get_ok M base v p' w"
    proof (cases "db_GetLibraryForVolume (lm_json M) (lm_db M) v (w_db w)")
      case (Inl e)
      then show ?thesis using assms(1) GetVolume by auto
    next
      case (Inr l)
      note vol = volume_of [OF Inr assms(2)]
      show ?thesis
      proof (cases "l = []")
        case True
        then show ?thesis using assms(1) GetVolume Inr vol by (auto simp: unlinked_def)
      next
        case False
        then obtain rec where rec: "lg_vols (lm_ledger M w) v = Some rec" "LibraryID rec = l"
          using vol by auto
        then have "plain l" using assms(2) by (auto simp: safe_def links_held_def)
        then show ?thesis using assms(1) GetVolume Inr False rec by (auto simp: linked_to_def)
      qed
    qed
    then show ?thesis using w' assms(2) by (simp add: guar_refl)
  next
    case (ReuseStored l)
    then have w': "w' = w" and l: "plain l" "linked_to M v l w"
      using assms(1,3) by (auto split: sum.splits if_splits)
    have "get_ok M base v p' w"
      using assms(1) ReuseStored l stored_path_cases [of l w] loc_nonempty [OF l(1)]
      by (auto simp: usable_def stored_at_def split: sum.splits if_splits)
    then show ?thesis using w' assms(2) by (simp add: guar_refl)
  next
    case (NewStored l)
    then have w': "w' = w" and l: "plain l" "unlinked M v w"
      using assms(1,3) by (auto split: sum.splits if_splits)
    have "get_ok M base v p' w"
      using assms(1) NewStored l stored_path_cases [of l w] loc_nonempty [OF l(1)]
      by (auto simp: stored_at_def split: sum.splits if_splits)
    then show ?thesis using w' assms(2) by (simp add: guar_refl)
  next
    case DigestLookup
    obtain c cc n where c: "cache_lookup (lm_net M) (lib_pull lib) (Image lib) (w_cache w) (w_net w) = (c, cc, n)"
      using prod_cases3 by blast
    have w': "w_db w' = w_db w" "w_host w' = w_host w" "cache_plain (w_cache w')"
      using assms(1) DigestLookup c lookup_for [OF c cp] cp by (auto split: option.splits)
    have "unlinked M v w'" using frame [OF w', of _ _ v] assms(3) DigestLookup by simp
    then have "get_ok M base v p' w'"
      using assms(1) DigestLookup c lookup_for [OF c cp] by (auto split: option.splits if_splits)
    then show ?thesis using frame [OF w'] by blast
  next
    case DigestFetch
    obtain r n where r: "downloader_FetchDigest (lm_net M) (Image lib) (w_net w) = (r, n)" by force
    have w': "w_db w' = w_db w" "w_host w' = w_host w" "cache_plain (w_cache w')"
      using assms(1) DigestFetch r cp by (cases r; auto)+
    have "unlinked M v w'" using frame [OF w', of _ _ v] assms(3) DigestFetch by simp
    then have "get_ok M base v p' w'"
      using assms(1) DigestFetch r fetched_plain [of "Image lib" "w_net w"] by (cases r) auto
    then show ?thesis using frame [OF w'] by blast
  next
    case (DigestCache d)
    obtain now n where r: "time_now (lm_net M) (w_net w) = (now, n)" by force
    have w': "w_db w' = w_db w" "w_host w' = w_host w" "cache_plain (w_cache w')"
      using assms(1,3) DigestCache r cp cached_for by auto
    have "unlinked M v w'" using frame [OF w', of _ _ v] assms(3) DigestCache by simp
    then have "get_ok M base v p' w'" using assms(1,3) DigestCache r by auto
    then show ?thesis using frame [OF w'] by blast
  next
    case (Downloading fresh l q)
    then show ?thesis
      using download_act_ok [of lib fresh l q w p' w' v] assms(1,2,3) by auto
  next
    case (Record l path n)
    obtain r d where a: "AddLibrary (lm_json M) (lm_db M) l (lib_name lib) n (w_db w) = (r, d)" by force
    note k = add_safe [OF a assms(2)]
    have w': "w' = w\<lparr>w_db := d\<rparr>" using assms(1) Record a by (cases r) auto
    have "guar M vl ll w w'" for vl ll using k w' by (intro guar_same_vols) auto
    moreover have "get_ok M base v p' w'"
      using assms(1,3) Record a k w' by (cases r) (auto simp: unlinked_def stored_at_def)
    ultimately show ?thesis using k w' by blast
  next
    case (Link l path res)
    then show ?thesis using link_act_ok [of v lib l path res w p' w'] assms by auto
  qed (use assms(1,3) cp frame in \<open>auto split: prod.splits\<close>)
qed

lemma clean_act_ok:
  assumes "clean_act M l p w = (p', w')" "safe M w" "plain l" "clean_ok M l p w"
  shows "safe M w' \<and> guar M None (if clean_locked p then Some l else None) w w' \<and> clean_ok M l p' w'"
proof -
  have db: "db_ok (lm_json M) (lm_db M) (w_db w)" and con: "consistent (lm_ledger M w)"
    using assms(2) by (simp_all add: safe_def)
  have frame: "safe M w1 \<and> guar M vl ll w w1 \<and> unused M j w1 = unused M j w"
    if "w_db w1 = w_db w" "w_host w1 = w_host w" "w_cache w1 = w_cache w" for w1 vl ll j
    using keeps_note [OF assms(2) that(1,3,2)] that(1) by (simp add: unused_def)
  show ?thesis
  proof (cases p)
    case CleanCheck
    show ?thesis
    proof (cases "GetLibrary (lm_json M) (lm_db M) l (w_db w)")
      case (Inl e)
      then show ?thesis using assms(1) CleanCheck frame [of w'] by auto
    next
      case (Inr q)
      obtain info found where q: "q = (info, found)" by force
      have info: "info = lib_at (lm_ledger M w) l" using GetLibrary_ok [OF db, of l info found] Inr q by simp
      have "\<not> VolumeCount info > 0 \<Longrightarrow> unused M l w"
        using count_zero_unused [OF con] info by (simp add: unused_def)
      then show ?thesis using assms(1) CleanCheck Inr q frame [of w'] by (auto split: if_splits)
    qed
  next
    case (CleanStore info)
    obtain r h where st: "store_remove (lm_fs M) (lm_store M) (w_host w) l = (r, h)" by force
    have un: "unused M l w" using assms(4) CleanStore by simp
    have w': "w_host w' = h" "w_db w' = w_db w" "w_cache w' = w_cache w"
      using assms(1) CleanStore st by (cases r; auto)+
    have keep: "lm_held M w' j" if "plain j" "j \<noteq> l" "lm_held M w j" for j
      using remove_other [OF assms(3) that(1), of "w_host w"] that st w' by simp
    have "LibraryID rec \<noteq> l" if "lg_vols (lm_ledger M w) v = Some rec" for v rec
      using un that by (auto simp: unused_def users_def)
    then have "safe M w'"
      using assms(2) keep w' by (auto simp: safe_def links_held_def)
    moreover have "guar M None (Some l) w w'"
      using keep un w' by (auto simp: guar_def)
    moreover have "clean_ok M l p' w'"
      using assms(1) CleanStore st un w' by (cases r) (auto simp: unused_def)
    ultimately show ?thesis using CleanStore by simp
  next
    case (CleanDb info)
    obtain r d where rl: "RemoveLibrary (lm_db M) l (w_db w) = (r, d)" by force
    have un: "users (lm_ledger M w) l = {}" using assms(4) CleanDb by (simp add: unused_def)
    have vols: "lg_vols (ledger_of (lm_json M) (lm_db M) d) = lg_vols (lm_ledger M w)"
      using remove_vols [OF db, of l] rl by simp
    have ok: "db_ok (lm_json M) (lm_db M) d" "consistent (ledger_of (lm_json M) (lm_db M) d)"
      using remove_consistent [OF db con un] rl by simp_all
    have w': "w_host w' = w_host w" "w_db w' = d" "w_cache w' = w_cache w"
      using assms(1) CleanDb rl by (cases r; auto split: if_splits)+
    have "safe M w'" using assms(2) ok vols w' by (simp add: safe_def links_held_def)
    moreover have "guar M vl ll w w'" for vl ll using vols w' by (intro guar_same_vols) simp_all
    moreover have "clean_ok M l p' w'"
      using assms(1) CleanDb rl by (cases r) (auto split: if_splits)
    ultimately show ?thesis by blast
  qed (use assms(1) frame [of w'] in \<open>auto split: prod.splits\<close>)
qed

lemma remove_act_ok:
  assumes "remove_act M v p (s, w) = (p', s', w')" "safe M w" "strategy_ok s" "timers_plain s" "remove_ok M p w"
  shows "safe M w' \<and> strategy_ok s' \<and> timers_plain s' \<and>
    guar M (Some v) (library_locked (Removing v p)) w w' \<and> remove_ok M p' w'"
proof -
  have frame: "safe M w1 \<and> guar M vl ll w w1"
    if "w_db w1 = w_db w" "w_host w1 = w_host w" "w_cache w1 = w_cache w" for w1 vl ll
    using keeps_note [OF assms(2) that(1,3,2)] .
  show ?thesis
  proof (cases p)
    case Unlink
    obtain r d where u: "UnlinkVolume (lm_json M) (lm_db M) v (w_db w) = (r, d)" by force
    note k = unlink_safe [OF u assms(2)]
    have w': "w' = w\<lparr>w_db := d\<rparr>" "s' = s"
      using assms(1) Unlink u by (auto split: sum.splits prod.splits)
    have "guar M (Some v) vl w w'" for vl
      using k w' by (cases r) (auto simp: guar_def users_def split: prod.splits if_splits)
    moreover have "remove_ok M p' w'"
    proof (cases r)
      case (Inl e)
      then show ?thesis using assms(1) Unlink u by auto
    next
      case (Inr q)
      obtain l package where q: "q = (l, package)" by force
      have "l = [] \<or> plain l"
        using k Inr q assms(2) by (auto simp: safe_def links_held_def split: option.splits)
      then show ?thesis using assms(1) Unlink u Inr q by auto
    qed
    ultimately show ?thesis using k w' assms(3,4) by simp
  next
    case (Schedule l)
    obtain q t where q: "schedule_act l s = (q, t)" by force
    note k = strategy_of_schedule [OF q assms(3,4)]
    show ?thesis using k assms Schedule q by (auto simp: guar_refl)
  next
    case (Cleanup l q)
    show ?thesis
    proof (cases "\<exists>r. q = CleanReturned r")
      case True
      then show ?thesis using assms Cleanup by (auto simp: guar_refl)
    next
      case False
      obtain q' w1 where q': "clean_act M l q w = (q', w1)" by force
      have r: "p' = Cleanup l q'" "s' = s" "w' = w1"
        using assms(1) Cleanup False q' by (cases q; simp)+
      have "plain l" "clean_ok M l q w" using assms(5) Cleanup by simp_all
      from clean_act_ok [OF q' assms(2) this] show ?thesis
        using r assms(3,4) Cleanup \<open>plain l\<close> by (auto simp: guar_def)
    qed
  qed (use assms frame [of w'] in \<open>auto split: prod.splits\<close>)
qed

lemma thread_act_ok:
  assumes "thread_act M c (s, w) = (c', s', w')" "safe M w" "strategy_ok s" "timers_plain s"
    and "control_ok M base c w" "links_next c \<Longrightarrow> room_for_link M w"
  shows "safe M w' \<and> strategy_ok s' \<and> timers_plain s' \<and> control_ok M base c' w' \<and>
    guar M (volume_locked c) (library_locked c) w w'"
proof (cases c)
  case (Getting v lib p)
  obtain p' w1 where p': "get_act M v lib p w = (p', w1)" by force
  have "get_ok M base v p w" using assms(5) Getting by simp
  note k = get_act_ok [OF p' assms(2) this]
  have "guar M None None w w1" if "\<not> get_locked p"
    using p' that by (cases p) (auto simp: guar_refl)
  then show ?thesis using k assms(1,3,4,6) Getting p' by (cases "get_locked p"; cases p) auto
next
  case (Removing v p)
  obtain p' s1 w1 where p': "remove_act M v p (s, w) = (p', s1, w1)" using prod_cases3 by blast
  have "remove_ok M p w" using assms(5) Removing by simp
  note k = remove_act_ok [OF p' assms(2-4) this]
  have "guar M None None w w1" if "\<not> remove_locked p"
    using p' that by (cases p) (auto simp: guar_refl)
  then show ?thesis using k assms(1) Removing p' by (cases "remove_locked p"; cases p) auto
next
  case (Callback x p)
  show ?thesis
  proof (cases "\<exists>r. p = CleanReturned r")
    case True
    then show ?thesis using assms Callback finish_callback_ok [OF assms(3,4), of x] by (auto simp: guar_refl)
  next
    case False
    obtain q' w1 where q': "clean_act M (tm_library x) p w = (q', w1)" by force
    have r: "c' = Callback x q'" "s' = s" "w' = w1"
      using assms(1) Callback False q' by (cases p; simp)+
    have "plain (tm_library x)" "clean_ok M (tm_library x) p w" using assms(5) Callback by simp_all
    from clean_act_ok [OF q' assms(2) this] show ?thesis
      using r assms(3,4) Callback \<open>plain (tm_library x)\<close> by auto
  qed
qed (use assms keeps_note [OF assms(2)] in \<open>auto simp: guar_refl split: if_splits option.splits\<close>)

section \<open>The invariant of the system\<close>

definition system_inv :: "('t, 'h, 'd, 'n) system \<Rightarrow> bool" where
  "system_inv S \<longleftrightarrow>
     safe M (sys_world S) \<and> strategy_ok (sys_strategy S) \<and> timers_plain (sys_strategy S) \<and>
     locker_inv (sys_locks S) \<and>
     (\<forall>t sl. session_holds (sys_locks S) (t, sl) = locked_keys (sys_pc S t) sl) \<and>
     (\<forall>t. control_ok M base (sys_pc S t) (sys_world S))"

lemma rest_no_keys: "at_rest c \<Longrightarrow> locked_keys c sl = None"
  by (cases c rule: at_rest.cases; cases sl) simp_all

lemma keys_exclusive:
  assumes "system_inv S" "locked_keys (sys_pc S t) sl = Some k" "locked_keys (sys_pc S u) sl = Some k"
  shows "t = u"
proof -
  have "locker_inv (sys_locks S)" using assms(1) by (simp add: system_inv_def)
  moreover have "session_holds (sys_locks S) (t, sl) = Some k" "session_holds (sys_locks S) (u, sl) = Some k"
    using assms by (simp_all add: system_inv_def)
  ultimately have "(t, sl) = (u, sl)" by (rule mutexes.exclusive)
  then show ?thesis by simp
qed

lemma volume_alone:
  "system_inv S \<Longrightarrow> volume_locked (sys_pc S t) = Some v \<Longrightarrow> volume_locked (sys_pc S u) = Some v \<Longrightarrow> t = u"
  by (erule keys_exclusive [of _ _ VolSlot "volumeLockKey v"]) simp_all

lemma library_alone:
  "system_inv S \<Longrightarrow> library_locked (sys_pc S t) = Some l \<Longrightarrow> library_locked (sys_pc S u) = Some l \<Longrightarrow> t = u"
  by (erule keys_exclusive [of _ _ LibSlot l]) simp_all

text \<open>A goroutine makes a statement, and the locks change with it.\<close>

lemma moved_inv:
  assumes inv: "system_inv S" and room: "links_next (sys_pc S t) \<Longrightarrow> room_for_link M (sys_world S)"
    and c: "locker_inv c" "\<And>u sl. session_holds c (u, sl) =
        (if u = t then keys_after (sys_pc S t) sl else session_holds (sys_locks S) (u, sl))"
  shows "system_inv (moved t (next_act M t S) (S\<lparr>sys_locks := c\<rparr>))"
proof -
  obtain p' s' w' where act: "thread_act M (sys_pc S t) (sys_strategy S, sys_world S) = (p', s', w')"
    using prod_cases3 by blast
  have k: "safe M w' \<and> strategy_ok s' \<and> timers_plain s' \<and> control_ok M base p' w' \<and>
      guar M (volume_locked (sys_pc S t)) (library_locked (sys_pc S t)) (sys_world S) w'"
    using inv by (intro thread_act_ok [OF act _ _ _ _ room]) (simp_all add: system_inv_def)
  have others: "control_ok M base (sys_pc S u) w'" if "u \<noteq> t" for u
  proof (rule control_ok_stable)
    show "guar M (volume_locked (sys_pc S t)) (library_locked (sys_pc S t)) (sys_world S) w'" using k by blast
    show "volume_locked (sys_pc S t) \<noteq> Some v" if "volume_locked (sys_pc S u) = Some v" for v
      using volume_alone [OF inv _ that] \<open>u \<noteq> t\<close> by blast
    show "library_locked (sys_pc S t) \<noteq> Some l" if "library_locked (sys_pc S u) = Some l" for l
      using library_alone [OF inv _ that] \<open>u \<noteq> t\<close> by blast
    show "safe M (sys_world S)" "control_ok M base (sys_pc S u) (sys_world S)"
      using inv by (simp_all add: system_inv_def)
  qed
  show ?thesis
    using k others c inv act_locks [OF act] by (auto simp: system_inv_def moved_def act)
qed

lemma pc_inv:
  assumes "system_inv S" "at_rest (sys_pc S t)" "locked_keys p = (\<lambda>_. None)" "control_ok M base p (sys_world S)"
  shows "system_inv (S\<lparr>sys_pc := (sys_pc S)(t := p)\<rparr>)"
  using assms rest_no_keys [OF assms(2)] by (auto simp: system_inv_def)

lemma locks_inv:
  assumes "system_inv S" "locker_inv c" "session_holds c = session_holds (sys_locks S)"
  shows "system_inv (S\<lparr>sys_locks := c\<rparr>)"
  using assms by (auto simp: system_inv_def)

lemma no_keys:
  "locked_keys (GetCall v lib) = (\<lambda>_. None)"
  "locked_keys (Removing v RemLock) = (\<lambda>_. None)"
  "locked_keys (Callback x CleanLock) = (\<lambda>_. None)"
proof -
  have "locked_keys (GetCall v lib) sl = None \<and> locked_keys (Removing v RemLock) sl = None \<and>
      locked_keys (Callback x CleanLock) sl = None" for sl
    by (cases sl) simp_all
  then show "locked_keys (GetCall v lib) = (\<lambda>_. None)" "locked_keys (Removing v RemLock) = (\<lambda>_. None)"
      "locked_keys (Callback x CleanLock) = (\<lambda>_. None)"
    by (simp_all add: fun_eq_iff)
qed

lemma conc_step_inv: "conc_step M S S' \<Longrightarrow> system_inv S \<Longrightarrow> system_inv S'"
proof (induction rule: conc_step.induct)
  case (begin_get S t v lib)
  show ?case
    by (rule pc_inv [OF begin_get(2,1) no_keys(1)]) simp
next
  case (begin_remove S t v)
  show ?case
    by (rule pc_inv [OF begin_remove(2,1) no_keys(2)]) simp
next
  case (expire S s n)
  then show ?case by (auto simp: system_inv_def expire_ok delayed_for_expire)
next
  case (claim S s x)
  then show ?case by (auto simp: system_inv_def claim_ok delayed_for_claim)
next
  case (begin_callback S t s x)
  then have "plain (tm_library x)" by (auto simp: system_inv_def delayed_for_def)
  then show ?case
    by (intro pc_inv [OF begin_callback(5,1) no_keys(3)]) simp
next
  case (arrive S t sl k c)
  have "locker_inv (sys_locks S)" using arrive(4) by (simp add: system_inv_def)
  from mutexes.enter_holds [OF this arrive(3)] show ?case using arrive(4) by (auto intro: locks_inv)
next
  case (take_lock S t sl k c)
  have "locker_inv (sys_locks S)" using take_lock(3) by (simp add: system_inv_def)
  note m = mutexes.take_holds [OF this take_lock(2)]
  show ?case
  proof (rule moved_inv [OF take_lock(3)])
    show "links_next (sys_pc S t) \<Longrightarrow> room_for_link M (sys_world S)"
      using take_lock(1) by (cases "sys_pc S t" rule: links_next.cases) auto
    show "session_holds c (u, sl') =
        (if u = t then keys_after (sys_pc S t) sl' else session_holds (sys_locks S) (u, sl'))" for u sl'
      using m take_lock(1,3) by (auto simp: keys_after_def system_inv_def)
  qed (use m in blast)
next
  case (start_unlock S t sl k c)
  have "locker_inv (sys_locks S)" using start_unlock(4) by (simp add: system_inv_def)
  note m = mutexes.leave_holds [OF this start_unlock(3)]
  have nw: "wants (sys_pc S t) = None" using start_unlock(1) by (rule gives_not_wants)
  show ?case
  proof (rule moved_inv [OF start_unlock(4)])
    show "links_next (sys_pc S t) \<Longrightarrow> room_for_link M (sys_world S)"
      using start_unlock(1) by (cases "sys_pc S t" rule: links_next.cases) auto
    show "session_holds c (u, sl') =
        (if u = t then keys_after (sys_pc S t) sl' else session_holds (sys_locks S) (u, sl'))" for u sl'
      using m start_unlock(1,4) nw by (auto simp: keys_after_def system_inv_def)
  qed (use m in blast)
next
  case (end_unlock t sl S c)
  have "locker_inv (sys_locks S)" using end_unlock(2) by (simp add: system_inv_def)
  from mutexes.free_holds [OF this end_unlock(1)] show ?case using end_unlock(2) by (auto intro: locks_inv)
next
  case (statement S t)
  have "system_inv (moved t (next_act M t S) (S\<lparr>sys_locks := sys_locks S\<rparr>))"
    using statement(2,3,6)
    by (intro moved_inv [OF statement(6,5)]) (auto simp: keys_after_def system_inv_def)
  then show ?case by simp
qed

lemma conc_run_inv: "(conc_step M)\<^sup>*\<^sup>* S S' \<Longrightarrow> system_inv S \<Longrightarrow> system_inv S'"
  by (induction rule: rtranclp_induct) (auto intro: conc_step_inv)

lemma initial_inv:
  assumes "mgr_ok M (s, w)"
  shows "system_inv (initial_system s w)"
proof -
  have "session_holds (all_idle, NewLocker) t = None" for t :: "'t \<times> slot"
    by (simp add: session_holds_def all_idle_def)
  moreover have "locked_keys Resting sl = None" for sl by (cases sl) simp_all
  ultimately show ?thesis
    using assms locker_inv_init by (auto simp: system_inv_def initial_system_def mgr_ok_def)
qed

section \<open>Who changes a record\<close>

lemma clean_act_records:
  assumes "clean_act M l p w = (p', w')" "safe M w"
  shows "lg_vols (lm_ledger M w') = lg_vols (lm_ledger M w)"
proof (cases "\<exists>info. p = CleanDb info")
  case True
  have "db_ok (lm_json M) (lm_db M) (w_db w)" using assms(2) by (simp add: safe_def)
  moreover obtain r d where rl: "RemoveLibrary (lm_db M) l (w_db w) = (r, d)" by force
  ultimately have "lg_vols (ledger_of (lm_json M) (lm_db M) d) = lg_vols (lm_ledger M w)"
    using remove_vols [of "w_db w" l] by simp
  moreover have "w_db w' = d" using assms(1) True rl by (cases r) (auto split: if_splits)
  ultimately show ?thesis by simp
next
  case False
  then have "w_db w' = w_db w"
    using assms(1) by (cases p) (auto split: sum.splits prod.splits if_splits)
  then show ?thesis by simp
qed

lemma thread_act_records:
  assumes "thread_act M c (s, w) = (c', s', w')" "safe M w"
    and "lg_vols (lm_ledger M w') v \<noteq> lg_vols (lm_ledger M w) v"
  shows "c = Removing v Unlink \<or> (\<exists>lib l path res. c = Getting v lib (Link l path res))"
proof (cases c)
  case (Getting u lib p)
  obtain p' w1 where p': "get_act M u lib p w = (p', w1)" by force
  have w1: "w' = w1" using assms(1) Getting p' by simp
  show ?thesis
  proof (cases p)
    case (Link l path res)
    obtain now w2 where w2: "clock M w = (now, w2)" by force
    obtain r d where d: "LinkVolume (lm_json M) (lm_db M) now l u (res = ResolutionCacheHit) (w_db w2) = (r, d)"
      by force
    obtain r' w3 where l3: "linkVolume M l u [] (res = ResolutionCacheHit) w = (r', w3)" "w_db w3 = d"
      using link_statement [OF w2 d] by blast
    have "w_db w' = d" using p' w1 Link w2 d by (auto split: sum.splits)
    moreover have "lg_vols (lm_ledger M w3) v = lg_vols (lm_ledger M w) v" if "v \<noteq> u"
      using linkVolume_facts [OF l3(1)] assms(2) that by (cases r') (auto simp: safe_def lg_link_def)
    ultimately have "v = u" using assms(3) l3(2) by metis
    then show ?thesis using Getting Link by simp
  next
    case (Record l path n)
    obtain r d where a: "AddLibrary (lm_json M) (lm_db M) l (lib_name lib) n (w_db w) = (r, d)" by force
    have "w' = w\<lparr>w_db := d\<rparr>" using p' w1 Record a by (cases r) auto
    then show ?thesis using add_safe [OF a assms(2)] assms(3) by simp
  next
    case (Downloading fresh l q)
    then have "w_db w' = w_db w"
      using p' w1 by (cases q) (auto simp: Let_def dest!: clock_fields split: sum.splits prod.splits)
    then show ?thesis using assms(3) by simp
  qed (use assms(3) p' w1 in \<open>auto split: sum.splits prod.splits option.splits if_splits\<close>)
next
  case (Removing u p)
  obtain p' s1 w1 where p': "remove_act M u p (s, w) = (p', s1, w1)" using prod_cases3 by blast
  have w1: "w' = w1" using assms(1) Removing p' by simp
  show ?thesis
  proof (cases p)
    case Unlink
    obtain r d where k: "UnlinkVolume (lm_json M) (lm_db M) u (w_db w) = (r, d)" by force
    have "w' = w\<lparr>w_db := d\<rparr>" using p' w1 Unlink k by (auto split: sum.splits prod.splits)
    then have "v = u" using unlink_safe [OF k assms(2)] assms(3) by (cases r) (auto split: if_splits)
    then show ?thesis using Removing Unlink by simp
  next
    case (Cleanup l q)
    have "lg_vols (lm_ledger M w') = lg_vols (lm_ledger M w)"
    proof (cases "\<exists>r. q = CleanReturned r")
      case False
      obtain q' w2 where q': "clean_act M l q w = (q', w2)" by force
      have "w' = w2" using p' w1 Cleanup False q' by (cases q; simp)
      then show ?thesis using clean_act_records [OF q' assms(2)] by simp
    qed (use p' w1 Cleanup in auto)
    then show ?thesis using assms(3) by simp
  qed (use assms(3) p' w1 in \<open>auto split: prod.splits\<close>)
next
  case (Callback x q)
  have "lg_vols (lm_ledger M w') = lg_vols (lm_ledger M w)"
  proof (cases "\<exists>r. q = CleanReturned r")
    case False
    obtain q' w2 where q': "clean_act M (tm_library x) q w = (q', w2)" by force
    have "w' = w2" using assms(1) Callback False q' by (cases q; simp)
    then show ?thesis using clean_act_records [OF q' assms(2)] by simp
  qed (use assms(1) Callback in auto)
  then show ?thesis using assms(3) by simp
qed (use assms in auto)

lemma conc_step_records:
  assumes "conc_step M S S'" "system_inv S"
    and "lg_vols (lm_ledger M (sys_world S')) v \<noteq> lg_vols (lm_ledger M (sys_world S)) v"
  shows "\<exists>t. sys_pc S t = Removing v Unlink \<or> (\<exists>lib l path res. sys_pc S t = Getting v lib (Link l path res))"
proof -
  obtain t where "sys_world S' = snd (snd (next_act M t S))"
    using assms(1,3) by cases (auto simp: moved_def)
  moreover obtain c' s' w' where act: "next_act M t S = (c', s', w')" using prod_cases3 by blast
  moreover have "safe M (sys_world S)" using assms(2) by (simp add: system_inv_def)
  ultimately have "lg_vols (lm_ledger M w') v \<noteq> lg_vols (lm_ledger M (sys_world S)) v" using assms(3) by simp
  from thread_act_records [OF act \<open>safe M (sys_world S)\<close> this] show ?thesis by blast
qed

end

end
