(* ===== verification/Lib_Conc_Props.thy ===== *)
theory Lib_Conc_Props
  imports Lib_Conc_Safety
begin

text \<open>
  The properties of overlapping calls of the library manager, and the runs that show them at work.
\<close>

section \<open>Two goroutines in memory\<close>

text \<open>Goroutine \<open>False\<close> publishes \<open>v3\<close> while \<open>True\<close> unpublishes \<open>v1\<close>.\<close>

definition mem_room :: "(mem_state, mem_db, mem_net) world \<Rightarrow> bool" where
  "mem_room w = (length (aget (mb_buckets (w_db w)) VolumesBucket) < 1000)"

definition demo_start :: "(bool, mem_state, mem_db, mem_net) system" where
  "demo_start = (initial_system Immediate demo_world)
     \<lparr>sys_pc := (\<lambda>t. if t then Removing ''v1'' RemLock else GetCall ''v3'' (Some demo_library))\<rparr>"

lemma mem_room_ok: "mem_room w \<Longrightarrow> room_for_link mem_manager w"
proof -
  assume room: "mem_room w"
  let ?xs = "aget (mb_buckets (w_db w)) VolumesBucket"
  have "dom (lg_vols (lm_ledger mem_manager w)) \<subseteq> set (map fst ?xs)"
    by (auto simp: ledger_of_def mem_bolt_def split: option.splits dest!: map_of_SomeD)
      (metis fst_conv image_eqI)
  then have "card (dom (lg_vols (lm_ledger mem_manager w))) \<le> length ?xs"
    by (metis List.finite_set card_length card_mono length_map order_trans)
  then show ?thesis using room by (simp add: mem_room_def room_for_link_def)
qed

lemma demo_start_reach: "(conc_step mem_manager)\<^sup>*\<^sup>* (initial_system Immediate demo_world) demo_start"
proof -
  define S0 :: "(bool, mem_state, mem_db, mem_net) system" where "S0 = initial_system Immediate demo_world"
  define S1 where "S1 = S0\<lparr>sys_pc := (sys_pc S0)(False := GetCall ''v3'' (Some demo_library))\<rparr>"
  have "conc_step mem_manager S0 S1"
    unfolding S1_def by (rule conc_step.begin_get) (simp add: S0_def initial_system_def)
  moreover have "conc_step mem_manager S1 (S1\<lparr>sys_pc := (sys_pc S1)(True := Removing ''v1'' RemLock)\<rparr>)"
    by (rule conc_step.begin_remove) (simp add: S1_def S0_def initial_system_def)
  moreover have "S1\<lparr>sys_pc := (sys_pc S1)(True := Removing ''v1'' RemLock)\<rparr> = demo_start"
    by (simp add: demo_start_def S1_def S0_def initial_system_def fun_eq_iff)
  ultimately show ?thesis unfolding S0_def by (metis converse_rtranclp_into_rtranclp rtranclp.rtrancl_refl)
qed

lemma demo_runs:
  assumes "run_schedule mem_manager mem_room ts demo_start = Some S"
  shows "(conc_step mem_manager)\<^sup>*\<^sup>* (initial_system Immediate demo_world) S"
  using demo_start_reach run_schedule_steps [OF assms mem_room_ok] by (rule rtranclp_trans)

lemma demo_inv: "mem_mgr.system_inv (initial_system Immediate demo_world)"
  by (rule mem_mgr.initial_inv) (simp add: demo_mgr_ok)

section \<open>Properties\<close>

text \<open>
  C2: Overlapping calls never lose a library: from a well-formed start, in every interleaving of any
  number of publishes, unpublishes, expiring timers and cleanups, also in the middle of calls and
  with failures at every statement, the library of every recorded volume is in the store and can be
  mounted, and the volume count of every library is the number of volumes that use it.
\<close>
theorem conc_links_never_dangle:
  assumes "manager M base" "mgr_ok M (s, w)" "(conc_step M)\<^sup>*\<^sup>* (initial_system s w) S"
    and "lg_vols (lm_ledger M (sys_world S)) v = Some rec"
  shows "store_get (lm_fs M) (lm_store M) (w_host (sys_world S)) (LibraryID rec) =
      Inr (store_path (lm_store M) (LibraryID rec)) \<and>
    VolumeCount (lib_at (lm_ledger M (sys_world S)) l) = int (card (users (lm_ledger M (sys_world S)) l))"
proof -
  have "manager.system_inv M base S"
    using manager.conc_run_inv [OF assms(1,3) manager.initial_inv [OF assms(1,2)]] .
  then have safe: "safe M (sys_world S)" by (simp add: manager.system_inv_def [OF assms(1)])
  then have "plain (LibraryID rec)" "lm_held M (sys_world S) (LibraryID rec)"
    using assms(4) by (auto simp: safe_def links_held_def)
  then show ?thesis
    using item_store.get_Inr [OF manager.store_of [OF assms(1)]] consistent_count safe
    by (auto simp: safe_def)
qed

text \<open>Both goroutines hold their volume's lock, and \<open>v3\<close> has just been linked to \<open>bb\<close>.\<close>

definition demo_mid :: "(bool, mem_state, mem_db, mem_net) system" where
  "demo_mid = the (run_schedule mem_manager mem_room (replicate 3 True @ replicate 21 False) demo_start)"

lemma demo_mid_run:
  "run_schedule mem_manager mem_room (replicate 3 True @ replicate 21 False) demo_start = Some demo_mid"
proof -
  have "run_schedule mem_manager mem_room (replicate 3 True @ replicate 21 False) demo_start \<noteq> None"
    by code_simp
  then show ?thesis unfolding demo_mid_def by (metis option.collapse)
qed

lemma demo_mid_facts:
  "map_option LibraryID (lg_vols (lm_ledger mem_manager (sys_world demo_mid)) ''v3'') = Some ''bb''"
  "sys_pc demo_mid False = Getting ''v3'' demo_library (GetUnlockVol (Inr (''/d/store/bb'', ResolutionDownloaded)))"
  by code_simp+

theorem conc_links_never_dangle_witness:
  "store_get mem_host ''/d/store'' (w_host (sys_world demo_mid)) ''bb'' = Inr ''/d/store/bb''"
proof -
  have paths: "lm_store mem_manager = ''/d/store''" "store_path ''/d/store'' ''bb'' = ''/d/store/bb''"
    by code_simp+
  obtain rec where "lg_vols (lm_ledger mem_manager (sys_world demo_mid)) ''v3'' = Some rec" "LibraryID rec = ''bb''"
    using demo_mid_facts(1) by blast
  then show ?thesis
    using conc_links_never_dangle [OF mem_mgr.manager_axioms demo_mgr_ok demo_runs [OF demo_mid_run]]
      paths by fastforce
qed

text \<open>
  C5: A volume never mounts one library while the database records another: when a publish has its
  path and still holds the volume's lock, the volume is recorded under the library at that path, and
  it is in the store, whatever the other calls are doing; and from then on the record changes in no
  step but the unlinking of an unpublish of the same volume (linking needs that it has none).
\<close>
theorem conc_publish_path:
  assumes "manager M base" "mgr_ok M (s, w)" "(conc_step M)\<^sup>*\<^sup>* (initial_system s w) S"
  shows "(sys_pc S t = Getting v lib (GetUnlockVol (Inr (path, res))) \<longrightarrow>
      (\<exists>rec. lg_vols (lm_ledger M (sys_world S)) v = Some rec \<and>
         path = store_path (lm_store M) (LibraryID rec) \<and>
         store_get (lm_fs M) (lm_store M) (w_host (sys_world S)) (LibraryID rec) = Inr path)) \<and>
    (conc_step M S S' \<and> lg_vols (lm_ledger M (sys_world S')) u \<noteq> lg_vols (lm_ledger M (sys_world S)) u \<longrightarrow>
      (\<exists>t. sys_pc S t = Removing u Unlink) \<or>
      lg_vols (lm_ledger M (sys_world S)) u = None \<and>
        (\<exists>t lib l path res. sys_pc S t = Getting u lib (Link l path res)))"
proof -
  have inv: "manager.system_inv M base S"
    using manager.conc_run_inv [OF assms(1,3) manager.initial_inv [OF assms(1,2)]] .
  then have safe: "safe M (sys_world S)" and ok: "\<And>t. control_ok M base (sys_pc S t) (sys_world S)"
    by (simp_all add: manager.system_inv_def [OF assms(1)])
  have "\<exists>rec. lg_vols (lm_ledger M (sys_world S)) v = Some rec \<and>
      path = store_path (lm_store M) (LibraryID rec) \<and>
      store_get (lm_fs M) (lm_store M) (w_host (sys_world S)) (LibraryID rec) = Inr path"
    if "sys_pc S t = Getting v lib (GetUnlockVol (Inr (path, res)))"
  proof -
    have "usable M v path (sys_world S)" using ok [of t] that by simp
    then obtain rec where rec: "lg_vols (lm_ledger M (sys_world S)) v = Some rec"
        "path = store_path (lm_store M) (LibraryID rec)" "lm_held M (sys_world S) (LibraryID rec)"
      by (auto simp: usable_def linked_to_def stored_at_def)
    moreover have "plain (LibraryID rec)" using safe rec(1) by (auto simp: safe_def links_held_def)
    ultimately show ?thesis using item_store.get_Inr [OF manager.store_of [OF assms(1)]] by blast
  qed
  moreover have "lg_vols (lm_ledger M (sys_world S)) u = None"
    if "sys_pc S t = Getting u lib (Link l path res)" for t lib l path res
    using ok [of t] that by (simp add: unlinked_def)
  ultimately show ?thesis using manager.conc_step_records [OF assms(1) _ inv, of S' u] by blast
qed

theorem conc_publish_path_witness:
  "\<exists>rec. lg_vols (lm_ledger mem_manager (sys_world demo_mid)) ''v3'' = Some rec \<and>
     store_get mem_host ''/d/store'' (w_host (sys_world demo_mid)) (LibraryID rec) = Inr ''/d/store/bb''"
proof -
  have "lm_store mem_manager = ''/d/store''" by code_simp
  then show ?thesis
    using conc_publish_path [OF mem_mgr.manager_axioms demo_mgr_ok demo_runs [OF demo_mid_run],
        of False "''v3''" demo_library "''/d/store/bb''" ResolutionDownloaded] demo_mid_facts(2)
    by auto
qed

end
