(* ===== verification/Csi_Gauges.thy ===== *)
theory Csi_Gauges
  imports Csi_Driver Lib_Conc_Props
begin

text \<open>
  The gauge of volume links and the database it describes, across the manager, its listener and the
  metrics client: after a call that changes a link the gauge shows the number of volumes linked to
  the package, and two overlapping calls can leave it wrong.
\<close>

section \<open>The number of links a log shows\<close>

fun links_shown :: "string \<Rightarrow> act list \<Rightarrow> int option \<Rightarrow> int option" where
  "links_shown p [] x = x"
| "links_shown p (Emit (OnVolumeLinked q n) # as) x = links_shown p as (if q = p then Some n else x)"
| "links_shown p (Emit (OnVolumeUnlinked q n) # as) x = links_shown p as (if q = p then Some n else x)"
| "links_shown p (Emit (OnSnapshot s) # as) x = links_shown p as (VolumeLinksByLibrary s p)"
| "links_shown p (_ # as) x = links_shown p as x"

lemma links_shown_append: "links_shown p (xs @ ys) x = links_shown p ys (links_shown p xs x)"
  by (induction p xs x rule: links_shown.induct) simp_all

text \<open>A report that is not about links.\<close>

fun no_link_report :: "act \<Rightarrow> bool" where
  "no_link_report (Emit (OnVolumeLinked q n)) = False"
| "no_link_report (Emit (OnVolumeUnlinked q n)) = False"
| "no_link_report (Emit (OnSnapshot s)) = False"
| "no_link_report a = True"

lemma links_shown_other: "list_all no_link_report xs \<Longrightarrow> links_shown p xs x = x"
  by (induction p xs x rule: links_shown.induct) simp_all

context prometheus
begin

lemma event_links_gauge:
  assumes "handle_event P keys e m = Some m'" "\<And>s. e \<noteq> OnSnapshot s"
    and "gauge_value P m (mv_name libraryVolumeLinks) [p] = map_option float64 x"
  shows "gauge_value P m' (mv_name libraryVolumeLinks) [p] = map_option float64 (links_shown p [Emit e] x)"
proof -
  have "mv_name libraryVolumeLinks \<noteq> mv_name libraryResolutions"
      "mv_name libraryVolumeLinks \<noteq> mv_name libraryDownloadDuration"
      "mv_name libraryVolumeLinks \<noteq> mv_name libraryCleanup"
    by (simp_all add: vector_names)
  then show ?thesis
    using assms
    by (cases e)
       (auto simp: record_defs with_labels_def set_cached_def set_gauge inc_gauge observe_gauge)
qed

text \<open>The gauge of a package is the number its log shows, as a floating-point number.\<close>

lemma gauge_shows:
  assumes "handle_events P keys (emitted as) m = Some m'"
    and "\<And>s. Emit (OnSnapshot s) \<in> set as \<Longrightarrow>
      set (keys (CachedCountByLibrary s)) = dom (CachedCountByLibrary s) \<and>
      set (keys (CachedBytesByLibrary s)) = dom (CachedBytesByLibrary s) \<and>
      set (keys (VolumeLinksByLibrary s)) = dom (VolumeLinksByLibrary s)"
    and "gauge_value P m (mv_name libraryVolumeLinks) [p] = map_option float64 x"
  shows "gauge_value P m' (mv_name libraryVolumeLinks) [p] = map_option float64 (links_shown p as x)"
  using assms
proof (induction as arbitrary: m x)
  case (Cons a as)
  show ?case
  proof (cases a)
    case (Emit e)
    then obtain m1 where m1: "handle_event P keys e m = Some m1" "handle_events P keys (emitted as) m1 = Some m'"
      using Cons.prems(1) by (auto split: option.splits)
    define y where "y = links_shown p [a] x"
    have "gauge_value P m1 (mv_name libraryVolumeLinks) [p] = map_option float64 y"
    proof (cases "\<exists>s. e = OnSnapshot s")
      case True
      then obtain s where s: "e = OnSnapshot s" by blast
      then show ?thesis
        using snapshot_gauge(3) [of keys s m m1 p] m1(1) Cons.prems(2) [of s] Emit by (simp add: y_def)
    next
      case False
      then show ?thesis
        using event_links_gauge [OF m1(1) _ Cons.prems(3)] Emit by (auto simp: y_def)
    qed
    then have "gauge_value P m' (mv_name libraryVolumeLinks) [p] = map_option float64 (links_shown p as y)"
      using Cons.IH [OF m1(2)] Cons.prems(2) by simp
    moreover have "links_shown p (a # as) x = links_shown p as y"
      using links_shown_append [of p "[a]" as x] by (simp add: y_def)
    ultimately show ?thesis by simp
  qed (use Cons in simp_all)
qed simp

end

section \<open>What the database says\<close>

definition links_of :: "('h, 'r, 'd, 'n) library_manager \<Rightarrow> ('h, 'd, 'n) world \<Rightarrow> string \<Rightarrow> int" where
  "links_of M w p = int (card (label_users (lm_ledger M w) p))"

lemma packageStats_db: "w_db w' = w_db w \<Longrightarrow> packageStats M p w' = packageStats M p w"
  by (simp add: packageStats_def)

context manager
begin

lemma stats_links:
  assumes "packageStats M p w = (a, b, n)" "safe M w" "tx_begin (lm_db M) (w_db w) = None" "p \<noteq> []"
  shows "n = links_of M w p"
proof -
  have "db_ok (lm_json M) (lm_db M) (w_db w)" "consistent (lm_ledger M w)"
    using assms(2) by (simp_all add: safe_def)
  from snapshot_totals [OF this(1) assms(3) this(2), of p] show ?thesis
    using assms(1,4) by (auto simp: packageStats_def links_of_def)
qed

end

section \<open>One call\<close>

text \<open>A stretch of the log that ends with the number of links the database has now.\<close>

definition reports_links ::
  "('h, 'r, 'd, 'n) library_manager \<Rightarrow> string \<Rightarrow> ('h, 'd, 'n) world \<Rightarrow> ('h, 'd, 'n) world \<Rightarrow> bool" where
  "reports_links M p w w' \<longleftrightarrow>
     (\<exists>xs e ys a b n. w_log w' = w_log w @ xs @ Emit e # ys \<and> list_all no_link_report ys \<and>
        (e = OnVolumeLinked p n \<or> e = OnVolumeUnlinked p n) \<and> packageStats M p w' = (a, b, n))"

lemma reports_links_after:
  assumes "reports_links M p w w1" "w_db w' = w_db w1" "w_log w' = w_log w1 @ zs" "list_all no_link_report zs"
  shows "reports_links M p w w'"
proof -
  obtain xs e ys a b n where r: "w_log w1 = w_log w @ xs @ Emit e # ys" "list_all no_link_report ys"
      "e = OnVolumeLinked p n \<or> e = OnVolumeUnlinked p n" "packageStats M p w1 = (a, b, n)"
    using assms(1) by (auto simp: reports_links_def)
  have "w_log w' = w_log w @ xs @ Emit e # (ys @ zs)" "list_all no_link_report (ys @ zs)"
    using r(1,2) assms(3,4) by simp_all
  then show ?thesis using r(3,4) packageStats_db [OF assms(2)] unfolding reports_links_def by metis
qed

lemma reports_links_before:
  assumes "reports_links M p w1 w'" "w_log w1 = w_log w @ zs"
  shows "reports_links M p w w'"
proof -
  obtain xs e ys a b n where r: "w_log w' = w_log w1 @ xs @ Emit e # ys" "list_all no_link_report ys"
      "e = OnVolumeLinked p n \<or> e = OnVolumeUnlinked p n" "packageStats M p w' = (a, b, n)"
    using assms(1) by (auto simp: reports_links_def)
  have "w_log w' = w_log w @ (zs @ xs) @ Emit e # ys" using r(1) assms(2) by simp
  then show ?thesis using r(2-4) unfolding reports_links_def by metis
qed

lemma linkVolume_reports:
  assumes "linkVolume M l v p fc w = (Inr (), w')"
  shows "reports_links M p w w'"
proof -
  obtain now w1 where w1: "clock M w = (now, w1)" by force
  obtain r d where d: "LinkVolume (lm_json M) (lm_db M) now l v fc (w_db w1) = (r, d)" by force
  obtain a b n where ps: "packageStats M p (w1\<lparr>w_db := d\<rparr>) = (a, b, n)" using prod_cases3 by blast
  have w': "w' = note_act (Emit (OnVolumeLinked p n)) (w1\<lparr>w_db := d\<rparr>)"
    using assms w1 d ps by (cases r) (auto simp: linkVolume_def)
  then have "w_log w' = w_log w @ [] @ Emit (OnVolumeLinked p n) # []" using clock_fields [OF w1] by simp
  moreover have "packageStats M p w' = (a, b, n)" using ps w' packageStats_db [of w' "w1\<lparr>w_db := d\<rparr>" M p] by simp
  ultimately show ?thesis unfolding reports_links_def by (metis list.pred_inject(1))
qed

lemma resolve_new_reports:
  assumes "resolve_new M l v lib w = (Inr (path, res), w')"
  shows "reports_links M (lib_name lib) w w'"
proof (cases "stored_path M l w")
  case (Inl e)
  then show ?thesis using assms by (simp add: resolve_new_def)
next
  case (Inr p)
  show ?thesis
  proof (cases "p = []")
    case False
    then show ?thesis
      using assms Inr linkVolume_reports [of M l v "lib_name lib" True w w']
      by (auto simp: resolve_new_def split: sum.splits prod.splits)
  next
    case True
    obtain dr w1 where d: "downloadToStore M l lib (Image lib) w = (dr, w1)" by force
    obtain path' bytes where dr: "dr = Inr (path', bytes)"
      using assms Inr True d by (cases dr) (auto simp: resolve_new_def download_and_link_def)
    obtain ar db where a: "AddLibrary (lm_json M) (lm_db M) l (lib_name lib) bytes (w_db w1) = (ar, db)" by force
    obtain c t k where st: "packageStats M (lib_name lib) (w1\<lparr>w_db := db\<rparr>) = (c, t, k)" using prod_cases3 by blast
    let ?w3 = "note_act (Emit (OnLibraryCached (lib_name lib) c t)) (w1\<lparr>w_db := db\<rparr>)"
    have "linkVolume M l v (lib_name lib) False ?w3 = (Inr (), w')"
      using assms Inr True d dr a st
      by (cases ar; cases "linkVolume M l v (lib_name lib) False ?w3";
          cases "fst (linkVolume M l v (lib_name lib) False ?w3)")
         (auto simp: resolve_new_def download_and_link_def)
    moreover obtain es where "w_log w1 = w_log w @ es"
      using downloadToStore_logs [OF d] by (auto simp: logs_events_def)
    ultimately show ?thesis
      using reports_links_before [OF linkVolume_reports, of M l v "lib_name lib" False ?w3 w' w] by simp
  qed
qed

lemma locked_reports:
  assumes "with_lock k f w = (r, w')" "\<And>w1 w2. f w1 = (r, w2) \<Longrightarrow> reports_links M p w1 w2"
  shows "reports_links M p w w'"
proof -
  obtain w1 where w1: "f (note_act (LockAct k) w) = (r, w1)" "w' = note_act (UnlockAct k) w1"
    using with_lock_result [OF assms(1)] by blast
  have "reports_links M p w w1" by (rule reports_links_before [OF assms(2) [OF w1(1)]]) simp
  then show ?thesis by (rule reports_links_after [where zs = "[UnlockAct k]"]) (simp_all add: w1(2))
qed

text \<open>A publish that makes a link.\<close>

lemma publish_reports:
  assumes "lm_GetLibraryForVolume M v (Some lib) w = (Inr path, w')"
    and "db_GetLibraryForVolume (lm_json M) (lm_db M) v (w_db w) = Inr []"
  shows "reports_links M (lib_name lib) w w'"
proof -
  have "v \<noteq> []" using assms(1) by (auto simp: lm_GetLibraryForVolume_def)
  obtain rr w1 where w1: "with_lock (volumeLockKey v) (resolve_volume M v lib) w = (rr, w1)" by force
  obtain path' res where rr: "rr = Inr (path', res)"
    using assms(1) \<open>v \<noteq> []\<close> w1 by (cases rr) (auto simp: lm_GetLibraryForVolume_def)
  have linked: "reports_links M (lib_name lib) w w1"
  proof -
    obtain w2 where w2: "resolve_volume M v lib (note_act (LockAct (volumeLockKey v)) w) = (rr, w2)"
        "w1 = note_act (UnlockAct (volumeLockKey v)) w2"
      using with_lock_result [OF w1] by blast
    obtain fr c n where f: "FetchDigest (lm_net M) (lm_ttl M) (Image lib) (lib_pull lib) (w_cache w) (w_net w) = (fr, c, n)"
      using prod_cases3 by blast
    obtain d where "fr = Inr d"
      using w2(1) rr f assms(2) by (cases fr) (auto simp: resolve_volume_def)
    then have "with_lock d (resolve_new M d v lib) ((note_act (LockAct (volumeLockKey v)) w)\<lparr>w_cache := c, w_net := n\<rparr>) = (rr, w2)"
      using w2(1) f assms(2) by (simp add: resolve_volume_def)
    then have "reports_links M (lib_name lib) ((note_act (LockAct (volumeLockKey v)) w)\<lparr>w_cache := c, w_net := n\<rparr>) w2"
      by (rule locked_reports) (simp add: rr resolve_new_reports)
    then have "reports_links M (lib_name lib) w w2" by (rule reports_links_before) simp
    then show ?thesis by (rule reports_links_after [where zs = "[UnlockAct (volumeLockKey v)]"]) (simp_all add: w2(2))
  qed
  have w': "w' = note_act (Emit (OnLibraryResolved (lib_name lib) res)) w1"
    using assms(1) \<open>v \<noteq> []\<close> w1 rr by (auto simp: lm_GetLibraryForVolume_def)
  from linked show ?thesis
    by (rule reports_links_after [where zs = "[Emit (OnLibraryResolved (lib_name lib) res)]"]) (simp_all add: w')
qed

text \<open>A cleanup does not report links, and does not change how many a package has.\<close>

lemma try_cleanup_silent:
  assumes "try_cleanup M l w = (r, w')"
  shows "\<exists>es. w_log w' = w_log w @ es \<and> list_all no_link_report es"
proof (cases "GetLibrary (lm_json M) (lm_db M) l (w_db w)")
  case (Inl e)
  then show ?thesis using assms by (auto simp: try_cleanup_def cleanup_event_def)
next
  case (Inr q)
  obtain info found where q: "q = (info, found)" by force
  obtain sr h where st: "store_remove (lm_fs M) (lm_store M) (w_host w) l = (sr, h)" by force
  obtain rr d where rl: "RemoveLibrary (lm_db M) l (w_db w) = (rr, d)" by force
  show ?thesis
    using assms Inr q st rl
    by (cases sr; cases rr)
       (auto simp: try_cleanup_def remove_unused_def Let_def cleanup_event_def split: prod.splits if_splits)
qed

lemma tryCleanup_silent:
  assumes "tryCleanupLibrary M l w = (r, w')"
  shows "\<exists>es. w_log w' = w_log w @ es \<and> list_all no_link_report es"
proof -
  obtain w1 where w1: "try_cleanup M l (note_act (LockAct l) w) = (r, w1)" "w' = note_act (UnlockAct l) w1"
    using with_lock_result [of l "try_cleanup M l" w r w'] assms by (auto simp: tryCleanupLibrary_def)
  then show ?thesis using try_cleanup_silent [OF w1(1)] by auto
qed

lemma schedule_silent:
  assumes "ScheduleCleanup (cleanup_call M) () l (s, w) = (s', w')" "strategy_ok s"
  shows "\<exists>es. w_log w' = w_log w @ es \<and> list_all no_link_report es"
proof -
  have "w' = snd (tryCleanupLibrary M l w) \<or> w' = w"
    using strat.schedule_runs [OF assms(2,1)] by (auto simp: cleanup_call_def)
  then show ?thesis
  proof
    assume "w' = snd (tryCleanupLibrary M l w)"
    then obtain r where "tryCleanupLibrary M l w = (r, w')" by (metis prod.collapse)
    then show ?thesis by (rule tryCleanup_silent)
  qed (intro exI [of _ "[]"], simp)
qed

context manager
begin

lemma label_users_removed:
  assumes "lg_vols L' = lg_vols L" "\<And>j. j \<noteq> l \<Longrightarrow> lg_libs L' j = lg_libs L j" "users L l = {}"
  shows "label_users L' p = label_users L p"
proof -
  have "LibraryID r \<in> labelled L' p \<longleftrightarrow> LibraryID r \<in> labelled L p" if "lg_vols L v = Some r" for v r
  proof -
    have "LibraryID r \<noteq> l" using assms(3) that by (auto simp: users_def)
    then show ?thesis using assms(2) by (simp add: labelled_def)
  qed
  then show ?thesis by (auto simp: label_users_def assms(1))
qed

lemma tryCleanup_db:
  assumes "tryCleanupLibrary M l w = (r, w')"
  shows "w_db w' = w_db w \<or> w_db w' = snd (RemoveLibrary (lm_db M) l (w_db w))"
proof -
  obtain w1 where w1: "try_cleanup M l (note_act (LockAct l) w) = (r, w1)" "w' = note_act (UnlockAct l) w1"
    using with_lock_result [of l "try_cleanup M l" w r w'] assms by (auto simp: tryCleanupLibrary_def)
  have "w_db w1 = w_db w \<or> w_db w1 = snd (RemoveLibrary (lm_db M) l (w_db w))"
    using w1(1)
    by (auto simp: try_cleanup_def remove_unused_def Let_def split: sum.splits prod.splits if_splits)
  then show ?thesis using w1(2) by simp
qed

lemma removed_libs:
  assumes "db_ok (lm_json M) (lm_db M) d" "j \<noteq> l"
  shows "lg_libs (ledger_of (lm_json M) (lm_db M) (snd (RemoveLibrary (lm_db M) l d))) j =
    lg_libs (ledger_of (lm_json M) (lm_db M) d) j"
proof -
  obtain r d' where r: "RemoveLibrary (lm_db M) l d = (r, d')" by force
  then show ?thesis
    using remove_lib_Inl [OF assms(1), of l _ d'] remove_lib_Inr [OF assms(1), of l d'] assms(2)
    by (cases r) (auto simp: lg_remove_def)
qed

lemma tryCleanup_links:
  assumes "tryCleanupLibrary M l w = (r, w')" "safe M w" "plain l"
  shows "links_of M w' p = links_of M w p"
proof (cases "users (lm_ledger M w) l = {}")
  case False
  then show ?thesis using tryCleanup_safe [OF assms] by (simp add: links_of_def)
next
  case True
  have db: "db_ok (lm_json M) (lm_db M) (w_db w)" using assms(2) by (simp add: safe_def)
  have "w_db w' = w_db w \<or> w_db w' = snd (RemoveLibrary (lm_db M) l (w_db w))"
    using tryCleanup_db [OF assms(1)] .
  moreover have "lg_libs (ledger_of (lm_json M) (lm_db M) (snd (RemoveLibrary (lm_db M) l (w_db w)))) j =
      lg_libs (lm_ledger M w) j" if "j \<noteq> l" for j
    using removed_libs [OF db that] .
  ultimately have "label_users (lm_ledger M w') p = label_users (lm_ledger M w) p"
    using tryCleanup_safe [OF assms] True by (intro label_users_removed [of _ _ l]) auto
  then show ?thesis by (simp add: links_of_def)
qed

lemma schedule_links:
  assumes "ScheduleCleanup (cleanup_call M) () l (s, w) = (s', w')" "strategy_ok s" "safe M w" "plain l"
  shows "links_of M w' p = links_of M w p"
proof -
  have "w' = snd (tryCleanupLibrary M l w) \<or> w' = w"
    using strat.schedule_runs [OF assms(2,1)] by (auto simp: cleanup_call_def)
  then show ?thesis
  proof
    assume "w' = snd (tryCleanupLibrary M l w)"
    then obtain r where "tryCleanupLibrary M l w = (r, w')" by (metis prod.collapse)
    from tryCleanup_links [OF this assms(3,4)] show ?thesis .
  qed simp
qed

text \<open>An unpublish of a volume whose library has a package.\<close>

lemma unpublish_reports:
  assumes "RemoveVolume M v s w = ((r, s'), w')" "safe M w" "strategy_ok s"
    and "UnlinkVolume (lm_json M) (lm_db M) v (w_db w) = (Inr (l, p), d)" "p \<noteq> []"
    and "tx_begin (lm_db M) d = None"
  shows "\<exists>xs ys. w_log w' = w_log w @ xs @ Emit (OnVolumeUnlinked p (links_of M w' p)) # ys \<and>
    list_all no_link_report ys"
proof -
  let ?k = "volumeLockKey v"
  let ?w0 = "note_act (LockAct ?k) w" and ?w1 = "(note_act (LockAct (volumeLockKey v)) w)\<lparr>w_db := d\<rparr>"
  obtain w3 where w3: "remove_volume M v s ?w0 = ((r, s'), w3)" "w' = note_act (UnlockAct ?k) w3"
    using with_lock_result [of ?k "remove_volume M v s" w "(r, s')" w'] assms(1) by (auto simp: RemoveVolume_def)
  have k: "safe M (w\<lparr>w_db := d\<rparr>)"
      "case lg_vols (lm_ledger M w) v of None \<Rightarrow> l = [] | Some rec \<Rightarrow> l = LibraryID rec"
    using unlink_safe [OF assms(4,2)] by simp_all
  have safe1: "safe M ?w1" using k(1) safe_cong [of ?w1 "w\<lparr>w_db := d\<rparr>" M] by simp
  have db: "db_ok (lm_json M) (lm_db M) (w_db w)" using assms(2) by (simp add: safe_def)
  have "l \<noteq> []"
  proof
    assume "l = []"
    then have "lg_vols (lm_ledger M w) v = None"
      using k(2) assms(2) by (auto simp: safe_def consistent_def split: option.splits)
    moreover have "((l, p), ledger_of (lm_json M) (lm_db M) d) = lg_unlink v (lm_ledger M w)"
      using unlink_Inr [OF db, of v "(l, p)" d] assms(4) by simp
    ultimately show False using assms(5) by (simp add: lg_unlink_def)
  qed
  have "plain l"
    using k(2) assms(2) \<open>l \<noteq> []\<close> by (auto simp: safe_def links_held_def split: option.splits)
  obtain a b n where ps: "packageStats M p ?w1 = (a, b, n)" using prod_cases3 by blast
  let ?w2 = "note_act (Emit (OnVolumeUnlinked p n)) ?w1"
  have sc: "ScheduleCleanup (cleanup_call M) () l (s, ?w2) = (s', w3)"
    using w3(1) assms(4,5) ps \<open>l \<noteq> []\<close> by (auto simp: remove_volume_def split: prod.splits)
  have "n = links_of M ?w1 p" by (rule stats_links [OF ps safe1 _ assms(5)]) (simp add: assms(6))
  moreover have "links_of M w3 p = links_of M ?w2 p"
    using schedule_links [OF sc assms(3) _ \<open>plain l\<close>] safe1 by simp
  ultimately have n: "n = links_of M w' p" using w3(2) by (simp add: links_of_def)
  obtain es where es: "w_log w3 = w_log ?w2 @ es" "list_all no_link_report es"
    using schedule_silent [OF sc assms(3)] by blast
  have "w_log w' = w_log w @ [LockAct ?k] @ Emit (OnVolumeUnlinked p n) # (es @ [UnlockAct ?k])"
    using es(1) w3(2) by simp
  moreover have "list_all no_link_report (es @ [UnlockAct ?k])" using es(2) by simp
  ultimately show ?thesis unfolding n by blast
qed

lemma publish_links:
  assumes "lm_GetLibraryForVolume M v (Some lib) w = (Inr path, w')" "safe M w"
    and "lg_vols (lm_ledger M w) v = None" "lib_name lib \<noteq> []"
    and "int (card (dom (lg_vols (lm_ledger M w)))) + 1 < 2 ^ 63"
    and "tx_begin (lm_db M) (w_db w') = None"
  shows "\<exists>xs e ys. w_log w' = w_log w @ xs @ Emit e # ys \<and> list_all no_link_report ys \<and>
    (e = OnVolumeLinked (lib_name lib) (links_of M w' (lib_name lib)) \<or>
     e = OnVolumeUnlinked (lib_name lib) (links_of M w' (lib_name lib)))"
proof -
  have "db_GetLibraryForVolume (lm_json M) (lm_db M) v (w_db w) = Inr []"
  proof (cases "db_GetLibraryForVolume (lm_json M) (lm_db M) v (w_db w)")
    case (Inl e)
    have "v \<noteq> []" using assms(1) by (auto simp: lm_GetLibraryForVolume_def)
    then show ?thesis
      using assms(1) Inl by (auto simp: lm_GetLibraryForVolume_def with_lock_def resolve_volume_def)
  next
    case (Inr l)
    then show ?thesis using volume_of [OF Inr assms(2)] assms(3) by simp
  qed
  from publish_reports [OF assms(1) this] obtain xs e ys a b n where
    r: "w_log w' = w_log w @ xs @ Emit e # ys" "list_all no_link_report ys"
      "e = OnVolumeLinked (lib_name lib) n \<or> e = OnVolumeUnlinked (lib_name lib) n"
      "packageStats M (lib_name lib) w' = (a, b, n)"
    unfolding reports_links_def by blast
  have "safe M w'" using get_library_safe [OF assms(1,2,5)] by blast
  from stats_links [OF r(4) this assms(6,4)] show ?thesis using r(1-3) by blast
qed

end

lemma emitted_append: "emitted (xs @ ys) = emitted xs @ emitted ys"
  by (induction xs rule: emitted.induct) simp_all

lemma handle_events_append:
  "handle_events P keys (es @ fs) m = Option.bind (handle_events P keys es m) (handle_events P keys fs)"
  by (induction es arbitrary: m) (auto split: option.splits)

context prometheus
begin

text \<open>After the last report about links, the gauge of its package is its number.\<close>

lemma last_report_shown:
  assumes "handle_events P keys (emitted (xs @ Emit e # ys)) m = Some m'" "list_all no_link_report ys"
    and "e = OnVolumeLinked p n \<or> e = OnVolumeUnlinked p n"
  shows "gauge_value P m' (mv_name libraryVolumeLinks) [p] = Some (float64 n)"
proof -
  obtain m1 m2 where m: "handle_event P keys e m1 = Some m2" "handle_events P keys (emitted ys) m2 = Some m'"
    using assms(1)
    by (auto simp: emitted_append handle_events_append bind_eq_Some_conv split: option.splits)
  have "gauge_value P m2 (mv_name libraryVolumeLinks) [p] = map_option float64 (Some n)"
    using m(1) assms(3) by (auto simp: record_defs with_labels_def set_gauge)
  then have "gauge_value P m' (mv_name libraryVolumeLinks) [p] = map_option float64 (links_shown p ys (Some n))"
    using gauge_shows [OF m(2)] assms(2) by (fastforce simp: list_all_iff)
  then show ?thesis using assms(2) by (simp add: links_shown_other)
qed

end

section \<open>Properties\<close>

text \<open>
  C15: The gauge of volume links follows the database: after a publish that linked a volume, and
  after an unpublish of a volume whose library has a package, the series of the package shows
  exactly the number of volumes the database links to libraries of that package, whatever the
  metrics showed before, whatever else the call reported, and whether or not a cleanup ran in it.
\<close>
theorem links_gauge_follows:
  assumes "manager M base" "prometheus P" "safe M w" "strategy_ok s" "p \<noteq> []"
    and "lm_GetLibraryForVolume M v (Some lib) w = (Inr path, w') \<and> p = lib_name lib \<and>
           lg_vols (lm_ledger M w) v = None \<and>
           int (card (dom (lg_vols (lm_ledger M w)))) + 1 < 2 ^ 63 \<and> tx_begin (lm_db M) (w_db w') = None \<or>
         RemoveVolume M v s w = ((r, s'), w') \<and>
           UnlinkVolume (lm_json M) (lm_db M) v (w_db w) = (Inr (l, p), d) \<and> tx_begin (lm_db M) d = None"
    and "listen P keys (s, w) (s'', w') m = Some m'"
  shows "gauge_value P m' (mv_name libraryVolumeLinks) [p] = Some (float64 (links_of M w' p))"
proof -
  have "\<exists>xs e ys. w_log w' = w_log w @ xs @ Emit e # ys \<and> list_all no_link_report ys \<and>
      (e = OnVolumeLinked p (links_of M w' p) \<or> e = OnVolumeUnlinked p (links_of M w' p))"
    using assms(6)
  proof (elim disjE conjE)
    assume "lm_GetLibraryForVolume M v (Some lib) w = (Inr path, w')" "p = lib_name lib"
      "lg_vols (lm_ledger M w) v = None" "int (card (dom (lg_vols (lm_ledger M w)))) + 1 < 2 ^ 63"
      "tx_begin (lm_db M) (w_db w') = None"
    then show ?thesis using manager.publish_links [OF assms(1) _ assms(3)] assms(5) by simp
  next
    assume "RemoveVolume M v s w = ((r, s'), w')"
      "UnlinkVolume (lm_json M) (lm_db M) v (w_db w) = (Inr (l, p), d)" "tx_begin (lm_db M) d = None"
    then show ?thesis using manager.unpublish_reports [OF assms(1) _ assms(3,4) _ assms(5)] by blast
  qed
  then obtain xs e ys where log: "w_log w' = w_log w @ xs @ Emit e # ys" "list_all no_link_report ys"
      "e = OnVolumeLinked p (links_of M w' p) \<or> e = OnVolumeUnlinked p (links_of M w' p)"
    by blast
  then have "handle_events P keys (emitted (xs @ Emit e # ys)) m = Some m'"
    using assms(7) by (simp add: listen_def)
  then show ?thesis by (rule prometheus.last_report_shown [OF assms(2) _ log(2,3)])
qed

definition gauge_call :: "(unit res \<times> strategy) \<times> (mem_state, mem_db, mem_net) world" where
  "gauge_call = RemoveVolume mem_manager ''v1'' Immediate demo_world"

definition gauge_after :: mem_metrics where
  "gauge_after = the (listen mem_prom (\<lambda>mp. []) (Immediate, demo_world) (Immediate, snd gauge_call) stale_metrics)"

theorem links_gauge_follows_witness:
  "gauge_value mem_prom gauge_after (mv_name libraryVolumeLinks) [''java''] =
     Some (float64 (links_of mem_manager (snd gauge_call) ''java''))"
proof -
  let ?u = "UnlinkVolume (lm_json mem_manager) (lm_db mem_manager) ''v1'' (w_db demo_world)"
  have u: "fst ?u = Inr (''aa'', ''java'')" "tx_begin (lm_db mem_manager) (snd ?u) = None" by code_simp+
  then have unlink: "?u = (Inr (''aa'', ''java''), snd ?u)" by (metis prod.collapse)
  have call: "RemoveVolume mem_manager ''v1'' Immediate demo_world =
      ((fst (fst gauge_call), snd (fst gauge_call)), snd gauge_call)"
    by (simp add: gauge_call_def)
  have run: "listen mem_prom (\<lambda>mp. []) (Immediate, demo_world) (Immediate, snd gauge_call) stale_metrics =
      Some gauge_after"
    using listen_total unfolding gauge_after_def by (metis option.collapse)
  have ok: "safe mem_manager demo_world" "strategy_ok Immediate" using demo_mgr_ok by (simp_all add: mgr_ok_def)
  have "RemoveVolume mem_manager ''v1'' Immediate demo_world =
        ((fst (fst gauge_call), snd (fst gauge_call)), snd gauge_call) \<and>
      ?u = (Inr (''aa'', ''java''), snd ?u) \<and> tx_begin (lm_db mem_manager) (snd ?u) = None"
    by (intro conjI call unlink u(2))
  from links_gauge_follows [OF mem_mgr.manager_axioms mem_prom.prometheus_axioms ok _ disjI2 [OF this] run]
  show ?thesis by simp
qed

text \<open>
  The publish of \<open>v3\<close> reads the statistics and is held up before it calls the listener; the
  unpublish of \<open>v1\<close> runs from start to end; then the publish goes on.
\<close>

definition race_schedule :: "bool list" where
  "race_schedule = replicate 19 False @ replicate 14 True @ replicate 6 False"

definition race_end :: "(bool, mem_state, mem_db, mem_net) system" where
  "race_end = the (run_schedule mem_manager mem_room race_schedule demo_start)"

lemma race_run: "run_schedule mem_manager mem_room race_schedule demo_start = Some race_end"
proof -
  have "run_schedule mem_manager mem_room race_schedule demo_start \<noteq> None" by code_simp
  then show ?thesis unfolding race_end_def by (metis option.collapse)
qed

text \<open>
  C16: The gauge is not serialised with the database: two overlapping calls that both succeed can
  leave it wrong. A publish reads the statistics and calls the listener in two steps, under the lock
  of its volume and library only; an unpublish of another volume of the same package in between
  reports the newer number first. At the end no call runs, two volumes use the package, and the
  gauge says three, until the next call that reports about the package.
\<close>
theorem overlapping_calls_skew_gauge:
  "\<exists>S m. (conc_step mem_manager)\<^sup>*\<^sup>* (initial_system Immediate demo_world) S \<and>
     (\<forall>t. at_rest (sys_pc S t)) \<and>
     sys_pc S False = Getting ''v3'' demo_library (GetReturned (Inr ''/d/store/bb'')) \<and>
     sys_pc S True = Removing ''v1'' (RemReturned (Inr ())) \<and>
     listen mem_prom (\<lambda>mp. []) (Immediate, demo_world) (Immediate, sys_world S) stale_metrics = Some m \<and>
     gauge_value mem_prom m (mv_name libraryVolumeLinks) [''java''] = Some (float64 3) \<and>
     snd (snd (packageStats mem_manager ''java'' (sys_world S))) = 2"
proof -
  define m where "m = the (listen mem_prom (\<lambda>mp. []) (Immediate, demo_world) (Immediate, sys_world race_end) stale_metrics)"
  have pcs: "sys_pc race_end False = Getting ''v3'' demo_library (GetReturned (Inr ''/d/store/bb''))"
      "sys_pc race_end True = Removing ''v1'' (RemReturned (Inr ()))"
    by code_simp+
  then have "at_rest (sys_pc race_end t)" for t by (cases t) simp_all
  moreover have "listen mem_prom (\<lambda>mp. []) (Immediate, demo_world) (Immediate, sys_world race_end) stale_metrics = Some m"
    using listen_total unfolding m_def by (metis option.collapse)
  moreover have "gauge_value mem_prom m (mv_name libraryVolumeLinks) [''java''] = Some (float64 3)"
      "snd (snd (packageStats mem_manager ''java'' (sys_world race_end))) = 2"
    unfolding m_def by code_simp+
  ultimately show ?thesis using demo_runs [OF race_run] pcs by blast
qed

end
