(* ===== verification/Csi_Restart.thy ===== *)
theory Csi_Restart
  imports Csi_Gauges
begin

text \<open>
  The driver is stopped and started again on the same disk, as every update of it does: the new
  driver takes over the volumes that were recorded, with the invariant of the manager and with
  gauges that agree with the database.
\<close>

section \<open>A disk that keeps its content\<close>

text \<open>
  What the construction of the driver relies on, beside \<open>host_laws\<close>: creating a directory, or a
  temporary one, changes nothing of the paths that exist, except the listings of those above it,
  and nothing exists at or below the path of a new temporary directory.
\<close>

locale persistent_host = host_laws +
  assumes mkdir_keeps:
      "clean_abs d \<Longrightarrow> clean_abs q \<Longrightarrow> \<not> below q d \<Longrightarrow> os_stat H h q = Inr k \<Longrightarrow>
       same_at H h (snd (os_mkdir_all H h d)) q"
    and temp_dir_keeps:
      "clean_abs d \<Longrightarrow> clean_abs q \<Longrightarrow> \<not> below q d \<Longrightarrow> os_stat H h q = Inr k \<Longrightarrow>
       same_at H h (snd (os_temp_dir H h d pat)) q"
    and temp_dir_new:
      "clean_abs d \<Longrightarrow> clean_abs q \<Longrightarrow> os_temp_dir H h d pat = (Inr p, h') \<Longrightarrow> below p q \<Longrightarrow>
       os_stat H h q \<noteq> Inr k"
begin

text \<open>A path that exists, and lies in a directory of the storage directory, is kept.\<close>

definition kept :: "'a \<Rightarrow> 'a \<Rightarrow> string \<Rightarrow> bool" where
  "kept h h' q \<longleftrightarrow> (\<forall>k. os_stat H h q = Inr k \<longrightarrow> same_at H h h' q)"

lemma kept_trans: "kept h1 h2 q \<Longrightarrow> kept h2 h3 q \<Longrightarrow> kept h1 h3 q"
  by (auto simp: kept_def same_at_def)

lemma kept_refl [simp]: "kept h h q"
  by (simp add: kept_def)

lemma kept_held: "kept h h' (store_path sdir i) \<Longrightarrow> held H sdir h i \<Longrightarrow> held H sdir h' i"
  by (auto simp: kept_def held_def dir_nonempty_True same_at_def)

lemma kept_mkdir: "clean_abs d \<Longrightarrow> clean_abs q \<Longrightarrow> \<not> below q d \<Longrightarrow> kept h (snd (os_mkdir_all H h d)) q"
  using mkdir_keeps by (auto simp: kept_def)

text \<open>The probe that tells whether the storage directory can be written leaves what is below it.\<close>

lemma storage_dir_keeps:
  assumes "createStorageDir H storage h = (Inr base, h')" "base \<noteq> []"
    and "plain x" "clean_abs q" "below (path_join [base, x]) q"
  shows "kept h h' q \<and> trim_space storage = base"
proof -
  obtain h1 h2 p where s: "os_mkdir_all H h base = (None, h1)" "os_temp_dir H h1 base ''.write-check-*'' = (Inr p, h2)"
      "h' = snd (os_remove_all H h2 p)" "trim_space storage = base"
    using assms(1,2) by (auto simp: createStorageDir_def Let_def split: if_splits prod.splits option.splits sum.splits)
  have b: "\<not> below q base" using not_below_join [OF base_clean assms(3)] below_trans [OF assms(5)] by blast
  obtain w where w: "plain w" "p = path_join [base, w]"
    using temp_dir_fresh [OF base_clean _ s(2)] by auto
  have "same_at H h2 h' q" if "os_stat H h1 q = Inr k" for k
  proof -
    have "\<not> below p q" using temp_dir_new [OF base_clean assms(4) s(2)] that by blast
    then have "w \<noteq> x" using assms(5) w(2) by blast
    then have "unrelated p q"
      using unrelated_siblings [OF base_clean w(1) assms(3) _ _ assms(5)] w base_clean assms(4)
      by (simp add: clean_abs_join)
    moreover have "below base q" using below_join [OF base_clean assms(3)] below_trans assms(5) by blast
    ultimately show ?thesis
      using remove_all_frame [of p q h2] s(3) w assms(4) base_clean by (simp add: clean_abs_join below_join)
  qed
  moreover have "same_at H h1 h2 q" if "os_stat H h1 q = Inr k" for k
    using temp_dir_keeps [OF base_clean assms(4) b that, of "''.write-check-*''"] s(2) by simp
  ultimately have "kept h1 h' q" by (auto simp: kept_def intro: same_at_trans)
  then show ?thesis using kept_mkdir [OF base_clean assms(4) b, of h] s(1,4) kept_trans by simp
qed

end

lemma mem_put_keeps:
  assumes "\<not> prefix (mem_words q) k"
  shows "same_at mem_host h (mem_put h k n) q"
proof (rule mem_same_at)
  have k: "mem_words q \<noteq> k" "\<not> child (mem_words q) k"
    using assms by (auto dest: child_prefix)
  show "map_of (mh_nodes (mem_put h k n)) (mem_words q) = map_of (mh_nodes h) (mem_words q)"
    using k map_of_filter_key [of "\<lambda>x. x \<noteq> k"] by (simp add: mem_put_def)
  show "children (mem_words q) (mh_nodes (mem_put h k n)) = children (mem_words q) (mh_nodes h)"
    using k children_filter [of "mem_words q" "\<lambda>x. x \<noteq> k"]
    by (auto simp: mem_put_def children_Cons)
qed

lemma mem_stat_listed: "mem_stat h q = Inr k \<Longrightarrow> \<exists>n. (mem_words q, n) \<in> set (mh_nodes h)"
  by (auto simp: mem_stat_def split: option.splits dest: map_of_SomeD)

lemma mem_temp_words:
  assumes "clean_abs d" "plain w"
  shows "mem_words (path_join [d, w]) = mem_words d @ [w]"
proof -
  obtain ds where d: "d = abs_path ds" "\<forall>u\<in>set ds. plain u" using assms(1) by (auto simp: clean_abs_iff)
  then have "path_join [d, w] = abs_path (ds @ [w])" using assms(2) by (simp add: path_join_abs)
  moreover have "clean_abs (path_join [d, w])" using assms by (rule clean_abs_join)
  ultimately show ?thesis using d assms by (simp add: mem_words_clean rel_words_abs)
qed

lemma mem_temp_fresh:
  assumes "mem_temp_dir h d pat = (Inr p, h')" "clean_abs d" "clean_abs q" "below p q"
  shows "mem_stat h q \<noteq> Inr k"
proof
  let ?k = "mem_words d @ [nat_name (mh_next h)]"
  assume "mem_stat h q = Inr k"
  then obtain n where "(mem_words q, n) \<in> set (mh_nodes h)" using mem_stat_listed by blast
  moreover have "p = path_join [d, nat_name (mh_next h)]"
      "\<forall>x\<in>set (mh_nodes h). \<not> prefix ?k (fst x)"
    using assms(1) by (auto simp: mem_temp_dir_def list_ex_iff split: if_splits)
  ultimately show False
    using assms(2-4) mem_below [of p q] mem_temp_words [OF assms(2) plain_nat_name] plain_nat_name
    by (auto simp: clean_abs_join)
qed

interpretation mem_disk: persistent_host mem_host mem_base
proof (unfold_locales, goal_cases)
  case (1 d q h k)
  then have "\<not> prefix (mem_words q) (mem_words d)" by (simp add: mem_below)
  then show ?case using mem_put_keeps by (simp add: mem_host_def mem_fail_def)
next
  case (2 d q h k pat)
  let ?k = "mem_words d @ [nat_name (mh_next h)]"
  have "\<not> prefix (mem_words q) ?k" if "\<forall>x\<in>set (mh_nodes h). \<not> prefix ?k (fst x)"
  proof -
    have "\<not> prefix (mem_words q) (mem_words d)" using 2 by (simp add: mem_below)
    moreover obtain n where "(mem_words q, n) \<in> set (mh_nodes h)"
      using mem_stat_listed [of h q k] 2(4) by (auto simp: mem_host_def)
    ultimately show ?thesis using that by auto
  qed
  then have "same_at mem_host h (snd (mem_temp_dir h d pat)) q"
    using mem_put_keeps [of q ?k h MDir] by (auto simp: mem_temp_dir_def same_at_next list_ex_iff)
  then show ?case by (simp add: mem_host_def)
next
  case (3 d q h pat p h' k)
  then show ?case using mem_temp_fresh [of h d pat p h' q k] by (simp add: mem_host_def)
qed

section \<open>Setting up the manager\<close>

definition set_up_host :: "'h host \<Rightarrow> string \<Rightarrow> 'h \<Rightarrow> 'h" where
  "set_up_host H base h =
     (let h1 = snd (os_mkdir_all H h (path_join [base, ScratchDirectory]));
          h2 = snd (os_mkdir_all H h1 (path_join [base, StoreDirectory]));
          h3 = snd (new_store H (path_join [base, StoreDirectory]) h2)
      in snd (os_mkdir_all H h3 (path_join [base, DatabaseDirectory])))"

lemma new_store_path: "new_store H p h = (Inr q, h') \<Longrightarrow> q = p"
  by (auto simp: new_store_def split: sum.splits if_splits prod.splits option.splits)

lemma set_up_result:
  assumes "set_up_manager M open_db base w = (Inr M', w')"
  shows "M' = M\<lparr>lm_scratchDir := path_join [base, ScratchDirectory],
        lm_store := path_join [base, StoreDirectory], lm_ttl := DefaultImageCacheTTL\<rparr> \<and>
      (\<exists>d f. NewDatabase (lm_json M) (lm_db M) open_db (path_join [base, DatabaseDirectory]) = (Inr d, f) \<and>
         w' = seed_metrics M' (w\<lparr>w_host := set_up_host (lm_fs M) base (w_host w), w_db := d, w_cache := Map.empty\<rparr>))"
  using assms
  by (auto simp: set_up_manager_def set_up_host_def NewImageCache_def Let_def dest!: new_store_path
      split: prod.splits option.splits sum.splits)

lemma seed_metrics_fields [simp]:
  "w_host (seed_metrics M w) = w_host w" "w_db (seed_metrics M w) = w_db w"
  "w_cache (seed_metrics M w) = w_cache w"
  by (auto simp: seed_metrics_def split: sum.splits)

lemma directory_names: "plain StoreDirectory" "plain ScratchDirectory" "plain DatabaseDirectory"
  "StoreDirectory \<noteq> ScratchDirectory" "StoreDirectory \<noteq> DatabaseDirectory"
  by code_simp+

context persistent_host
begin

lemma store_item_place:
  assumes "plain i"
  shows "clean_abs (store_path (path_join [base, StoreDirectory]) i)"
    "below (path_join [base, StoreDirectory]) (store_path (path_join [base, StoreDirectory]) i)"
    "plain x \<Longrightarrow> \<not> below (store_path (path_join [base, StoreDirectory]) i) (path_join [base, x])"
proof -
  let ?s = "path_join [base, StoreDirectory]"
  have s: "clean_abs ?s" using base_clean directory_names(1) by (rule clean_abs_join)
  then show "clean_abs (store_path ?s i)" "below ?s (store_path ?s i)"
    using assms by (simp_all add: store_path_def clean_abs_join below_join)
  assume x: "plain x"
  show "\<not> below (store_path ?s i) (path_join [base, x])"
  proof (cases "x = StoreDirectory")
    case True
    then show ?thesis using not_below_join [OF s assms] by (simp add: store_path_def)
  next
    case False
    have "unrelated (store_path ?s i) (path_join [base, x])"
      using unrelated_siblings [OF base_clean directory_names(1) x] False s assms x base_clean
      by (simp add: store_path_def clean_abs_join below_join)
    then show ?thesis by (simp add: unrelated_def)
  qed
qed

lemma set_up_keeps:
  assumes "set_up_manager M open_db base w = (Inr M', w')" "lm_fs M = H" "plain i"
    and "held H (path_join [base, StoreDirectory]) (w_host w) i"
  shows "held H (path_join [base, StoreDirectory]) (w_host w') i"
proof -
  let ?q = "store_path (path_join [base, StoreDirectory]) i"
  have mk: "kept h (snd (os_mkdir_all H h (path_join [base, x]))) ?q" if "plain x" for h x
    using store_item_place [OF assms(3)] that base_clean by (intro kept_mkdir) (simp_all add: clean_abs_join)
  have new: "kept h (snd (new_store H (path_join [base, StoreDirectory]) h)) ?q" for h
    using mk [OF directory_names(1), of h]
    by (auto simp: new_store_def split: sum.split prod.split option.split)
  have "kept (w_host w) (set_up_host H base (w_host w)) ?q"
    unfolding set_up_host_def Let_def
    by (rule kept_trans [OF kept_trans [OF kept_trans [OF mk mk] new] mk]) (simp_all add: directory_names)
  moreover have "w_host w' = set_up_host H base (w_host w)"
    using set_up_result [OF assms(1)] assms(2) by auto
  ultimately show ?thesis using kept_held assms(4) by simp
qed

end

text \<open>Opening the database of a driver that has been stopped.\<close>

lemma reopen_same:
  assumes "lib_database B J" "db_ok J B d" "same_data B d dbf"
    and "\<not> tx_bucket B dbf legacyLibraryMappingBucket" "\<not> tx_bucket B dbf legacyLibraryMetadataBucket"
    and "open_db (path_join [dir, DatabaseFileName]) = Inr dbf" "NewDatabase J B open_db dir = (Inr d', f)"
  shows "db_ok J B d' \<and> ledger_of J B d' = ledger_of J B d"
proof -
  let ?f = "\<lambda>t. and_then (migrate J B t) (\<lambda>t'. Inr ((), t'))"
  have "db_update B ?f dbf = (Inr (), d')"
    using assms(6,7) by (auto simp: NewDatabase_def split: prod.splits sum.splits)
  then obtain t where t: "migrate J B dbf = Inr t" "same_data B t d'"
    using bolt_laws.update_Inr [OF lib_database.axioms(1) [OF assms(1)]] by fastforce
  have dbf: "db_ok J B dbf" "ledger_of J B dbf = ledger_of J B d"
    using same_data_ok [OF assms(3)] same_data_ledger [OF assms(3)] assms(2) by simp_all
  have "db_ok J B t \<and> ledger_of J B t = ledger_of J B dbf"
    by (rule lib_database.migrate_again [OF assms(1) dbf(1) assms(4,5) t(1)])
  then show ?thesis using dbf(2) same_data_ok [OF t(2)] same_data_ledger [OF t(2)] by simp
qed

section \<open>The new driver\<close>

lemma new_driver_manager:
  assumes "newDatadogCSIDriver L name paths storage version apm regs w = (Inr (d, Some (s, lsn)), w')"
  shows "\<exists>base h keychain. createStorageDir (lm_fs (lib_base L)) storage (w_host w) = (Inr base, h) \<and> base \<noteq> [] \<and>
    lib_keychain L = Inr keychain \<and>
    set_up_manager
      ((lib_base L)\<lparr>lm_net := client_of L (driver_downloader (lib_http L) keychain), lm_strategy := delayed_Name\<rparr>)
      (lib_open_db L) base (w\<lparr>w_host := h\<rparr>) = (Inr (d_manager d), w') \<and>
    s = Delayed (NewDelayedCleanupStrategy cleanupDelay) \<and>
    lsn = NewLibraryListener (lib_prom L) (map_order L) \<and> d_has_manager d \<and>
    d_publisher d = GetPublishers paths base apm regs"
  using assms
  by (auto simp: newDatadogCSIDriver_def NewLibraryManager_def driver_options_def manager_defaults_def
      WithFilesystem_def WithDownloader_def WithCleanupStrategy_def set_strategy_def WithEventListener_def Let_def
      split: if_splits sum.splits prod.splits)

lemma new_manager_ok:
  assumes "host_laws H base" "lib_database B J"
    and "\<And>n img x n'. crane_digest (lm_net M) n img = (Inr x, n') \<Longrightarrow> has_prefix x ''sha256:'' \<Longrightarrow>
      plain (trim_prefix x ''sha256:'')"
    and "lm_fs M = H" "lm_db M = B" "lm_json M = J" "lm_store M = path_join [base, StoreDirectory]"
    and "lm_scratchDir M = path_join [base, ScratchDirectory]"
  shows "manager M base"
proof (rule manager.intro)
  have c: "clean_abs base" using host_laws.base_clean [OF assms(1)] .
  have s: "clean_abs (path_join [base, x])" "below base (path_join [base, x])" if "plain x" for x
    using that c by (simp_all add: clean_abs_join below_join)
  show "lib_database (lm_db M) (lm_json M)" using assms(2,5,6) by simp
  show "lib_store (lm_fs M) base (lm_store M)"
    using assms(1,4,7) s [OF directory_names(1)] by (simp add: lib_store_def lib_store_axioms_def)
  have "unrelated (lm_store M) (lm_scratchDir M)"
    unfolding assms(7,8) using directory_names s c
    by (intro unrelated_siblings [of base StoreDirectory ScratchDirectory]) simp_all
  then show "manager_axioms M base"
    using assms(3,8) s [OF directory_names(2)] by (auto simp: manager_axioms_def)
qed

text \<open>What the first report does to the gauge of a package.\<close>

lemma seeded_gauge:
  assumes "prometheus P" "listen P keys (s0, w0) (s, seed_metrics M w) m = Some m'" "w_log w = w_log w0"
    and "Snapshot (lm_json M) (lm_db M) (w_db w) = Inr snap"
    and "set (keys (CachedCountByLibrary snap)) = dom (CachedCountByLibrary snap)"
    and "set (keys (CachedBytesByLibrary snap)) = dom (CachedBytesByLibrary snap)"
    and "set (keys (VolumeLinksByLibrary snap)) = dom (VolumeLinksByLibrary snap)"
  shows "gauge_value P m' (mv_name libraryVolumeLinks) [p] = map_option float64 (VolumeLinksByLibrary snap p)"
proof -
  have "on_snapshot P keys snap m = Some m'"
    using assms(2-4) by (auto simp: listen_def seed_metrics_def note_act_def split: option.splits)
  then show ?thesis by (rule prometheus.snapshot_gauge(3) [OF assms(1) _ assms(5-7)])
qed

section \<open>Properties\<close>

text \<open>
  C3: A restart keeps the volumes: a driver that is built on the disk and the database file of
  another one, which was stopped or killed at a point where its manager was in order, has a manager
  in order again, with the same volumes and libraries, each ready to be mounted; nothing that
  the construction creates or probes touches them. And once its listener has seen the first report
  the gauge of a package shows the number of volumes linked to it, or nothing when there is none.
\<close>
theorem restart_keeps_volumes:
  assumes "persistent_host (lm_fs (lib_base L)) base" "lib_database (lm_db (lib_base L)) (lm_json (lib_base L))"
    and "\<And>dl n img x n'. crane_digest (client_of L dl) n img = (Inr x, n') \<Longrightarrow> has_prefix x ''sha256:'' \<Longrightarrow>
      plain (trim_prefix x ''sha256:'')"
    and "safe M w" "lm_fs M = lm_fs (lib_base L)" "lm_db M = lm_db (lib_base L)" "lm_json M = lm_json (lib_base L)"
    and "lm_store M = path_join [base, StoreDirectory]" "w_host w0 = w_host w" "trim_space storage = base"
    and "lib_open_db L (path_join [path_join [base, DatabaseDirectory], DatabaseFileName]) = Inr dbf"
    and "same_data (lm_db M) (w_db w) dbf" "\<not> tx_bucket (lm_db M) dbf legacyLibraryMappingBucket"
    and "\<not> tx_bucket (lm_db M) dbf legacyLibraryMetadataBucket"
    and "newDatadogCSIDriver L name paths storage version apm regs w0 = (Inr (d, Some (s, lsn)), w')"
  shows "manager (d_manager d) base \<and> mgr_ok (d_manager d) (s, w') \<and>
    lm_ledger (d_manager d) w' = lm_ledger M w \<and> d_publisher d = GetPublishers paths base apm regs \<and>
    (prometheus (lib_prom L) \<and> p \<noteq> [] \<and> Snapshot (lm_json M) (lm_db M) (w_db w') = Inr snap \<and>
       tx_begin (lm_db M) (w_db w') = None \<and>
       set (map_order L (CachedCountByLibrary snap)) = dom (CachedCountByLibrary snap) \<and>
       set (map_order L (CachedBytesByLibrary snap)) = dom (CachedBytesByLibrary snap) \<and>
       set (map_order L (VolumeLinksByLibrary snap)) = dom (VolumeLinksByLibrary snap) \<and>
       listen (lib_prom L) (map_order L) (s, w0) (s, w') m = Some m' \<longrightarrow>
     gauge_value (lib_prom L) m' (mv_name libraryVolumeLinks) [p] =
       (if VolumeLinksByLibrary snap p = None then None else Some (float64 (links_of M w p))) \<and>
     (VolumeLinksByLibrary snap p = None \<longrightarrow> links_of M w p = 0))"
proof -
  let ?H = "lm_fs (lib_base L)" and ?s = "path_join [base, StoreDirectory]" and ?N = "d_manager d"
  have host: "host_laws ?H base" using persistent_host.axioms(1) [OF assms(1)] .
  obtain b h kc where n: "createStorageDir ?H storage (w_host w0) = (Inr b, h)" "b \<noteq> []"
      "set_up_manager ((lib_base L)\<lparr>lm_net := client_of L (driver_downloader (lib_http L) kc), lm_strategy := delayed_Name\<rparr>)
         (lib_open_db L) b (w0\<lparr>w_host := h\<rparr>) = (Inr ?N, w')"
      "s = Delayed (NewDelayedCleanupStrategy cleanupDelay)" "d_publisher d = GetPublishers paths b apm regs"
    using new_driver_manager [OF assms(15)] by blast
  have b: "b = base"
    using n(1,2) assms(10) by (auto simp: createStorageDir_def Let_def split: if_splits prod.splits option.splits sum.splits)
  note u = set_up_result [OF n(3) [unfolded b]]
  then obtain db f where u1: "NewDatabase (lm_json (lib_base L)) (lm_db (lib_base L)) (lib_open_db L)
        (path_join [base, DatabaseDirectory]) = (Inr db, f)"
      "w' = seed_metrics ?N (w0\<lparr>w_host := set_up_host ?H base h, w_db := db, w_cache := Map.empty\<rparr>)"
    by auto
  have N: "lm_fs ?N = ?H" "lm_db ?N = lm_db M" "lm_json ?N = lm_json M" "lm_store ?N = ?s"
      "lm_scratchDir ?N = path_join [base, ScratchDirectory]" "lm_net ?N = client_of L (driver_downloader (lib_http L) kc)"
    using u assms(5-7) by auto
  have old: "db_ok (lm_json M) (lm_db M) (w_db w)" "consistent (lm_ledger M w)" "links_held M w"
    using assms(4) by (simp_all add: safe_def)
  have db: "db_ok (lm_json M) (lm_db M) (w_db w') \<and> lm_ledger ?N w' = lm_ledger M w"
    using reopen_same [OF assms(2) _ _ _ _ assms(11) u1(1)] assms(6,7,12-14) old(1) N u1(2) by auto
  have "held ?H ?s (w_host w') i" if "plain i" "held ?H ?s (w_host w) i" for i
  proof -
    have place: "clean_abs (store_path ?s i)" "below ?s (store_path ?s i)"
      using persistent_host.store_item_place [OF assms(1) that(1)] by blast+
    have "persistent_host.kept ?H (w_host w) h (store_path ?s i)"
      using persistent_host.storage_dir_keeps [OF assms(1) n(1) [unfolded b] _ directory_names(1) place] n(2) b assms(9)
      by simp
    then have "held ?H ?s h i" using persistent_host.kept_held [OF assms(1)] that(2) by blast
    then show ?thesis
      using persistent_host.set_up_keeps [OF assms(1) n(3) [unfolded b] _ that(1)] by simp
  qed
  then have "links_held ?N w'" using old(3) db N assms(5,8) by (auto simp: links_held_def)
  then have safe: "safe ?N w'" using db old(2) N u1(2) by (simp add: safe_def cache_for_def)
  have "delayed_ok (NewDelayedCleanupStrategy cleanupDelay)"
       "delayed_for plain (NewDelayedCleanupStrategy cleanupDelay)"
    by (simp_all add: delayed_ok_def delayed_for_def NewDelayedCleanupStrategy_def)
  then have ok: "mgr_ok ?N (s, w')" using safe n(4) by (simp add: mgr_ok_def)
  have mgr: "manager ?N base"
    by (rule new_manager_ok [OF host assms(2)]) (use assms(3,6,7) N in \<open>auto\<close>)
  have "gauge_value (lib_prom L) m' (mv_name libraryVolumeLinks) [p] =
       (if VolumeLinksByLibrary snap p = None then None else Some (float64 (links_of M w p))) \<and>
     (VolumeLinksByLibrary snap p = None \<longrightarrow> links_of M w p = 0)"
    if g: "prometheus (lib_prom L)" "p \<noteq> []" "Snapshot (lm_json M) (lm_db M) (w_db w') = Inr snap"
      "tx_begin (lm_db M) (w_db w') = None"
      "set (map_order L (CachedCountByLibrary snap)) = dom (CachedCountByLibrary snap)"
      "set (map_order L (CachedBytesByLibrary snap)) = dom (CachedBytesByLibrary snap)"
      "set (map_order L (VolumeLinksByLibrary snap)) = dom (VolumeLinksByLibrary snap)"
      "listen (lib_prom L) (map_order L) (s, w0) (s, w') m = Some m'"
  proof -
    have "gauge_value (lib_prom L) m' (mv_name libraryVolumeLinks) [p] = map_option float64 (VolumeLinksByLibrary snap p)"
      by (rule seeded_gauge [OF g(1) g(8) [unfolded u1(2)] _ _ g(5-7)]) (use g(3) N u1(2) in simp_all)
    moreover have "packageStats ?N p w' = (map_index (CachedCountByLibrary snap) p,
        map_index (CachedBytesByLibrary snap) p, map_index (VolumeLinksByLibrary snap) p)"
      using g(3) N by (simp add: packageStats_def)
    then have "map_index (VolumeLinksByLibrary snap) p = links_of ?N w' p"
      using manager.stats_links [OF mgr _ safe _ g(2)] g(4) N by simp
    moreover have "links_of ?N w' p = links_of M w p" using db by (simp add: links_of_def)
    ultimately show ?thesis by (auto simp: map_index_def split: option.splits)
  qed
  then show ?thesis using mgr ok db n(5) b by blast
qed

definition restarted where
  "restarted = newDatadogCSIDriver (demo_libs (Inr None)) CSIDriverName node_paths ''/d'' ''dev'' True [] demo_world"

theorem restart_keeps_volumes_witness:
  "\<exists>d s l w'. restarted = (Inr (d, Some (s, l)), w') \<and> mgr_ok (d_manager d) (s, w') \<and>
     lm_ledger (d_manager d) w' = lm_ledger mem_manager demo_world"
proof -
  have "case fst restarted of Inr (d, Some (s, l)) \<Rightarrow> True | _ \<Rightarrow> False" by code_simp
  then obtain d s l where "fst restarted = Inr (d, Some (s, l))"
    by (auto split: sum.splits prod.splits option.splits)
  then obtain w' where run: "newDatadogCSIDriver (demo_libs (Inr None)) CSIDriverName node_paths ''/d'' ''dev''
        True [] demo_world = (Inr (d, Some (s, l)), w')"
    by (metis restarted_def prod.collapse)
  let ?L = "demo_libs (Inr None)"
  have L: "lib_base ?L = mem_manager" "\<And>dl. client_of ?L dl = mem_network" "lib_open_db ?L = (\<lambda>p. Inr demo_db)"
    by (simp_all add: demo_libs_def client_of_def)
  have store: "lm_store mem_manager = path_join [mem_base, StoreDirectory]" by code_simp
  have "trim_space ''/d'' = ''/d''" by (rule trim_graphic) (simp add: graphic_def)
  then have base: "trim_space ''/d'' = mem_base" by (simp add: mem_base_def)
  have dbf: "\<not> tx_bucket mem_bolt demo_db legacyLibraryMappingBucket"
      "\<not> tx_bucket mem_bolt demo_db legacyLibraryMetadataBucket"
    by code_simp+
  have "mgr_ok (d_manager d) (s, w') \<and> lm_ledger (d_manager d) w' = lm_ledger mem_manager demo_world"
    using restart_keeps_volumes [OF _ _ _ demo_safe _ _ _ store _ base _ _ _ _ run, of demo_db]
      mem_disk.persistent_host_axioms mem_tracker.lib_database_axioms mem_digest_plain dbf
    by (simp add: L demo_world_def)
  then show ?thesis using run by (auto simp: restarted_def)
qed

end
