(* ===== verification/Lib_Conc_Alone.thy ===== *)
theory Lib_Conc_Alone
  imports Lib_Conc
begin

text \<open>
  The statements of \<open>Lib_Conc\<close> are the operations of \<open>Lib_Manager\<close> cut into pieces: a goroutine
  that runs alone does exactly what the whole operation does, so everything shown of the operations
  holds of calls that do not overlap, and the two models describe one program.
\<close>

section \<open>Running to the end\<close>

definition leads :: "('a \<Rightarrow> 'a) \<Rightarrow> 'a \<Rightarrow> 'a \<Rightarrow> bool" where
  "leads f x y \<longleftrightarrow> (\<exists>n. (f ^^ n) x = y)"

lemma leads_refl: "leads f x x"
  unfolding leads_def by (rule exI [of _ 0]) simp

lemma leads_step: "leads f (f x) y \<Longrightarrow> leads f x y"
  unfolding leads_def by (metis comp_apply funpow_Suc_right)

lemma leads_trans: "leads f x y \<Longrightarrow> leads f y z \<Longrightarrow> leads f x z"
  unfolding leads_def by (metis comp_apply funpow_add)

lemma leads_one: "f x = y \<Longrightarrow> leads f x y"
  by (rule leads_step) (simp add: leads_refl)

text \<open>A run is seen in a larger state, as long as the smaller one has not come to rest.\<close>

lemma leads_lift:
  assumes "leads f x y" "\<And>x. f x \<noteq> x \<Longrightarrow> g (h x) = h (f x)"
  shows "leads g (h x) (h y)"
proof -
  have "leads g (h x) (h ((f ^^ n) x))" for n x
  proof (induction n arbitrary: x)
    case 0
    then show ?case by (simp add: leads_refl)
  next
    case (Suc n)
    have eq: "(f ^^ Suc n) x = (f ^^ n) (f x)" by (simp only: funpow_Suc_right comp_apply)
    show ?case
    proof (cases "f x = x")
      case True
      then show ?thesis using Suc [of x] eq by simp
    next
      case False
      from Suc [of "f x"] show ?thesis
        unfolding eq by - (rule leads_step, simp only: assms(2) [OF False])
    qed
  qed
  then show ?thesis using assms(1) by (auto simp: leads_def)
qed

section \<open>A cleanup\<close>

abbreviation clean_run ::
  "('h, 'r, 'd, 'n) library_manager \<Rightarrow> string \<Rightarrow> clean_pc \<times> ('h, 'd, 'n) world \<Rightarrow> clean_pc \<times> ('h, 'd, 'n) world" where
  "clean_run M l \<equiv> (\<lambda>(p, w). clean_act M l p w)"

lemma remove_alone:
  assumes "remove_unused M l info w = (r, w')"
  shows "leads (clean_run M l) (CleanStore info, w) (CleanUnlock r, w')"
proof -
  obtain sr h where st: "store_remove (lm_fs M) (lm_store M) (w_host w) l = (sr, h)" by force
  show ?thesis
  proof (cases sr)
    case (Inl e)
    then show ?thesis using assms st by (intro leads_one) (auto simp: remove_unused_def)
  next
    case (Inr u)
    obtain rr d where rl: "RemoveLibrary (lm_db M) l (w_db w) = (rr, d)" by force
    obtain n b k where ps: "packageStats M (Package info) (w\<lparr>w_host := h, w_db := d\<rparr>) = (n, b, k)"
      using prod_cases3 by blast
    have "leads (clean_run M l) (CleanDb info, w\<lparr>w_host := h\<rparr>) (CleanUnlock r, w')"
    proof (cases "rr \<noteq> Inr () \<or> Package info = []")
      case True
      then show ?thesis
        using assms st Inr rl by (intro leads_one) (cases rr; auto simp: remove_unused_def)
    next
      case False
      then have "leads (clean_run M l) (EvictStats info, w\<lparr>w_host := h, w_db := d\<rparr>) (CleanUnlock r, w')"
        using assms st Inr rl ps
        by (intro leads_step [of "clean_run M l" "(EvictStats info, _)"] leads_one)
           (auto simp: remove_unused_def)
      then show ?thesis using False rl by (intro leads_step [of "clean_run M l" "(CleanDb info, _)"]) (cases rr; simp)
    qed
    then show ?thesis using st Inr by (intro leads_step [of "clean_run M l" "(CleanStore info, w)"]) simp
  qed
qed

lemma clean_alone:
  assumes "tryCleanupLibrary M l w = (r, w')"
  shows "leads (clean_run M l) (CleanLock, w) (CleanReturned r, w')"
proof -
  let ?w = "note_act (LockAct l) w"
  obtain w1 where w1: "try_cleanup M l ?w = (r, w1)" "w' = note_act (UnlockAct l) w1"
    using with_lock_result [of l "try_cleanup M l" w r w'] assms by (auto simp: tryCleanupLibrary_def)
  have "leads (clean_run M l) (CleanCheck, ?w) (CleanUnlock r, w1)"
  proof (cases "GetLibrary (lm_json M) (lm_db M) l (w_db w)")
    case (Inl e)
    then show ?thesis using w1 by (intro leads_one) (auto simp: try_cleanup_def)
  next
    case (Inr q)
    obtain info found where q: "q = (info, found)" by force
    show ?thesis
    proof (cases "VolumeCount info > 0")
      case True
      then show ?thesis using w1 Inr q by (intro leads_one) (auto simp: try_cleanup_def)
    next
      case False
      then have "remove_unused M l info ?w = (r, w1)" using w1(1) Inr q by (simp add: try_cleanup_def)
      from remove_alone [OF this] show ?thesis
        using False Inr q by (intro leads_step [of "clean_run M l" "(CleanCheck, ?w)"]) simp
    qed
  qed
  moreover have "leads (clean_run M l) (CleanUnlock r, w1) (CleanReturned r, w')"
    using w1(2) by (intro leads_one) simp
  ultimately have "leads (clean_run M l) (CleanCheck, ?w) (CleanReturned r, w')" by (rule leads_trans)
  then show ?thesis by (intro leads_step [of "clean_run M l" "(CleanLock, w)"]) simp
qed

section \<open>A publish\<close>

abbreviation get_run ::
  "('h, 'r, 'd, 'n) library_manager \<Rightarrow> string \<Rightarrow> library \<Rightarrow> get_pc \<times> ('h, 'd, 'n) world \<Rightarrow>
   get_pc \<times> ('h, 'd, 'n) world" where
  "get_run M v lib \<equiv> (\<lambda>(p, w). get_act M v lib p w)"

text \<open>One step, then the rest of the run.\<close>

lemma get_then:
  "get_act M v lib p w = (p1, w1) \<Longrightarrow> leads (get_run M v lib) (p1, w1) z \<Longrightarrow> leads (get_run M v lib) (p, w) z"
  by (rule leads_step) simp

lemma get_last: "get_act M v lib p w = z \<Longrightarrow> leads (get_run M v lib) (p, w) z"
  by (rule leads_one) simp

fun after_download :: "bool \<Rightarrow> string \<Rightarrow> (string \<times> int) res \<Rightarrow> get_pc" where
  "after_download fresh l (Inl e) = GetUnlockLib l (Inl e)"
| "after_download fresh l (Inr (path, n)) =
     (if fresh then Record l path n else GetUnlockLib l (Inr (path, ResolutionDownloaded)))"

lemma download_alone:
  assumes "downloadToStore M l lib img w = (r, w')"
  shows "leads (get_run M v lib) (Downloading fresh l (TempDir img), w) (after_download fresh l r, w')"
proof -
  obtain temp h where t: "os_temp_dir (lm_fs M) (w_host w) (lm_scratchDir M) ''datadog-csi-driver-*'' = (temp, h)"
    by force
  show ?thesis
  proof (cases temp)
    case (Inl e)
    then show ?thesis using assms t by (intro get_last) (auto simp: downloadToStore_def)
  next
    case (Inr p)
    let ?w1 = "w\<lparr>w_host := h\<rparr>"
    obtain w2 where w2: "download_into M l lib img p ?w1 = (r, w2)"
        "w' = w2\<lparr>w_host := snd (os_remove_all (lm_fs M) (w_host w2) p)\<rparr>"
      using assms t Inr by (auto simp: downloadToStore_def split: prod.splits)
    obtain t0 w3 where w3: "clock M ?w1 = (t0, w3)" by force
    obtain dr h1 n1 where d: "Download (lm_fs M) (lm_net M) (lm_getwd M) img p (w_host w3) (w_net w3) = (dr, h1, n1)"
      using prod_cases3 by blast
    have clean: "leads (get_run M v lib) (Downloading fresh l (CleanScratch p r), w2) (after_download fresh l r, w')"
      using w2(2) by (intro get_last) (cases r; auto)
    have "leads (get_run M v lib) (Downloading fresh l (Fetch img p), ?w1) (Downloading fresh l (CleanScratch p r), w2)"
    proof (cases dr)
      case (Inl e)
      then show ?thesis using w2(1) w3 d by (intro get_last) (auto simp: download_into_def)
    next
      case (Inr bytes)
      obtain t1 w4 where w4: "clock M (w3\<lparr>w_host := h1, w_net := n1\<rparr>) = (t1, w4)" by force
      define w5 where "w5 = note_act (Emit (OnLibraryDownload (lib_name lib) (lib_registry lib) (t1 - t0))) w4"
      have "get_act M v lib (Downloading fresh l (Fetch img p)) ?w1 = (Downloading fresh l (StoreAdd p bytes), w5)"
        using w3 d Inr w4 by (simp add: w5_def)
      moreover have "get_act M v lib (Downloading fresh l (StoreAdd p bytes)) w5 =
          (Downloading fresh l (CleanScratch p r), w2)"
        using w2(1) w3 d Inr w4 by (auto simp: download_into_def w5_def split: prod.splits)
      ultimately show ?thesis by (blast intro: get_then get_last)
    qed
    then have "leads (get_run M v lib) (Downloading fresh l (Fetch img p), ?w1) (after_download fresh l r, w')"
      using clean by (rule leads_trans)
    then show ?thesis using t Inr by (intro get_then [of M v lib "Downloading fresh l (TempDir img)"]) auto
  qed
qed

lemma link_alone:
  assumes "linkVolume M l v (lib_name lib) (res = ResolutionCacheHit) w = (r, w')"
  shows "leads (get_run M v lib) (Link l path res, w) (GetUnlockLib l (map_sum id (\<lambda>_. (path, res)) r), w')"
proof -
  obtain now w1 where w1: "clock M w = (now, w1)" by force
  obtain lr d where d: "LinkVolume (lm_json M) (lm_db M) now l v (res = ResolutionCacheHit) (w_db w1) = (lr, d)"
    by force
  obtain a b n where ps: "packageStats M (lib_name lib) (w1\<lparr>w_db := d\<rparr>) = (a, b, n)" using prod_cases3 by blast
  show ?thesis
  proof (cases lr)
    case (Inl e)
    then show ?thesis using assms w1 d by (intro get_last) (auto simp: linkVolume_def)
  next
    case (Inr u)
    have "get_act M v lib (Link l path res) w = (LinkStats l path res, w1\<lparr>w_db := d\<rparr>)"
      using w1 d Inr by simp
    moreover have "get_act M v lib (LinkStats l path res) (w1\<lparr>w_db := d\<rparr>) =
        (LinkEmit l path res n, w1\<lparr>w_db := d\<rparr>)"
      using ps by simp
    moreover have "get_act M v lib (LinkEmit l path res n) (w1\<lparr>w_db := d\<rparr>) =
        (GetUnlockLib l (map_sum id (\<lambda>_. (path, res)) r), w')"
      using assms w1 d Inr ps by (auto simp: linkVolume_def)
    ultimately show ?thesis by (blast intro: get_then get_last)
  qed
qed

lemma new_alone:
  assumes "resolve_new M l v lib w = (r, w')"
  shows "leads (get_run M v lib) (NewStored l, w) (GetUnlockLib l r, w')"
proof (cases "stored_path M l w")
  case (Inl e)
  then show ?thesis using assms by (intro get_last) (auto simp: resolve_new_def)
next
  case (Inr path)
  show ?thesis
  proof (cases "path = []")
    case False
    obtain lr w1 where lk: "linkVolume M l v (lib_name lib) True w = (lr, w1)" by force
    have "leads (get_run M v lib) (Link l path ResolutionCacheHit, w) (GetUnlockLib l r, w')"
      using link_alone [of M l v lib ResolutionCacheHit w lr w1 path] assms Inr False lk
      by (cases lr) (auto simp: resolve_new_def)
    then show ?thesis using Inr False by (intro get_then [of M v lib "NewStored l"]) auto
  next
    case True
    then have dl: "download_and_link M l v lib w = (r, w')" using assms Inr by (simp add: resolve_new_def)
    obtain dr w1 where d: "downloadToStore M l lib (Image lib) w = (dr, w1)" by force
    have "leads (get_run M v lib) (after_download True l dr, w1) (GetUnlockLib l r, w')"
    proof (cases dr)
      case (Inl e)
      then show ?thesis using dl d by (auto simp: download_and_link_def leads_refl)
    next
      case (Inr q)
      obtain path' bytes where q: "q = (path', bytes)" by force
      obtain ar db where a: "AddLibrary (lm_json M) (lm_db M) l (lib_name lib) bytes (w_db w1) = (ar, db)" by force
      show ?thesis
      proof (cases ar)
        case Inl': (Inl e)
        then show ?thesis
          using dl d Inr q a by (auto simp: download_and_link_def intro!: get_last)
      next
        case Inr': (Inr u)
        let ?w2 = "w1\<lparr>w_db := db\<rparr>"
        obtain c t k where st: "packageStats M (lib_name lib) ?w2 = (c, t, k)" using prod_cases3 by blast
        let ?w3 = "note_act (Emit (OnLibraryCached (lib_name lib) c t)) ?w2"
        obtain lr w4 where l4: "linkVolume M l v (lib_name lib) False ?w3 = (lr, w4)" by force
        have r: "r = map_sum id (\<lambda>_. (path', ResolutionDownloaded)) lr" "w' = w4"
          using dl d Inr q a Inr' st l4 by (cases lr; auto simp: download_and_link_def)+
        have "leads (get_run M v lib) (Link l path' ResolutionDownloaded, ?w3) (GetUnlockLib l r, w')"
          using link_alone [of M l v lib ResolutionDownloaded ?w3 lr w4 path'] l4 r by simp
        moreover have "get_act M v lib (Record l path' bytes) w1 = (RecordStats l path', ?w2)"
          using a Inr' by simp
        moreover have "get_act M v lib (RecordStats l path') ?w2 = (RecordEmit l path' c t, ?w2)" using st by simp
        moreover have "get_act M v lib (RecordEmit l path' c t) ?w2 = (Link l path' ResolutionDownloaded, ?w3)" by simp
        ultimately show ?thesis unfolding Inr q after_download.simps if_True by (blast intro: get_then)
      qed
    qed
    with download_alone [OF d]
    have "leads (get_run M v lib) (Downloading True l (TempDir (Image lib)), w) (GetUnlockLib l r, w')"
      by (rule leads_trans)
    then show ?thesis using Inr True by (intro get_then [of M v lib "NewStored l"]) auto
  qed
qed

lemma reuse_alone:
  assumes "reuse_linked M l lib w = (r, w')"
  shows "leads (get_run M v lib) (ReuseStored l, w) (GetUnlockLib l r, w')"
proof (cases "stored_path M l w")
  case (Inl e)
  then show ?thesis using assms by (intro get_last) (auto simp: reuse_linked_def)
next
  case (Inr path)
  show ?thesis
  proof (cases "path = []")
    case False
    then show ?thesis using assms Inr by (intro get_last) (auto simp: reuse_linked_def)
  next
    case True
    define img where "img = lib_registry lib @ ''/'' @ lib_name lib @ ''@sha256:'' @ l"
    obtain dr w1 where d: "downloadToStore M l lib img w = (dr, w1)" by force
    have "after_download False l dr = GetUnlockLib l r" "w1 = w'"
      using assms Inr True d by (cases dr; auto simp: reuse_linked_def img_def)+
    then have "leads (get_run M v lib) (Downloading False l (TempDir img), w) (GetUnlockLib l r, w')"
      using download_alone [OF d, of v False] by simp
    then show ?thesis using Inr True by (intro get_then [of M v lib "ReuseStored l"]) (auto simp: img_def)
  qed
qed

lemma locked_alone:
  assumes "with_lock l f w = (r, w')" "\<And>w1 r w2. f w1 = (r, w2) \<Longrightarrow>
      leads (get_run M v lib) (p, w1) (GetUnlockLib l r, w2)"
    and "\<And>w1. get_act M v lib p0 w1 = (p, note_act (LockAct l) w1)"
  shows "leads (get_run M v lib) (p0, w) (GetUnlockVol r, w')"
proof -
  obtain w1 where w1: "f (note_act (LockAct l) w) = (r, w1)" "w' = note_act (UnlockAct l) w1"
    using with_lock_result [OF assms(1)] by blast
  have "leads (get_run M v lib) (p, note_act (LockAct l) w) (GetUnlockLib l r, w1)" by (rule assms(2) [OF w1(1)])
  moreover have "leads (get_run M v lib) (GetUnlockLib l r, w1) (GetUnlockVol r, w')"
    using w1(2) by (intro get_last) simp
  ultimately have "leads (get_run M v lib) (p, note_act (LockAct l) w) (GetUnlockVol r, w')" by (rule leads_trans)
  then show ?thesis by (rule get_then [OF assms(3)])
qed

lemma resolve_alone:
  assumes "resolve_volume M v lib w = (r, w')"
  shows "leads (get_run M v lib) (GetVolume, w) (GetUnlockVol r, w')"
proof (cases "db_GetLibraryForVolume (lm_json M) (lm_db M) v (w_db w)")
  case (Inl e)
  then show ?thesis using assms by (intro get_last) (auto simp: resolve_volume_def)
next
  case (Inr l)
  show ?thesis
  proof (cases "l = []")
    case False
    then have "with_lock l (reuse_linked M l lib) w = (r, w')" using assms Inr by (simp add: resolve_volume_def)
    then have "leads (get_run M v lib) (ReuseLock l, w) (GetUnlockVol r, w')"
      by (rule locked_alone [where p = "ReuseStored l"]) (simp_all add: reuse_alone)
    then show ?thesis using Inr False by (intro get_then [of M v lib GetVolume]) auto
  next
    case True
    let ?img = "Image lib"
    obtain fr c n where f: "FetchDigest (lm_net M) (lm_ttl M) ?img (lib_pull lib) (w_cache w) (w_net w) = (fr, c, n)"
      using prod_cases3 by blast
    let ?w1 = "w\<lparr>w_cache := c, w_net := n\<rparr>"
    define p where "p = (case fr of Inl e \<Rightarrow> GetUnlockVol (Inl (Wrapf ''could not determine library ID: %w'' [] e))
      | Inr d \<Rightarrow> NewLock d)"
    have digest: "leads (get_run M v lib) (DigestLookup, w) (p, ?w1)"
    proof (cases "parse_reference (lm_net M) ?img")
      case (Some e)
      then show ?thesis using f by (intro get_last) (auto simp: FetchDigest_def p_def)
    next
      case None
      obtain d c1 n1 where k: "cache_lookup (lm_net M) (lib_pull lib) ?img (w_cache w) (w_net w) = (d, c1, n1)"
        using prod_cases3 by blast
      show ?thesis
      proof (cases "d = []")
        case False
        then show ?thesis using None k f by (intro get_last) (auto simp: FetchDigest_def p_def)
      next
        case d: True
        let ?w2 = "w\<lparr>w_cache := c1, w_net := n1\<rparr>"
        obtain dr n2 where g: "downloader_FetchDigest (lm_net M) ?img n1 = (dr, n2)" by force
        have first: "get_act M v lib DigestLookup w = (DigestFetch, ?w2)" using None k d by simp
        have "leads (get_run M v lib) (DigestFetch, ?w2) (p, ?w1)"
        proof (cases dr)
          case (Inl e)
          then show ?thesis using None k d f g by (intro get_last) (auto simp: FetchDigest_def p_def)
        next
          case (Inr x)
          obtain now n3 where t: "time_now (lm_net M) n2 = (now, n3)" by force
          have "get_act M v lib DigestFetch ?w2 = (DigestCache x, ?w2\<lparr>w_net := n2\<rparr>)" using g Inr by simp
          moreover have "get_act M v lib (DigestCache x) (?w2\<lparr>w_net := n2\<rparr>) = (p, ?w1)"
            using None k d f g t Inr by (auto simp: FetchDigest_def p_def)
          ultimately show ?thesis by (blast intro: get_then get_last)
        qed
        then show ?thesis by (rule get_then [OF first])
      qed
    qed
    have rest: "leads (get_run M v lib) (p, ?w1) (GetUnlockVol r, w')"
    proof (cases fr)
      case (Inl e)
      then show ?thesis using assms Inr True f by (auto simp: resolve_volume_def p_def leads_refl)
    next
      case fd: (Inr d)
      then have "with_lock d (resolve_new M d v lib) ?w1 = (r, w')"
        using assms Inr True f by (simp add: resolve_volume_def)
      then have "leads (get_run M v lib) (NewLock d, ?w1) (GetUnlockVol r, w')"
        by (rule locked_alone [where p = "NewStored d"]) (simp_all add: new_alone)
      then show ?thesis by (simp add: p_def fd)
    qed
    have "get_act M v lib GetVolume w = (DigestLookup, w)" using Inr True by simp
    then show ?thesis using leads_trans [OF digest rest] by (rule get_then)
  qed
qed

section \<open>An unpublish\<close>

abbreviation remove_run ::
  "('h, 'r, 'd, 'n) library_manager \<Rightarrow> string \<Rightarrow> remove_pc \<times> strategy \<times> ('h, 'd, 'n) world \<Rightarrow>
   remove_pc \<times> strategy \<times> ('h, 'd, 'n) world" where
  "remove_run M v \<equiv> (\<lambda>(p, s, w). remove_act M v p (s, w))"

lemma remove_then:
  "remove_act M v p (s, w) = (p1, s1, w1) \<Longrightarrow> leads (remove_run M v) (p1, s1, w1) z \<Longrightarrow>
   leads (remove_run M v) (p, s, w) z"
  by (rule leads_step) simp

lemma cleanup_inside_alone:
  assumes "tryCleanupLibrary M l w = (r, w')"
  shows "leads (remove_run M v) (Cleanup l CleanLock, s, w) (RemUnlockVol (Inr ()), s, w')"
proof -
  have "leads (remove_run M v) ((\<lambda>(p, w). (Cleanup l p, s, w)) (CleanLock, w))
      ((\<lambda>(p, w). (Cleanup l p, s, w)) (CleanReturned r, w'))"
  proof (rule leads_lift [OF clean_alone [OF assms]])
    fix x :: "clean_pc \<times> ('a, 'b, 'c) world"
    assume "clean_run M l x \<noteq> x"
    then show "remove_run M v ((\<lambda>(p, w). (Cleanup l p, s, w)) x) = (\<lambda>(p, w). (Cleanup l p, s, w)) (clean_run M l x)"
      by (cases x; cases "fst x") (auto split: prod.splits)
  qed
  then have "leads (remove_run M v) (Cleanup l CleanLock, s, w) (Cleanup l (CleanReturned r), s, w')" by simp
  then show ?thesis by (rule leads_trans) (rule leads_one, simp)
qed

text \<open>Scheduling with a delay does not look at the world.\<close>

lemma schedule_without_call:
  "\<not> stopped s \<Longrightarrow>
   delayed_ScheduleCleanup call f l (s, w) = (fst (delayed_ScheduleCleanup no_call f l (s, ())), w)"
  by (simp add: delayed_ScheduleCleanup_def Let_def split: prod.split)

lemma schedule_alone:
  assumes "ScheduleCleanup (cleanup_call M) () l (s, w) = (s', w')"
  shows "leads (remove_run M v) (Schedule l, s, w) (RemUnlockVol (Inr ()), s', w')"
proof (cases "\<exists>d. s = Delayed d \<and> \<not> stopped d")
  case True
  then obtain d where d: "s = Delayed d" "\<not> stopped d" by blast
  then show ?thesis
    using assms schedule_without_call [OF d(2), of "cleanup_call M" "()" l w] by (intro leads_one) simp
next
  case False
  have "w' = snd (tryCleanupLibrary M l w)" "s' = s"
    using assms False
    by (cases s; auto simp: immediate_ScheduleCleanup_def delayed_ScheduleCleanup_def cleanup_call_def)+
  then obtain r where "tryCleanupLibrary M l w = (r, w')" "s' = s" by (metis prod.collapse)
  moreover have "remove_act M v (Schedule l) (s, w) = (Cleanup l CleanLock, s, w)"
    using False by (cases s) auto
  ultimately show ?thesis using cleanup_inside_alone by (blast intro: remove_then)
qed

lemma unlink_alone:
  assumes "remove_volume M v s w = ((r, s'), w')"
  shows "leads (remove_run M v) (Unlink, s, w) (RemUnlockVol r, s', w')"
proof -
  obtain ur d where u: "UnlinkVolume (lm_json M) (lm_db M) v (w_db w) = (ur, d)" by force
  let ?w1 = "w\<lparr>w_db := d\<rparr>"
  show ?thesis
  proof (cases "\<exists>l p. ur = Inr (l, p) \<and> l \<noteq> []")
    case False
    then show ?thesis
      using assms u by (intro leads_one) (cases ur; auto simp: remove_volume_def)
  next
    case True
    then obtain l p where lp: "ur = Inr (l, p)" "l \<noteq> []" by blast
    obtain a b n where ps: "packageStats M p ?w1 = (a, b, n)" using prod_cases3 by blast
    define w2 where "w2 = (if p \<noteq> [] then note_act (Emit (OnVolumeUnlinked p n)) ?w1 else ?w1)"
    have sc: "ScheduleCleanup (cleanup_call M) () l (s, w2) = (s', w')" "r = Inr ()"
      using assms u lp ps by (auto simp: remove_volume_def w2_def Let_def split: prod.splits if_splits)
    note rest = schedule_alone [OF sc(1), of v]
    show ?thesis
    proof (cases "p = []")
      case True
      then have "remove_act M v Unlink (s, w) = (Schedule l, s, w2)" using u lp by (simp add: w2_def)
      then show ?thesis using rest sc(2) by (metis remove_then)
    next
      case False
      have "remove_act M v (UnlinkEmit l p n) (s, ?w1) = (Schedule l, s, w2)" using False by (simp add: w2_def)
      then have "leads (remove_run M v) (UnlinkEmit l p n, s, ?w1) (RemUnlockVol r, s', w')"
        using rest unfolding sc(2) by (rule remove_then)
      moreover have "remove_act M v (UnlinkStats l p) (s, ?w1) = (UnlinkEmit l p n, s, ?w1)" using ps by simp
      ultimately have "leads (remove_run M v) (UnlinkStats l p, s, ?w1) (RemUnlockVol r, s', w')"
        by (metis remove_then)
      moreover have "remove_act M v Unlink (s, w) = (UnlinkStats l p, s, ?w1)" using u lp False by simp
      ultimately show ?thesis by (metis remove_then)
    qed
  qed
qed

lemma RemoveVolume_alone:
  assumes "RemoveVolume M v s w = ((r, s'), w')"
  shows "leads (remove_run M v) (RemLock, s, w) (RemReturned r, s', w')"
proof -
  let ?k = "volumeLockKey v"
  obtain w1 where w1: "remove_volume M v s (note_act (LockAct ?k) w) = ((r, s'), w1)" "w' = note_act (UnlockAct ?k) w1"
    using with_lock_result [of ?k "remove_volume M v s" w "(r, s')" w'] assms by (auto simp: RemoveVolume_def)
  have "leads (remove_run M v) (RemUnlockVol r, s', w1) (RemReturned r, s', w')"
    using w1(2) by (intro leads_one) simp
  with unlink_alone [OF w1(1)]
  have "leads (remove_run M v) (Unlink, s, note_act (LockAct ?k) w) (RemReturned r, s', w')" by (rule leads_trans)
  then show ?thesis by (rule remove_then [rotated]) simp
qed

section \<open>Whole calls\<close>

abbreviation thread_run ::
  "('h, 'r, 'd, 'n) library_manager \<Rightarrow> control \<times> strategy \<times> ('h, 'd, 'n) world \<Rightarrow>
   control \<times> strategy \<times> ('h, 'd, 'n) world" where
  "thread_run M \<equiv> (\<lambda>(c, s, w). thread_act M c (s, w))"

lemma Removing_alone:
  assumes "RemoveVolume M v s w = ((r, s'), w')"
  shows "leads (thread_run M) (Removing v RemLock, s, w) (Removing v (RemReturned r), s', w')"
proof -
  have "leads (thread_run M) ((\<lambda>(p, s, w). (Removing v p, s, w)) (RemLock, s, w))
      ((\<lambda>(p, s, w). (Removing v p, s, w)) (RemReturned r, s', w'))"
    by (rule leads_lift [OF RemoveVolume_alone [OF assms]]) (auto split: prod.splits)
  then show ?thesis by simp
qed

lemma Getting_alone:
  assumes "resolve_volume M v lib (note_act (LockAct (volumeLockKey v)) w) = (r, w1)"
  shows "leads (thread_run M) (Getting v lib GetLock, s, w)
    (Getting v lib (GetReturned (map_sum id fst r)), s,
     note_act (Emit (OnLibraryResolved (lib_name lib)
        (case r of Inl _ \<Rightarrow> ResolutionFailed | Inr (_, res) \<Rightarrow> res))) (note_act (UnlockAct (volumeLockKey v)) w1))"
    (is "leads _ _ (_, _, ?w3)")
proof -
  let ?w2 = "note_act (UnlockAct (volumeLockKey v)) w1"
  have "get_act M v lib GetLock w = (GetVolume, note_act (LockAct (volumeLockKey v)) w)" by simp
  moreover have "leads (get_run M v lib) (GetUnlockVol r, w1) (GetReturned (map_sum id fst r), ?w3)"
    by (rule get_then [of M v lib "GetUnlockVol r" w1 "GetReport r" ?w2]) (simp, rule get_last, simp)
  ultimately have "leads (get_run M v lib) (GetLock, w) (GetReturned (map_sum id fst r), ?w3)"
    using resolve_alone [OF assms] by (blast intro: get_then leads_trans)
  then have "leads (thread_run M) ((\<lambda>(p, w). (Getting v lib p, s, w)) (GetLock, w))
      ((\<lambda>(p, w). (Getting v lib p, s, w)) (GetReturned (map_sum id fst r), ?w3))"
    by (rule leads_lift) (auto split: prod.splits)
  then show ?thesis by simp
qed

text \<open>What a call that has returned returned.\<close>

fun returned :: "control \<Rightarrow> string res option" where
  "returned (Rejected e) = Some (Inl e)"
| "returned (Getting v lib (GetReturned r)) = Some r"
| "returned c = None"

lemma GetCall_alone:
  "\<exists>c. leads (thread_run M) (GetCall v lib, s, w) (c, s, snd (lm_GetLibraryForVolume M v lib w)) \<and>
     returned c = Some (fst (lm_GetLibraryForVolume M v lib w))"
proof (cases "v = [] \<or> lib = None")
  case True
  define e where "e = (if v = [] then Errorf ''volume ID cannot be empty'' [] else Errorf ''library cannot be nil'' [])"
  define name where "name = (case lib of None \<Rightarrow> [] | Some l \<Rightarrow> lib_name l)"
  have f: "lm_GetLibraryForVolume M v lib w =
      (Inl e, note_act (Emit (OnLibraryResolved name ResolutionFailed)) w)"
    using True by (auto simp: lm_GetLibraryForVolume_def e_def name_def)
  have "thread_act M (GetCall v lib) (s, w) = (Rejecting name e, s, w)"
    using True by (auto simp: e_def name_def)
  then have "leads (thread_run M) (GetCall v lib, s, w) (Rejected e, s, snd (lm_GetLibraryForVolume M v lib w))"
    by (intro leads_step [of _ "(GetCall v lib, s, w)"] leads_one) (simp add: f)
  then show ?thesis using f by (intro exI [of _ "Rejected e"]) simp
next
  case False
  then obtain l where l: "lib = Some l" "v \<noteq> []" by auto
  obtain r w1 where rv: "resolve_volume M v l (note_act (LockAct (volumeLockKey v)) w) = (r, w1)" by force
  have "leads (thread_run M) (GetCall v lib, s, w)
      (Getting v l (GetReturned (map_sum id fst r)), s, snd (lm_GetLibraryForVolume M v lib w))"
    using Getting_alone [OF rv, of s] l rv
    by (intro leads_step [of _ "(GetCall v lib, s, w)"]) (simp add: lm_GetLibraryForVolume_def with_lock_def)
  moreover have "fst (lm_GetLibraryForVolume M v lib w) = map_sum id fst r"
    using l rv by (simp add: lm_GetLibraryForVolume_def with_lock_def)
  ultimately show ?thesis by (intro exI [of _ "Getting v l (GetReturned (map_sum id fst r))"]) simp
qed

lemma Callback_alone:
  assumes "tryCleanupLibrary M (tm_library x) w = (r, w')"
  shows "leads (thread_run M) (Callback x CleanLock, s, w) (Resting, finish_callback x s, w')"
proof -
  have "leads (thread_run M) ((\<lambda>(p, w). (Callback x p, s, w)) (CleanLock, w))
      ((\<lambda>(p, w). (Callback x p, s, w)) (CleanReturned r, w'))"
  proof (rule leads_lift [OF clean_alone [OF assms]])
    fix y :: "clean_pc \<times> ('a, 'b, 'c) world"
    assume "clean_run M (tm_library x) y \<noteq> y"
    then show "thread_run M ((\<lambda>(p, w). (Callback x p, s, w)) y) =
        (\<lambda>(p, w). (Callback x p, s, w)) (clean_run M (tm_library x) y)"
      by (cases y; cases "fst y") (auto split: prod.splits)
  qed
  then have "leads (thread_run M) (Callback x CleanLock, s, w) (Callback x (CleanReturned r), s, w')" by simp
  then show ?thesis by (rule leads_trans) (rule leads_one, simp)
qed

section \<open>Properties\<close>

text \<open>
  C6: A call that is not interrupted is the operation: run on its own from any world, a publish, an
  unpublish and a timer's callback come to rest with the result, the strategy, the world and the
  sequence of locks and reports that \<open>GetLibraryForVolume\<close>, \<open>RemoveVolume\<close> and
  \<open>tryCleanupLibrary\<close> compute in one go.
\<close>
theorem calls_alone_refine:
  "(\<exists>c. leads (thread_run M) (GetCall v lib, s, w) (c, s, snd (lm_GetLibraryForVolume M v lib w)) \<and>
      returned c = Some (fst (lm_GetLibraryForVolume M v lib w))) \<and>
   leads (thread_run M) (Removing v RemLock, s, w)
     (Removing v (RemReturned (fst (fst (RemoveVolume M v s w)))), snd (fst (RemoveVolume M v s w)),
      snd (RemoveVolume M v s w)) \<and>
   leads (thread_run M) (Callback x CleanLock, s, w)
     (Resting, finish_callback x s, snd (tryCleanupLibrary M (tm_library x) w))"
  using GetCall_alone [of M v lib s w] Removing_alone [of M v s w] Callback_alone [of M x w]
  by (metis prod.collapse)

end
