(* ===== verification/Lib_Conc_Progress.thy ===== *)
theory Lib_Conc_Progress
  imports Lib_Conc_Props
begin

text \<open>
  Overlapping calls do not block each other for ever: a rank that every statement lowers, the
  goroutine that can always go on, and the bound on the steps until all calls have returned.
\<close>

section \<open>The rank of a control point\<close>

fun clean_rank :: "clean_pc \<Rightarrow> nat" where
  "clean_rank CleanLock = 7"
| "clean_rank CleanCheck = 6"
| "clean_rank (CleanStore info) = 5"
| "clean_rank (CleanDb info) = 4"
| "clean_rank (EvictStats info) = 3"
| "clean_rank (EvictEmit info n b) = 2"
| "clean_rank (CleanUnlock r) = 1"
| "clean_rank (CleanReturned r) = 0"

fun download_rank :: "download_pc \<Rightarrow> nat" where
  "download_rank (TempDir img) = 4"
| "download_rank (Fetch img scratch) = 3"
| "download_rank (StoreAdd scratch n) = 2"
| "download_rank (CleanScratch scratch r) = 1"

fun get_rank :: "get_pc \<Rightarrow> nat" where
  "get_rank GetLock = 20"
| "get_rank GetVolume = 19"
| "get_rank DigestLookup = 18"
| "get_rank DigestFetch = 17"
| "get_rank (DigestCache d) = 16"
| "get_rank (NewLock l) = 15"
| "get_rank (ReuseLock l) = 15"
| "get_rank (NewStored l) = 14"
| "get_rank (ReuseStored l) = 14"
| "get_rank (Downloading fresh l p) = 9 + download_rank p"
| "get_rank (Record l path n) = 9"
| "get_rank (RecordStats l path) = 8"
| "get_rank (RecordEmit l path n b) = 7"
| "get_rank (Link l path res) = 6"
| "get_rank (LinkStats l path res) = 5"
| "get_rank (LinkEmit l path res n) = 4"
| "get_rank (GetUnlockLib l r) = 3"
| "get_rank (GetUnlockVol r) = 2"
| "get_rank (GetReport r) = 1"
| "get_rank (GetReturned r) = 0"

fun remove_rank :: "remove_pc \<Rightarrow> nat" where
  "remove_rank RemLock = 14"
| "remove_rank Unlink = 13"
| "remove_rank (UnlinkStats l p) = 12"
| "remove_rank (UnlinkEmit l p n) = 11"
| "remove_rank (Schedule l) = 10"
| "remove_rank (Cleanup l p) = 2 + clean_rank p"
| "remove_rank (RemUnlockVol r) = 1"
| "remove_rank (RemReturned r) = 0"

fun rank :: "control \<Rightarrow> nat" where
  "rank Resting = 0"
| "rank (GetCall v lib) = 21"
| "rank (Rejecting n e) = 1"
| "rank (Rejected e) = 0"
| "rank (Getting v lib p) = get_rank p"
| "rank (Removing v p) = remove_rank p"
| "rank (Callback x p) = 1 + clean_rank p"

lemma clean_act_rank: "clean_rank p > 0 \<Longrightarrow> clean_rank (fst (clean_act M l p w)) < clean_rank p"
  by (cases p) (auto split: sum.splits prod.splits)

lemma download_act_rank: "get_rank (fst (download_act M lib fresh l p w)) < 9 + download_rank p"
  by (cases p) (auto simp: Let_def split: sum.splits prod.splits)

lemma get_act_rank: "get_rank p > 0 \<Longrightarrow> get_rank (fst (get_act M v lib p w)) < get_rank p"
  using download_act_rank [of M lib]
  by (cases p) (auto split: sum.splits prod.splits option.splits)

lemma remove_act_rank:
  "remove_rank p > 0 \<Longrightarrow> remove_rank (fst (remove_act M v p (s, w))) < remove_rank p"
proof (cases "\<exists>l q. p = Cleanup l q \<and> clean_rank q > 0")
  case True
  then obtain l q where q: "p = Cleanup l q" "clean_rank q > 0" by blast
  obtain q' w' where c: "clean_act M l q w = (q', w')" by force
  have "fst (remove_act M v p (s, w)) = Cleanup l q'" using q c by (cases q) auto
  then show ?thesis using clean_act_rank [OF q(2), of M l w] q(1) c by simp
next
  case False
  assume "remove_rank p > 0"
  then show ?thesis
    using False
  proof (cases p)
    case (Cleanup l q)
    then show ?thesis using False by (cases q) auto
  qed (cases s; auto split: sum.splits prod.splits)+
qed

lemma act_rank:
  assumes "\<not> at_rest c"
  shows "rank (fst (thread_act M c (s, w))) < rank c"
proof (cases c)
  case (Getting v lib p)
  have "get_rank p > 0" using assms Getting by (cases p) auto
  from get_act_rank [OF this, of M v lib w] show ?thesis using Getting by (auto split: prod.splits)
next
  case (Removing v p)
  have "remove_rank p > 0" using assms Removing by (cases p) auto
  from remove_act_rank [OF this, of M v s w] show ?thesis using Removing by (auto split: prod.splits)
next
  case (Callback x p)
  obtain q' w' where c: "clean_act M (tm_library x) p w = (q', w')" by force
  show ?thesis
  proof (cases "clean_rank p > 0")
    case True
    then have "fst (thread_act M (Callback x p) (s, w)) = Callback x q'" using c by (cases p) auto
    then show ?thesis using clean_act_rank [OF True, of M "tm_library x" w] Callback c by simp
  next
    case False
    then show ?thesis using Callback by (cases p) auto
  qed
qed (use assms in \<open>auto split: option.splits\<close>)

section \<open>The work a goroutine has left\<close>

text \<open>A session that is idle has its two sections of \<open>Lock\<close> before it; the \<open>Unlock\<close> ends later.\<close>

fun phase_work :: "phase \<Rightarrow> nat" where
  "phase_work Idle = 1"
| "phase_work (Waiting k a) = 0"
| "phase_work (Critical k a) = 0"
| "phase_work (Releasing a) = 2"

definition work :: "('t, 'h, 'd, 'n) system \<Rightarrow> 't \<Rightarrow> nat" where
  "work S t = 3 * rank (sys_pc S t) + phase_work (fst (sys_locks S) (t, VolSlot)) +
     phase_work (fst (sys_locks S) (t, LibSlot))"

lemma session_phase:
  "session_enter t k c = Some c' \<Longrightarrow> fst c t = Idle \<and> (\<exists>a. fst c' = (fst c)(t := Waiting k a))"
  "session_take t k c = Some c' \<Longrightarrow> (\<exists>a. fst c t = Waiting k a \<and> fst c' = (fst c)(t := Critical k a))"
  "session_leave t k c = Some c' \<Longrightarrow> (\<exists>a. fst c t = Critical k a) \<and>
     (\<exists>p. fst c' = (fst c)(t := p) \<and> phase_work p \<le> 2)"
  "session_free t c = Some c' \<Longrightarrow> (\<exists>a. fst c t = Releasing a) \<and> fst c' = (fst c)(t := Idle)"
  by (auto simp: session_enter_def session_take_def session_leave_def session_free_def
      split: phase.splits if_splits option.splits prod.splits)

lemma work_moved:
  assumes "\<not> at_rest (sys_pc S t)" "fst c = (fst (sys_locks S))((t, sl) := p)"
    and "phase_work p \<le> phase_work (fst (sys_locks S) (t, sl)) + 2"
  shows "work (moved t (next_act M t S) (S\<lparr>sys_locks := c\<rparr>)) t < work S t"
proof -
  have "rank (fst (next_act M t S)) < rank (sys_pc S t)"
    by (rule act_rank [OF assms(1)])
  then show ?thesis using assms(2,3) by (cases sl) (auto simp: work_def moved_def)
qed

lemma wants_calls: "wants c \<noteq> None \<Longrightarrow> \<not> at_rest c"
  by (cases c rule: at_rest.cases) auto

lemma gives_calls: "gives c \<noteq> None \<Longrightarrow> \<not> at_rest c"
  by (cases c rule: at_rest.cases) auto

lemma go_on_cases:
  assumes "go_on M room t S = Some S'"
  obtains sl c where "session_free (t, sl) (sys_locks S) = Some c" "S' = S\<lparr>sys_locks := c\<rparr>"
  | sl k c where "wants (sys_pc S t) = Some (sl, k)" "session_enter (t, sl) k (sys_locks S) = Some c"
      "S' = S\<lparr>sys_locks := c\<rparr>"
  | sl k c where "wants (sys_pc S t) = Some (sl, k)" "session_take (t, sl) k (sys_locks S) = Some c"
      "S' = moved t (next_act M t S) (S\<lparr>sys_locks := c\<rparr>)"
  | sl k c where "gives (sys_pc S t) = Some (sl, k)" "session_leave (t, sl) k (sys_locks S) = Some c"
      "S' = moved t (next_act M t S) (S\<lparr>sys_locks := c\<rparr>)"
  | "\<not> at_rest (sys_pc S t)" "wants (sys_pc S t) = None" "gives (sys_pc S t) = None"
      "links_next (sys_pc S t) \<longrightarrow> room (sys_world S)" "S' = moved t (next_act M t S) S"
  using assms unfolding go_on_def by (auto split: option.splits prod.splits if_splits)

lemma go_on_works:
  assumes "go_on M room t S = Some S'"
  shows "work S' t < work S t \<and> (\<forall>u. u \<noteq> t \<longrightarrow> work S' u = work S u)"
  using assms
proof (cases rule: go_on_cases)
  case (1 sl c)
  from session_phase(4) [OF 1(1)] 1(2) show ?thesis by (cases sl) (auto simp: work_def)
next
  case (2 sl k c)
  from session_phase(1) [OF 2(2)] 2(3) show ?thesis by (cases sl) (auto simp: work_def)
next
  case (3 sl k c)
  obtain a where a: "fst (sys_locks S) (t, sl) = Waiting k a"
      "fst c = (fst (sys_locks S))((t, sl) := Critical k a)"
    using session_phase(2) [OF 3(2)] by blast
  have "\<not> at_rest (sys_pc S t)" using wants_calls 3(1) by simp
  from work_moved [OF this a(2)] have "work S' t < work S t" unfolding 3(3) by simp
  then show ?thesis using 3(3) a(2) by (auto simp: work_def moved_def)
next
  case (4 sl k c)
  obtain a p where a: "fst (sys_locks S) (t, sl) = Critical k a"
      "fst c = (fst (sys_locks S))((t, sl) := p)" "phase_work p \<le> 2"
    using session_phase(3) [OF 4(2)] by blast
  have "\<not> at_rest (sys_pc S t)" using gives_calls 4(1) by simp
  from work_moved [OF this a(2)] have "work S' t < work S t" unfolding 4(3) using a(3) by simp
  then show ?thesis using 4(3) a(2) by (auto simp: work_def moved_def)
next
  case 5
  have "work (moved t (next_act M t S) (S\<lparr>sys_locks := sys_locks S\<rparr>)) t < work S t"
    by (rule work_moved [OF 5(1), of _ VolSlot "fst (sys_locks S) (t, VolSlot)"]) (simp_all add: fun_upd_idem)
  then show ?thesis using 5(5) by (auto simp: work_def moved_def)
qed

section \<open>Sessions and goroutines in use\<close>

definition waits_ok :: "('t, 'h, 'd, 'n) system \<Rightarrow> bool" where
  "waits_ok S \<longleftrightarrow>
     (\<forall>t sl k a. fst (sys_locks S) (t, sl) = Waiting k a \<longrightarrow> wants (sys_pc S t) = Some (sl, k))"

definition busy :: "('t, 'h, 'd, 'n) system \<Rightarrow> 't set" where
  "busy S = {t. sys_pc S t \<noteq> Resting \<or> (\<exists>sl. fst (sys_locks S) (t, sl) \<noteq> Idle)}"

section \<open>The names of libraries\<close>

text \<open>The libraries a control point names, and a property \<open>P\<close> of all names in the system.\<close>

fun get_names :: "get_pc \<Rightarrow> string set" where
  "get_names (ReuseLock l) = {l}"
| "get_names (DigestCache l) = {l}"
| "get_names (NewLock l) = {l}"
| "get_names p = set_option (get_library_lock p)"

fun remove_names :: "remove_pc \<Rightarrow> string set" where
  "remove_names (UnlinkStats l p) = {l}"
| "remove_names (UnlinkEmit l p n) = {l}"
| "remove_names (Schedule l) = {l}"
| "remove_names (Cleanup l p) = {l}"
| "remove_names p = {}"

fun control_names :: "control \<Rightarrow> string set" where
  "control_names (Getting v lib p) = get_names p"
| "control_names (Removing v p) = remove_names p"
| "control_names (Callback x p) = {tm_library x}"
| "control_names c = {}"

definition world_names ::
  "(string \<Rightarrow> bool) \<Rightarrow> ('h, 'r, 'd, 'n) library_manager \<Rightarrow> strategy \<Rightarrow> ('h, 'd, 'n) world \<Rightarrow> bool" where
  "world_names P M s w \<longleftrightarrow>
     cache_for P (w_cache w) \<and> timers_for P s \<and> (\<forall>l. \<not> P l \<longrightarrow> users (lm_ledger M w) l = {})"

definition digests_named :: "(string \<Rightarrow> bool) \<Rightarrow> ('h, 'r, 'd, 'n) library_manager \<Rightarrow> bool" where
  "digests_named P M \<longleftrightarrow>
     (\<forall>n img d n'. crane_digest (lm_net M) n img = (Inr d, n') \<longrightarrow> has_prefix d ''sha256:'' \<longrightarrow>
        P (trim_prefix d ''sha256:''))"

lemma digests_named_fetch:
  "digests_named P M \<Longrightarrow> downloader_FetchDigest (lm_net M) img n = (Inr d, n') \<Longrightarrow> P d"
  by (auto simp: digests_named_def downloader_FetchDigest_def split: prod.splits sum.splits if_splits)

lemma library_locked_named: "library_locked c = Some l \<Longrightarrow> l \<in> control_names c"
proof (cases c)
  case (Getting v lib p)
  then show "library_locked c = Some l \<Longrightarrow> l \<in> control_names c" by (cases p) auto
next
  case (Removing v p)
  then show "library_locked c = Some l \<Longrightarrow> l \<in> control_names c" by (cases p) (auto split: if_splits)
qed (auto split: if_splits)

lemma clean_act_cache: "w_cache (snd (clean_act M l p w)) = w_cache w"
  by (cases p) (auto split: sum.splits prod.splits)

lemma download_act_names:
  "get_names (fst (download_act M lib fresh l p w)) = {l} \<and>
   w_cache (snd (download_act M lib fresh l p w)) = w_cache w"
  by (cases p) (auto simp: Let_def dest!: clock_fields split: sum.splits prod.splits)

context manager
begin

lemma get_act_names:
  assumes "get_act M v lib p w = (p', w')" "digests_named P M" "cache_for P (w_cache w)"
    and "\<forall>l\<in>get_names p. P l" "\<And>l. linked_to M v l w \<Longrightarrow> P l" "safe M w"
  shows "cache_for P (w_cache w') \<and> (\<forall>l\<in>get_names p'. P l)"
proof (cases p)
  case GetVolume
  show ?thesis
  proof (cases "db_GetLibraryForVolume (lm_json M) (lm_db M) v (w_db w)")
    case (Inl e)
    then show ?thesis using assms GetVolume by auto
  next
    case (Inr l)
    then have "l \<noteq> [] \<Longrightarrow> linked_to M v l w"
      using volume_of [OF Inr assms(6)] by (auto simp: linked_to_def)
    then show ?thesis using assms GetVolume Inr by (auto split: if_splits)
  qed
next
  case DigestLookup
  obtain d c1 n1 where k: "cache_lookup (lm_net M) (lib_pull lib) (Image lib) (w_cache w) (w_net w) = (d, c1, n1)"
    using prod_cases3 by blast
  from lookup_for [OF k assms(3)] show ?thesis
    using assms DigestLookup k by (auto split: option.splits if_splits)
next
  case DigestFetch
  then show ?thesis
    using assms digests_named_fetch [OF assms(2)] by (auto split: sum.splits prod.splits)
next
  case (DigestCache d)
  then show ?thesis using assms cached_for by (auto split: prod.splits)
next
  case (Downloading fresh l q)
  then show ?thesis using assms download_act_names [of M lib fresh l q w] by simp
next
  case (Link l path res)
  then show ?thesis using assms by (auto dest!: clock_fields split: sum.splits prod.splits)
qed (use assms in \<open>auto split: sum.splits prod.splits if_splits\<close>)

lemma remove_act_names:
  assumes "remove_act M v p (s, w) = (p', s', w')" "timers_for P s" "strategy_ok s"
    and "\<forall>l\<in>remove_names p. P l" "\<And>l. linked_to M v l w \<Longrightarrow> P l" "safe M w"
  shows "w_cache w' = w_cache w \<and> timers_for P s' \<and> (\<forall>l\<in>remove_names p'. P l)"
proof (cases p)
  case Unlink
  obtain r d where u: "UnlinkVolume (lm_json M) (lm_db M) v (w_db w) = (r, d)" by force
  show ?thesis
  proof (cases r)
    case (Inl e)
    then show ?thesis using assms Unlink u by auto
  next
    case (Inr q)
    obtain l package where q: "q = (l, package)" by force
    have "l \<noteq> [] \<Longrightarrow> linked_to M v l w"
      using unlink_safe [OF u assms(6)] Inr q by (auto simp: linked_to_def split: option.splits)
    then show ?thesis using assms Unlink u Inr q by (auto split: if_splits)
  qed
next
  case (Schedule l)
  obtain q t where q: "schedule_act l s = (q, t)" by force
  have "P l" using assms(4) Schedule by simp
  from strategy_of_schedule [where P = P, OF q assms(3,2) this] show ?thesis
    using assms(1) Schedule q \<open>P l\<close> by auto
next
  case (Cleanup l q)
  show ?thesis
  proof (cases "\<exists>r. q = CleanReturned r")
    case True
    then show ?thesis using assms Cleanup by auto
  next
    case False
    obtain q' w1 where q': "clean_act M l q w = (q', w1)" by force
    have "p' = Cleanup l q'" "s' = s" "w' = w1"
      using assms(1) Cleanup False q' by (cases q; simp)+
    then show ?thesis using clean_act_cache [of M l q w] q' assms(2,4) Cleanup by simp
  qed
qed (use assms in \<open>auto split: prod.splits\<close>)

lemma thread_act_names:
  assumes "thread_act M c (s, w) = (c', s', w')" "digests_named P M" "world_names P M s w"
    and "\<forall>l\<in>control_names c. P l" "safe M w" "strategy_ok s"
    and "guar M (volume_locked c) (library_locked c) w w'"
  shows "world_names P M s' w' \<and> (\<forall>l\<in>control_names c'. P l)"
proof -
  have linked: "P l" if "linked_to M v l w" for v l
    using that assms(3) by (auto simp: linked_to_def world_names_def users_def)
  have users: "users (lm_ledger M w') l = {}" if "\<not> P l" for l
  proof -
    have "library_locked c \<noteq> Some l" using library_locked_named assms(4) that by blast
    then have "users (lm_ledger M w') l \<subseteq> users (lm_ledger M w) l" using assms(7) by (simp add: guar_def)
    then show ?thesis using assms(3) that by (auto simp: world_names_def)
  qed
  have wn: "cache_for P (w_cache w)" "timers_for P s" using assms(3) by (simp_all add: world_names_def)
  have "cache_for P (w_cache w') \<and> timers_for P s' \<and> (\<forall>l\<in>control_names c'. P l)"
  proof (cases c)
    case (Getting v lib p)
    obtain p' w1 where p': "get_act M v lib p w = (p', w1)" by force
    have "\<forall>l\<in>get_names p. P l" using assms(4) Getting by simp
    note k = get_act_names [where P = P, OF p' assms(2) wn(1) this linked [of v] assms(5)]
    have "c' = Getting v lib p'" "s' = s" "w' = w1" using assms(1) Getting p' by simp_all
    then show ?thesis using k wn by simp
  next
    case (Removing v p)
    obtain p' s1 w1 where p': "remove_act M v p (s, w) = (p', s1, w1)" using prod_cases3 by blast
    have "\<forall>l\<in>remove_names p. P l" using assms(4) Removing by simp
    note k = remove_act_names [where P = P, OF p' wn(2) assms(6) this linked [of v] assms(5)]
    have "c' = Removing v p'" "s' = s1" "w' = w1" using assms(1) Removing p' by simp_all
    then show ?thesis using k wn by simp
  next
    case (Callback x p)
    show ?thesis
    proof (cases "\<exists>r. p = CleanReturned r")
      case True
      then show ?thesis using assms(1) Callback finish_callback_ok [where P = P, OF assms(6) wn(2)] wn by auto
    next
      case False
      obtain q' w1 where q': "clean_act M (tm_library x) p w = (q', w1)" by force
      have "c' = Callback x q'" "s' = s" "w' = w1"
        using assms(1) Callback False q' by (cases p; simp)+
      then show ?thesis using clean_act_cache [of M "tm_library x" p w] q' assms(4) Callback wn by simp
    qed
  qed (use assms(1) wn in \<open>auto split: if_splits option.splits\<close>)
  then show ?thesis using users by (simp add: world_names_def)
qed

section \<open>The invariant of progress\<close>

definition live_inv :: "(string \<Rightarrow> bool) \<Rightarrow> ('t, 'h, 'd, 'n) system \<Rightarrow> bool" where
  "live_inv P S \<longleftrightarrow>
     system_inv S \<and> waits_ok S \<and> finite (busy S) \<and> world_names P M (sys_strategy S) (sys_world S) \<and>
     (\<forall>t. \<forall>l\<in>control_names (sys_pc S t). P l)"

lemma rest_names: "at_rest c \<Longrightarrow> control_names c = {} \<and> wants c = None"
  by (cases c rule: at_rest.cases) auto

lemma busy_finite:
  assumes "finite (busy S)" "\<And>u. u \<noteq> t \<Longrightarrow> sys_pc S' u = sys_pc S u"
    and "\<And>u sl. u \<noteq> t \<Longrightarrow> fst (sys_locks S') (u, sl) = fst (sys_locks S) (u, sl)"
  shows "finite (busy S')"
proof (rule finite_subset)
  show "busy S' \<subseteq> insert t (busy S)" using assms(2,3) by (auto simp: busy_def)
qed (use assms(1) in simp)

lemma moved_names:
  assumes "live_inv P S" "digests_named P M" "links_next (sys_pc S t) \<Longrightarrow> room_for_link M (sys_world S)"
  shows "world_names P M (sys_strategy (moved t (next_act M t S) (S\<lparr>sys_locks := c\<rparr>)))
      (sys_world (moved t (next_act M t S) (S\<lparr>sys_locks := c\<rparr>))) \<and>
    (\<forall>u. \<forall>l\<in>control_names (sys_pc (moved t (next_act M t S) (S\<lparr>sys_locks := c\<rparr>)) u). P l)"
proof -
  obtain p' s' w' where act: "next_act M t S = (p', s', w')" using prod_cases3 by blast
  have inv: "safe M (sys_world S)" "strategy_ok (sys_strategy S)" "timers_plain (sys_strategy S)"
      "control_ok M base (sys_pc S t) (sys_world S)"
    using assms(1) by (simp_all add: live_inv_def system_inv_def)
  have "guar M (volume_locked (sys_pc S t)) (library_locked (sys_pc S t)) (sys_world S) w'"
    using thread_act_ok [OF act inv assms(3)] by blast
  moreover have "world_names P M (sys_strategy S) (sys_world S)" "\<forall>l\<in>control_names (sys_pc S t). P l"
    using assms(1) by (simp_all add: live_inv_def)
  ultimately have "world_names P M s' w' \<and> (\<forall>l\<in>control_names p'. P l)"
    using thread_act_names [OF act assms(2)] inv(1,2) by blast
  then show ?thesis using assms(1) act by (auto simp: moved_def live_inv_def)
qed

lemma waitsD: "waits_ok S \<Longrightarrow> fst (sys_locks S) (t, sl) = Waiting k a \<Longrightarrow> wants (sys_pc S t) = Some (sl, k)"
  unfolding waits_ok_def by blast

lemma no_waiting: "waits_ok S \<Longrightarrow> wants (sys_pc S t) = None \<Longrightarrow> fst (sys_locks S) (t, sl) \<noteq> Waiting k a"
  using waitsD by fastforce

lemma waits_other:
  assumes "waits_ok S" "\<And>u. u \<noteq> t \<Longrightarrow> sys_pc S' u = sys_pc S u"
    and "\<And>u sl k a. u \<noteq> t \<Longrightarrow> fst (sys_locks S') (u, sl) = fst (sys_locks S) (u, sl)"
    and "\<And>sl k a. fst (sys_locks S') (t, sl) = Waiting k a \<Longrightarrow> wants (sys_pc S' t) = Some (sl, k)"
  shows "waits_ok S'"
  using assms unfolding waits_ok_def by metis

lemma live_pc:
  assumes "live_inv P S" "system_inv S'" "at_rest (sys_pc S t)" "\<forall>l\<in>control_names p. P l"
    and "S' = S\<lparr>sys_pc := (sys_pc S)(t := p)\<rparr>"
  shows "live_inv P S'"
proof -
  have waits: "waits_ok S" using assms(1) by (simp add: live_inv_def)
  have "wants (sys_pc S t) = None" using rest_names [OF assms(3)] by simp
  note none = no_waiting [OF waits this]
  have "waits_ok S'"
  proof (rule waits_other [OF waits, of t])
    show "wants (sys_pc S' t) = Some (sl, k)" if "fst (sys_locks S') (t, sl) = Waiting k a" for sl k a
      using that none [of sl k a] by (simp add: assms(5))
  qed (simp_all add: assms(5))
  moreover have "finite (busy S')"
  proof (rule busy_finite [of S t])
    show "finite (busy S)" using assms(1) by (simp add: live_inv_def)
  qed (simp_all add: assms(5))
  ultimately show ?thesis using assms by (simp add: live_inv_def)
qed

lemma live_locks:
  assumes "live_inv P S" "system_inv (S\<lparr>sys_locks := c\<rparr>)"
    and "fst c = (fst (sys_locks S))((t, sl) := p)" "\<And>k a. p = Waiting k a \<Longrightarrow> wants (sys_pc S t) = Some (sl, k)"
  shows "live_inv P (S\<lparr>sys_locks := c\<rparr>)"
proof -
  have w: "waits_ok S" "finite (busy S)" using assms(1) by (simp_all add: live_inv_def)
  have "waits_ok (S\<lparr>sys_locks := c\<rparr>)"
  proof (rule waits_other [OF w(1), of t])
    show "wants (sys_pc (S\<lparr>sys_locks := c\<rparr>) t) = Some (sl', k)"
      if "fst (sys_locks (S\<lparr>sys_locks := c\<rparr>)) (t, sl') = Waiting k a" for sl' k a
      using that assms(3,4) waitsD [OF w(1), of t sl' k a] by (cases "sl' = sl") simp_all
  qed (simp_all add: assms(3))
  moreover have "finite (busy (S\<lparr>sys_locks := c\<rparr>))"
    by (rule busy_finite [of S t, OF w(2)]) (simp_all add: assms(3))
  ultimately show ?thesis using assms by (simp add: live_inv_def)
qed

lemma live_moved:
  assumes "live_inv P S" "digests_named P M" "system_inv (moved t (next_act M t S) (S\<lparr>sys_locks := c\<rparr>))"
    and "links_next (sys_pc S t) \<Longrightarrow> room_for_link M (sys_world S)"
    and "\<And>u sl. u \<noteq> t \<Longrightarrow> fst c (u, sl) = fst (sys_locks S) (u, sl)"
    and "\<And>sl k a. fst c (t, sl) \<noteq> Waiting k a"
  shows "live_inv P (moved t (next_act M t S) (S\<lparr>sys_locks := c\<rparr>))" (is "live_inv P ?S")
proof -
  have "waits_ok S" "finite (busy S)" using assms(1) by (simp_all add: live_inv_def)
  have "waits_ok ?S"
    by (rule waits_other [of S t, OF \<open>waits_ok S\<close>]) (simp_all add: moved_def assms(5,6))
  moreover have "finite (busy ?S)"
    by (rule busy_finite [of S t, OF \<open>finite (busy S)\<close>]) (simp_all add: moved_def assms(5))
  ultimately show ?thesis
    using moved_names [OF assms(1,2,4)] assms(3) by (simp add: live_inv_def)
qed

lemma live_step:
  assumes "conc_step M S S'" "live_inv P S" "digests_named P M"
  shows "live_inv P S'"
proof -
  have inv: "system_inv S" and waits: "waits_ok S" using assms(2) by (simp_all add: live_inv_def)
  have inv': "system_inv S'" by (rule conc_step_inv [OF assms(1) inv])
  show ?thesis
    using assms(1)
  proof cases
    case (begin_get t v lib)
    then show ?thesis by (intro live_pc [OF assms(2) inv' begin_get(2)]) simp_all
  next
    case (begin_remove t v)
    then show ?thesis by (intro live_pc [OF assms(2) inv' begin_remove(2)]) simp_all
  next
    case (expire s n)
    then show ?thesis
      using assms(2) inv' by (auto simp: live_inv_def waits_ok_def busy_def world_names_def delayed_for_expire)
  next
    case (claim s x)
    then show ?thesis
      using assms(2) inv' by (auto simp: live_inv_def waits_ok_def busy_def world_names_def delayed_for_claim)
  next
    case (begin_callback t s x)
    have "P (tm_library x)" using assms(2) begin_callback by (auto simp: live_inv_def world_names_def delayed_for_def)
    then show ?thesis using begin_callback by (intro live_pc [OF assms(2) inv' begin_callback(2)]) simp_all
  next
    case (arrive t sl k c)
    obtain a where a: "fst c = (fst (sys_locks S))((t, sl) := Waiting k a)"
      using session_phase(1) [OF arrive(4)] by blast
    have "system_inv (S\<lparr>sys_locks := c\<rparr>)" using inv' arrive by simp
    from live_locks [OF assms(2) this a] show ?thesis unfolding arrive(1) using arrive(2) by simp
  next
    case (take_lock t sl k c)
    obtain a where a: "fst c = (fst (sys_locks S))((t, sl) := Critical k a)"
      using session_phase(2) [OF take_lock(3)] by blast
    have "fst c (t, sl') \<noteq> Waiting k' a'" for sl' k' a'
      using a waitsD [OF waits, of t] take_lock(2) by auto
    moreover have "\<not> links_next (sys_pc S t)"
      using take_lock(2) by (cases "sys_pc S t" rule: links_next.cases) auto
    ultimately show ?thesis
      unfolding take_lock(1) using inv' take_lock(1) a by (intro live_moved [OF assms(2,3)]) auto
  next
    case (start_unlock t sl k c)
    obtain a p where a: "fst c = (fst (sys_locks S))((t, sl) := p)" "phase_work p \<le> 2"
      using session_phase(3) [OF start_unlock(4)] by blast
    have "p \<noteq> Waiting k' a'" for k' a'
      using start_unlock(4) a(1) by (auto simp: session_leave_def fun_eq_iff split: phase.splits if_splits option.splits prod.splits)
    then have "fst c (t, sl') \<noteq> Waiting k' a'" for sl' k' a'
      using a no_waiting [OF waits gives_not_wants [OF start_unlock(2)]] by auto
    moreover have "\<not> links_next (sys_pc S t)"
      using start_unlock(2) by (cases "sys_pc S t" rule: links_next.cases) auto
    ultimately show ?thesis
      unfolding start_unlock(1) using inv' start_unlock(1) a by (intro live_moved [OF assms(2,3)]) auto
  next
    case (end_unlock t sl c)
    have c: "fst c = (fst (sys_locks S))((t, sl) := Idle)" using session_phase(4) [OF end_unlock(2)] by blast
    have "system_inv (S\<lparr>sys_locks := c\<rparr>)" using inv' end_unlock by simp
    from live_locks [OF assms(2) this c] show ?thesis unfolding end_unlock(1) by simp
  next
    case (statement t)
    have "system_inv (moved t (next_act M t S) (S\<lparr>sys_locks := sys_locks S\<rparr>))" using inv' statement(1) by simp
    from live_moved [OF assms(2,3) this statement(6) refl no_waiting [OF waits statement(3)]]
    show ?thesis unfolding statement(1) by simp
  qed
qed

lemma live_run:
  "(conc_step M)\<^sup>*\<^sup>* S S' \<Longrightarrow> live_inv P S \<Longrightarrow> digests_named P M \<Longrightarrow> live_inv P S'"
  by (induction rule: rtranclp_induct) (auto intro: live_step)

lemma live_initial:
  assumes "mgr_ok M (s, w)" "world_names P M s w"
  shows "live_inv P (initial_system s w)"
  using assms initial_inv [OF assms(1)]
  by (simp add: live_inv_def initial_system_def waits_ok_def busy_def all_idle_def)

end

section \<open>Some goroutine can go on\<close>

lemma wants_key:
  assumes "wants c = Some (sl, k)"
  shows "locked_keys c sl = None \<and> (sl = LibSlot \<longrightarrow> k \<in> control_names c)"
proof (cases c)
  case (Getting v lib p)
  then show ?thesis using assms by (cases p) auto
next
  case (Removing v p)
  show ?thesis
  proof (cases p)
    case (Cleanup l q)
    then show ?thesis using assms Removing by (cases q) auto
  qed (use assms Removing in auto)
next
  case (Callback x p)
  then show ?thesis using assms by (cases p) auto
qed (use assms in auto)

lemma gives_key:
  assumes "gives c = Some (sl, k)"
  shows "locked_keys c sl = Some k"
proof (cases c)
  case (Getting v lib p)
  then show ?thesis using assms by (cases p) auto
next
  case (Removing v p)
  show ?thesis
  proof (cases p)
    case (Cleanup l q)
    then show ?thesis using assms Removing by (cases q) auto
  qed (use assms Removing in auto)
next
  case (Callback x p)
  then show ?thesis using assms by (cases p) auto
qed (use assms in auto)

text \<open>The lock of a library is the last one a call takes.\<close>

lemma library_lock_last:
  assumes "library_locked c = Some l"
  shows "wants c = None"
proof (cases c)
  case (Getting v lib p)
  then show ?thesis using assms by (cases p) auto
next
  case (Removing v p)
  show ?thesis
  proof (cases p)
    case (Cleanup l q)
    then show ?thesis using assms Removing by (cases q) auto
  qed (use assms Removing in auto)
next
  case (Callback x p)
  then show ?thesis using assms by (cases p) auto
qed (use assms in auto)

lemma volume_lock_first:
  assumes "volume_locked c = Some v" "wants c = Some (sl, k)"
  shows "sl = LibSlot"
proof (cases c)
  case (Getting v lib p)
  then show ?thesis using assms by (cases p) auto
next
  case (Removing v p)
  show ?thesis
  proof (cases p)
    case (Cleanup l q)
    then show ?thesis using assms Removing by (cases q) auto
  qed (use assms Removing in auto)
qed (use assms in auto)

lemma free_goes_on: "\<not> quiet (sys_locks S) t \<Longrightarrow> go_on M room t S \<noteq> None"
  by (auto simp: quiet_def go_on_def split: option.splits)

lemma quiet_free: "quiet c t \<Longrightarrow> session_free (t, sl) c = None"
  by (cases sl) (simp_all add: quiet_def)

lemma statement_goes_on:
  assumes "quiet (sys_locks S) t" "\<not> at_rest (sys_pc S t)" "wants (sys_pc S t) = None"
    and "\<And>sl k. gives (sys_pc S t) = Some (sl, k) \<Longrightarrow> session_holds (sys_locks S) (t, sl) = Some k"
    and "links_next (sys_pc S t) \<Longrightarrow> room (sys_world S)"
  shows "go_on M room t S \<noteq> None"
proof (cases "gives (sys_pc S t)")
  case None
  then show ?thesis using assms by (simp add: go_on_def quiet_free)
next
  case (Some g)
  obtain sl k where g: "g = (sl, k)" by force
  then have "session_holds (sys_locks S) (t, sl) = Some k" using assms(4) Some by simp
  then obtain a where "fst (sys_locks S) (t, sl) = Critical k a"
    by (auto simp: session_holds_def split: phase.splits)
  then have "session_leave (t, sl) k (sys_locks S) \<noteq> None"
    by (auto simp: session_leave_def split: prod.splits option.splits)
  then show ?thesis using assms Some g by (auto simp: go_on_def quiet_free)
qed

lemma lock_goes_on:
  assumes "locker_inv (sys_locks S)" "\<forall>u. quiet (sys_locks S) u" "wants (sys_pc S t) = Some (sl, k)"
    and "session_holds (sys_locks S) (t, sl) = None"
    and "\<And>j a. fst (sys_locks S) (t, sl) = Waiting j a \<Longrightarrow> j = k"
  shows "go_on M room t S \<noteq> None \<or> (\<exists>u sl'. session_holds (sys_locks S) (u, sl') = Some k)"
proof (cases "fst (sys_locks S) (t, sl)")
  case Idle
  then have "session_enter (t, sl) k (sys_locks S) \<noteq> None"
    by (auto simp: session_enter_def split: prod.splits)
  then show ?thesis using assms(2,3) by (auto simp: go_on_def quiet_free)
next
  case (Waiting j a)
  then have j: "j = k" using assms(5) by blast
  obtain pc l where c: "sys_locks S = (pc, l)" by force
  note I = inv_entry [OF assms(1) [unfolded c]]
  show ?thesis
  proof (cases "mu (heap l a)")
    case None
    then have "session_take (t, sl) k (sys_locks S) \<noteq> None"
      using Waiting j c by (simp add: session_take_def acquire_def)
    moreover have "session_enter (t, sl) k (sys_locks S) = None"
      using Waiting by (simp add: session_enter_def)
    ultimately show ?thesis using assms(2,3) by (auto simp: go_on_def quiet_free)
  next
    case (Some u)
    have "holds_mu (pc u) a" using I(4) Some by simp
    moreover have "pc u \<noteq> Releasing a"
      using assms(2) quiet_free [of "sys_locks S" "fst u" "snd u"] c by (auto simp: session_free_def)
    ultimately obtain i where i: "pc u = Critical i a" by (auto simp: holds_mu_def)
    have "i = k" using I(1) [of u i a] I(1) [of "(t, sl)" j a] I(3) i Waiting c j by auto
    then have "session_holds (sys_locks S) (fst u, snd u) = Some k" using i c by (simp add: session_holds_def)
    then show ?thesis by blast
  qed
next
  case (Critical j a)
  then show ?thesis using assms(4) by (simp add: session_holds_def)
next
  case (Releasing a)
  then show ?thesis using assms(2) quiet_free [of "sys_locks S" t sl] by (simp add: session_free_def)
qed

context manager
begin

lemma not_stuck:
  assumes live: "live_inv P S" and names: "\<And>l. P l \<Longrightarrow> \<forall>v. l \<noteq> volumeLockKey v"
    and room: "\<And>u. links_next (sys_pc S u) \<Longrightarrow> room (sys_world S)"
    and t: "\<not> at_rest (sys_pc S t) \<or> (\<exists>sl. fst (sys_locks S) (t, sl) \<noteq> Idle)"
  shows "\<exists>u. go_on M room u S \<noteq> None"
proof (rule ccontr)
  assume stuck: "\<not> (\<exists>u. go_on M room u S \<noteq> None)"
  have quiet: "\<forall>u. quiet (sys_locks S) u" using free_goes_on [of S _ M room] stuck by auto
  have inv: "system_inv S" "waits_ok S" using live by (simp_all add: live_inv_def)
  have lk: "locker_inv (sys_locks S)" using inv(1) by (simp add: system_inv_def)
  have holds: "session_holds (sys_locks S) (u, sl) = locked_keys (sys_pc S u) sl" for u sl
    using inv(1) by (simp add: system_inv_def)
  have wants: "wants (sys_pc S u) \<noteq> None" if "\<not> at_rest (sys_pc S u)" for u
  proof
    assume none: "wants (sys_pc S u) = None"
    have "go_on M room u S \<noteq> None"
      by (rule statement_goes_on [OF _ that none])
         (use quiet gives_key holds room [of u] in simp_all)
    then show False using stuck by blast
  qed
  have holder: "\<exists>u sl'. locked_keys (sys_pc S u) sl' = Some k" if "wants (sys_pc S u) = Some (sl, k)" for u sl k
    using lock_goes_on [OF lk quiet that, of M room] wants_key [OF that] holds waitsD [OF inv(2), of u sl] that stuck
    by fastforce
  have library_free: "library_locked (sys_pc S u) = None" for u
  proof (cases "library_locked (sys_pc S u)")
    case (Some l)
    then have "wants (sys_pc S u) = None" by (rule library_lock_last)
    moreover have "\<not> at_rest (sys_pc S u)" using rest_no_keys [of "sys_pc S u" LibSlot] Some by auto
    ultimately show ?thesis using wants by blast
  qed
  have no_library: "wants (sys_pc S u) \<noteq> Some (LibSlot, l)" for u l
  proof
    assume w: "wants (sys_pc S u) = Some (LibSlot, l)"
    then have "P l" using wants_key [OF w] live by (auto simp: live_inv_def)
    then have "l \<noteq> volumeLockKey v" for v using names by blast
    moreover obtain u' sl' where "locked_keys (sys_pc S u') sl' = Some l" using holder [OF w] by blast
    ultimately show False using library_free by (cases sl') auto
  qed
  have "at_rest (sys_pc S u)" for u
  proof (rule ccontr)
    assume "\<not> at_rest (sys_pc S u)"
    then obtain sl k where w: "wants (sys_pc S u) = Some (sl, k)" using wants by (metis option.exhaust surj_pair)
    then obtain u' sl' where k: "locked_keys (sys_pc S u') sl' = Some k" using holder by blast
    then have "\<not> at_rest (sys_pc S u')" using rest_no_keys [of "sys_pc S u'" sl'] by auto
    then obtain sl2 k2 where w2: "wants (sys_pc S u') = Some (sl2, k2)" using wants by (metis option.exhaust surj_pair)
    show False
    proof (cases sl')
      case VolSlot
      then have "sl2 = LibSlot" using k volume_lock_first [OF _ w2] by auto
      then show False using no_library w2 by blast
    next
      case LibSlot
      then show False using k library_free by simp
    qed
  qed
  moreover have "fst (sys_locks S) (u, sl) = Idle" for u sl
  proof (cases "fst (sys_locks S) (u, sl)")
    case (Waiting k a)
    then show ?thesis using waitsD [OF inv(2)] rest_names [OF calculation, of u] by fastforce
  next
    case (Critical k a)
    then have "locked_keys (sys_pc S u) sl = Some k" using holds [of u sl] by (simp add: session_holds_def)
    then show ?thesis using rest_no_keys [OF calculation, of u sl] by simp
  next
    case (Releasing a)
    then show ?thesis using quiet quiet_free [of "sys_locks S" u sl] by (simp add: session_free_def)
  qed
  ultimately show False using t by blast
qed

lemma thread_act_dom:
  assumes "thread_act M c (s, w) = (c', s', w')" "safe M w" "lg_vols (lm_ledger M w') u \<noteq> None"
  shows "lg_vols (lm_ledger M w) u \<noteq> None \<or> (\<exists>lib l path res. c = Getting u lib (Link l path res))"
proof (cases "lg_vols (lm_ledger M w') u = lg_vols (lm_ledger M w) u")
  case True
  then show ?thesis using assms(3) by simp
next
  case False
  show ?thesis
  proof (cases "c = Removing u Unlink")
    case True
    obtain r d where k: "UnlinkVolume (lm_json M) (lm_db M) u (w_db w) = (r, d)" by force
    have "w_db w' = d" using assms(1) True k by (auto split: sum.splits prod.splits)
    then have "lg_vols (lm_ledger M w') u = lg_vols (lm_ledger M w) u \<or> lg_vols (lm_ledger M w') u = None"
      using unlink_safe [OF k assms(2)] by (cases r) (auto split: prod.splits)
    then show ?thesis using False assms(3) by simp
  next
    case False': False
    then show ?thesis using thread_act_records [OF assms(1,2) False] by blast
  qed
qed

end

section \<open>Room for the links that may still be made\<close>

fun may_link :: "control \<Rightarrow> bool" where
  "may_link (GetCall v lib) = True"
| "may_link (Getting v lib p) = (get_rank p \<ge> 6)"
| "may_link c = False"

definition links_room :: "('h, 'r, 'd, 'n) library_manager \<Rightarrow> ('t, 'h, 'd, 'n) system \<Rightarrow> bool" where
  "links_room M S \<longleftrightarrow>
     int (card (dom (lg_vols (lm_ledger M (sys_world S))))) + int (card {t. may_link (sys_pc S t)}) < 2 ^ 63"

lemma may_link_act:
  "may_link (fst (thread_act M c (s, w))) \<Longrightarrow> may_link c \<and> \<not> links_next c"
proof (cases c)
  case (Getting v lib p)
  assume a: "may_link (fst (thread_act M c (s, w)))"
  have "get_rank p > 0" using a Getting by (cases p) auto
  from get_act_rank [OF this, of M v lib w] show ?thesis
    using a Getting by (cases p) (auto split: prod.splits)
next
  case (Callback x p)
  assume "may_link (fst (thread_act M c (s, w)))"
  then show ?thesis using Callback by (cases p) (auto split: prod.splits)
qed (auto split: prod.splits if_splits option.splits)

lemma links_next_may: "links_next c \<Longrightarrow> may_link c"
  by (cases c rule: links_next.cases) auto

context manager
begin

lemma busy_may_link:
  assumes "live_inv P S"
  shows "finite {t. may_link (sys_pc S t)}"
proof (rule finite_subset)
  show "{t. may_link (sys_pc S t)} \<subseteq> busy S" by (auto simp: busy_def)
qed (use assms in \<open>simp add: live_inv_def\<close>)

lemma links_room_next:
  assumes "live_inv P S" "links_room M S" "links_next (sys_pc S t)"
  shows "room_for_link M (sys_world S)"
proof -
  have "t \<in> {t. may_link (sys_pc S t)}" using links_next_may [OF assms(3)] by simp
  then have "card {t. may_link (sys_pc S t)} > 0" using busy_may_link [OF assms(1)] card_gt_0_iff by blast
  then show ?thesis using assms(2) by (simp add: links_room_def room_for_link_def)
qed

lemma moved_room:
  assumes "live_inv P S" "links_room M S"
  shows "links_room M (moved t (next_act M t S) (S\<lparr>sys_locks := c\<rparr>))"
proof -
  obtain c' s' w' where act: "next_act M t S = (c', s', w')" using prod_cases3 by blast
  let ?S = "moved t (next_act M t S) (S\<lparr>sys_locks := c\<rparr>)"
  let ?A = "{u. may_link (sys_pc S u)}" and ?A' = "{u. may_link (sys_pc ?S u)}"
  let ?D = "dom (lg_vols (lm_ledger M (sys_world S)))" and ?D' = "dom (lg_vols (lm_ledger M w'))"
  have safe: "safe M (sys_world S)" using assms(1) by (simp add: live_inv_def system_inv_def)
  have finD: "finite ?D" using safe by (simp add: safe_def consistent_def)
  have finA: "finite ?A" by (rule busy_may_link [OF assms(1)])
  note mla = may_link_act [of M "sys_pc S t" "sys_strategy S" "sys_world S"]
  have A': "?A' \<subseteq> ?A" using mla by (auto simp: moved_def)
  have "card ?D' + card ?A' \<le> card ?D + card ?A"
  proof (cases "links_next (sys_pc S t)")
    case False
    have "?D' \<subseteq> ?D" using thread_act_dom [OF act safe] False by fastforce
    then show ?thesis using A' finD finA by (simp add: add_mono card_mono)
  next
    case True
    then obtain v lib l path res where p: "sys_pc S t = Getting v lib (Link l path res)"
      by (cases "sys_pc S t" rule: links_next.cases) auto
    have "?D' \<subseteq> insert v ?D" using thread_act_dom [OF act safe] p by fastforce
    then have "card ?D' \<le> Suc (card ?D)"
      using finD card_mono [of "insert v ?D" ?D'] by (simp add: card_insert_if split: if_splits)
    moreover have "?A' \<subseteq> ?A - {t}" using mla True by (auto simp: moved_def)
    then have "card ?A' \<le> card (?A - {t})" using finA by (intro card_mono) simp_all
    moreover have "Suc (card (?A - {t})) = card ?A"
      using finA links_next_may [OF True] by (intro card_Suc_Diff1) simp_all
    ultimately show ?thesis by simp
  qed
  then have "int (card ?D') + int (card ?A') \<le> int (card ?D) + int (card ?A)" by linarith
  then show ?thesis using assms(2) act by (simp add: links_room_def moved_def)
qed

lemma go_on_live:
  assumes "go_on M (room_for_link M) t S = Some S'" "live_inv P S" "digests_named P M" "links_room M S"
  shows "live_inv P S' \<and> links_room M S'"
proof
  show "live_inv P S'" by (rule live_step [OF go_on_step [OF assms(1)] assms(2,3)]) simp
  have same: "links_room M (S\<lparr>sys_locks := c\<rparr>)" for c using assms(4) by (simp add: links_room_def)
  have "links_room M (moved t (next_act M t S) S)"
    using moved_room [OF assms(2,4), of t "sys_locks S"] by simp
  with assms(1) show "links_room M S'"
    by (cases rule: go_on_cases) (simp_all add: same moved_room [OF assms(2,4)])
qed

lemma go_on_busy:
  assumes "go_on M room t S = Some S'"
  shows "t \<in> busy S"
  using assms
proof (cases rule: go_on_cases)
  case (1 sl c)
  then have "fst (sys_locks S) (t, sl) \<noteq> Idle" using session_phase(4) [OF 1(1)] by auto
  then show ?thesis unfolding busy_def by blast
next
  case (2 sl k c)
  then show ?thesis by (auto simp: busy_def)
next
  case (3 sl k c)
  then show ?thesis by (auto simp: busy_def)
next
  case (4 sl k c)
  then show ?thesis by (auto simp: busy_def)
next
  case 5
  then show ?thesis by (auto simp: busy_def)
qed

lemma schedule_bound:
  assumes "run_schedule M (room_for_link M) ts S = Some S'" "live_inv P S" "digests_named P M"
    and "links_room M S" "busy S \<subseteq> A" "finite A"
  shows "live_inv P S' \<and> links_room M S' \<and> length ts + (\<Sum>t\<in>A. work S' t) \<le> (\<Sum>t\<in>A. work S t)"
  using assms(1,2,4,5)
proof (induction ts arbitrary: S)
  case Nil
  then show ?case by simp
next
  case (Cons t ts)
  then obtain S1 where S1: "go_on M (room_for_link M) t S = Some S1" "run_schedule M (room_for_link M) ts S1 = Some S'"
    by (auto simp: bind_eq_Some_conv)
  note works = go_on_works [OF S1(1)]
  have t: "t \<in> A" using go_on_busy [OF S1(1)] Cons.prems(4) by blast
  have live1: "live_inv P S1 \<and> links_room M S1" by (rule go_on_live [OF S1(1) Cons.prems(2) assms(3) Cons.prems(3)])
  have "busy S1 \<subseteq> insert t (busy S)"
    using S1(1)
  proof (cases rule: go_on_cases)
    case (1 sl c)
    then show ?thesis using session_phase(4) [OF 1(1)] by (auto simp: busy_def split: if_splits)
  next
    case (2 sl k c)
    then show ?thesis using session_phase(1) [OF 2(2)] by (auto simp: busy_def split: if_splits)
  next
    case (3 sl k c)
    then show ?thesis using session_phase(2) [OF 3(2)] by (auto simp: busy_def moved_def split: if_splits)
  next
    case (4 sl k c)
    then show ?thesis using session_phase(3) [OF 4(2)] by (auto simp: busy_def moved_def split: if_splits)
  next
    case 5
    then show ?thesis by (auto simp: busy_def moved_def split: if_splits)
  qed
  then have "busy S1 \<subseteq> A" using Cons.prems(4) t by blast
  then have IH: "live_inv P S' \<and> links_room M S' \<and> length ts + (\<Sum>t\<in>A. work S' t) \<le> (\<Sum>t\<in>A. work S1 t)"
    using Cons.IH [OF S1(2)] live1 by blast
  have "(\<Sum>t\<in>A. work S1 t) < (\<Sum>t\<in>A. work S t)"
  proof (rule sum_strict_mono_ex1 [OF assms(6)])
    show "\<forall>u\<in>A. work S1 u \<le> work S u" using works by (metis less_imp_le order_refl)
    show "\<exists>u\<in>A. work S1 u < work S u" using works t by blast
  qed
  then show ?case using IH by simp
qed

end

section \<open>Properties\<close>

text \<open>A digest is no key of a volume's lock.\<close>

definition free_name :: "string \<Rightarrow> bool" where
  "free_name l \<longleftrightarrow> \<not> has_prefix l ''volume:''"

lemma free_name_key: "free_name l \<Longrightarrow> \<forall>v. l \<noteq> volumeLockKey v"
  by (auto simp: free_name_def volumeLockKey_def has_prefix_def)

lemma phase_work_le: "phase_work p \<le> 2"
  by (cases p) simp_all

lemma rank_le: "rank c \<le> 21"
proof (cases c)
  case (Getting v lib p)
  have "9 + download_rank q \<le> 21" for q by (cases q) simp_all
  then show ?thesis using Getting by (cases p) auto
next
  case (Removing v p)
  have "2 + clean_rank q \<le> 21" for q by (cases q) simp_all
  then show ?thesis using Removing by (cases p) auto
next
  case (Callback x p)
  then show ?thesis by (cases p) auto
qed simp_all

lemma work_le: "work S t \<le> 67"
  using rank_le [of "sys_pc S t"] phase_work_le [of "fst (sys_locks S) (t, VolSlot)"]
    phase_work_le [of "fst (sys_locks S) (t, LibSlot)"]
  by (simp add: work_def)

text \<open>
  C4: Overlapping calls neither deadlock nor run for ever: as long as no library is named like the
  key of a volume's lock, the calls that have begun in a reachable state, left to themselves, make
  at most 67 steps each under any schedule, and whenever some of them has not returned and given
  back its locks, one of the goroutines can go on. So every schedule ends with all calls returned.
\<close>
theorem conc_calls_return:
  assumes "manager M base" "mgr_ok M (s, w)" "world_names free_name M s w" "digests_named free_name M"
    and "(conc_step M)\<^sup>*\<^sup>* (initial_system s w) S" "links_room M S"
    and "run_schedule M (room_for_link M) ts S = Some S'"
  shows "length ts \<le> 67 * card (busy S) \<and>
    (at_rest (sys_pc S' t) \<and> (\<forall>sl. fst (sys_locks S') (t, sl) = Idle) \<or>
     (\<exists>u. go_on M (room_for_link M) u S' \<noteq> None))"
proof -
  note m = assms(1)
  have live: "manager.live_inv M base free_name S"
    using manager.live_run [OF m assms(5) manager.live_initial [OF m assms(2,3)] assms(4)] .
  then have fin: "finite (busy S)" by (simp add: manager.live_inv_def [OF m])
  note b = manager.schedule_bound [OF m assms(7) live assms(4,6) order_refl fin]
  have "(\<Sum>t\<in>busy S. work S t) \<le> of_nat (card (busy S)) * 67" by (rule sum_bounded_above) (rule work_le)
  then have len: "length ts \<le> 67 * card (busy S)" using b by (simp add: mult.commute)
  have room: "room_for_link M (sys_world S')" if "links_next (sys_pc S' u)" for u
    using b that by (blast intro: manager.links_room_next [OF m])
  have "\<exists>u. go_on M (room_for_link M) u S' \<noteq> None"
    if "\<not> (at_rest (sys_pc S' t) \<and> (\<forall>sl. fst (sys_locks S') (t, sl) = Idle))"
    by (rule manager.not_stuck [where P = free_name and room = "room_for_link M" and t = t and M = M and base = base])
       (use m b that free_name_key room in auto)
  then show ?thesis using len by blast
qed

lemma demo_names: "world_names free_name mem_manager Immediate demo_world"
proof -
  have "free_name ''aa''" by code_simp
  then have "users (lm_ledger mem_manager demo_world) l = {}" if "\<not> free_name l" for l
    using that by (auto simp: users_def demo_world_def demo_ledger split: if_splits)
  then show ?thesis by (simp add: world_names_def cache_for_def demo_world_def)
qed

lemma mem_digests: "digests_named free_name mem_manager"
proof -
  have "CHR '':'' \<notin> set l \<Longrightarrow> free_name l" for l
    by (auto simp: free_name_def has_prefix_def prefix_def)
  then show ?thesis
    by (auto simp: digests_named_def mem_network_def split: option.splits if_splits)
qed

lemma demo_start_room: "links_room mem_manager demo_start"
proof -
  have "sys_world demo_start = demo_world" by (simp add: demo_start_def initial_system_def)
  moreover have "{t. may_link (sys_pc demo_start t)} = {False}"
    by (auto simp: demo_start_def split: if_splits)
  ultimately show ?thesis by (simp only: links_room_def demo_vols) simp
qed

lemma go_on_mono:
  assumes "go_on M room t S = Some S'" "\<And>w. room w \<Longrightarrow> room' w"
  shows "go_on M room' t S = Some S'"
  using assms unfolding go_on_def by (auto split: option.splits if_splits)

lemma run_schedule_mono:
  assumes "run_schedule M room ts S = Some S'" "\<And>w. room w \<Longrightarrow> room' w"
  shows "run_schedule M room' ts S = Some S'"
  using assms(1)
proof (induction ts arbitrary: S)
  case (Cons t ts)
  then obtain S1 where S1: "go_on M room t S = Some S1" "run_schedule M room ts S1 = Some S'"
    by (auto simp: bind_eq_Some_conv)
  then show ?case using Cons.IH [OF S1(2)] go_on_mono [OF S1(1) assms(2)] by simp
qed simp

theorem conc_calls_return_witness:
  "\<exists>u. go_on mem_manager (room_for_link mem_manager) u demo_mid \<noteq> None"
proof -
  have run: "run_schedule mem_manager (room_for_link mem_manager) (replicate 3 True @ replicate 21 False) demo_start =
      Some demo_mid"
    by (rule run_schedule_mono [OF demo_mid_run mem_room_ok])
  have "\<not> at_rest (sys_pc demo_mid False)" by (simp add: demo_mid_facts(2))
  then show ?thesis
    using conc_calls_return [OF mem_mgr.manager_axioms demo_mgr_ok demo_names mem_digests demo_start_reach
        demo_start_room run, of False] by blast
qed

end
