(* ===== verification/Test_Util.thy ===== *)
theory Test_Util
  imports Host_Os
begin

text \<open>
  \<open>pkg/testutil\<close>, the helpers the tests of the driver rest on: the listing of a directory, a local
  registry that may ask for credentials, and a scratch directory. A \<open>require\<close> that fails ends the
  test, which is \<open>None\<close> here.
\<close>

section \<open>The files of a directory\<close>

text \<open>
  A directory tree as \<open>filepath.WalkDir\<close> sees it: entries in the order \<open>ReadDir\<close> gives them, and
  directories that cannot be read. \<open>walk\<close> is the list of calls it makes: the path, whether it is
  a directory, and an error.
\<close>

datatype dir_tree =
    FileEntry
  | DirEntry "(string \<times> dir_tree) list"
  | BadDir goerr

fun walk :: "string \<Rightarrow> dir_tree \<Rightarrow> (string \<times> bool \<times> goerr option) list" where
  "walk p FileEntry = [(p, False, None)]"
| "walk p (DirEntry es) = (p, True, None) # concat (map (\<lambda>(n, t). walk (path_join [p, n]) t) es)"
| "walk p (BadDir e) = [(p, True, None), (p, True, Some e)]"

definition list_visit :: "string \<Rightarrow> string \<times> bool \<times> goerr option \<Rightarrow> string list \<Rightarrow> string list option" where
  "list_visit dir v files =
     (case v of (path, is_dir, err) \<Rightarrow>
        if err \<noteq> None then None
        else if path = dir then Some files
        else if is_dir then Some files
        else (case path_rel dir path of Inl e \<Rightarrow> None | Inr rel \<Rightarrow> Some (files @ [rel])))"

fun list_visits :: "string \<Rightarrow> (string \<times> bool \<times> goerr option) list \<Rightarrow> string list \<Rightarrow> string list option" where
  "list_visits dir [] files = Some files"
| "list_visits dir (v # vs) files = Option.bind (list_visit dir v files) (list_visits dir vs)"

definition ListFiles :: "string \<Rightarrow> dir_tree \<Rightarrow> string list option" where
  "ListFiles dir t = list_visits dir (walk dir t) []"

text \<open>What it should list: the files as lists of names.\<close>

fun leaves :: "dir_tree \<Rightarrow> string list list" where
  "leaves FileEntry = [[]]"
| "leaves (DirEntry es) = concat (map (\<lambda>(n, t). map ((#) n) (leaves t)) es)"
| "leaves (BadDir e) = []"

fun proper :: "dir_tree \<Rightarrow> bool" where
  "proper FileEntry = True"
| "proper (DirEntry es) = (\<forall>(n, t)\<in>set es. plain n \<and> proper t)"
| "proper (BadDir e) = False"

lemma list_visits_append:
  "list_visits dir (xs @ ys) files = Option.bind (list_visits dir xs files) (list_visits dir ys)"
  by (induction xs arbitrary: files) (auto split: Option.bind_splits)

lemma list_visit_dir [simp]: "list_visit dir (p, True, None) files = Some files"
  by (simp add: list_visit_def)

lemma list_visits_walk:
  assumes "proper t" "\<forall>w\<in>set ds. plain w" "\<forall>w\<in>set ws. plain w" "ws \<noteq> []"
  shows "list_visits (abs_path ds) (walk (abs_path (ds @ ws)) t) files =
    Some (files @ map (\<lambda>vs. join_on slash (ws @ vs)) (leaves t))"
  using assms
proof (induction t arbitrary: ws files)
  case FileEntry
  then have "abs_path (ds @ ws) \<noteq> abs_path ds"
    by (metis abs_path_inject Un_iff append_self_conv set_append)
  then show ?case using FileEntry path_rel_below [of ds ws] by (simp add: list_visit_def)
next
  case (DirEntry es)
  have "list_visits (abs_path ds) (concat (map (\<lambda>(n, t). walk (path_join [abs_path (ds @ ws), n]) t) xs)) files =
      Some (files @ map (\<lambda>vs. join_on slash (ws @ vs)) (leaves (DirEntry xs)))"
    if "set xs \<subseteq> set es" for xs files
    using that
  proof (induction xs arbitrary: files)
    case (Cons x xs)
    obtain n t where x: "x = (n, t)" by force
    then have nt: "(n, t) \<in> set es" "t \<in> Basic_BNFs.snds (n, t)" using Cons.prems by auto
    then have ok: "plain n" "proper t" using DirEntry.prems(1) by auto
    have "path_join [abs_path (ds @ ws), n] = abs_path (ds @ (ws @ [n]))"
      using path_join_abs [of "ds @ ws" n] DirEntry.prems(2,3) ok(1) by auto
    moreover have "list_visits (abs_path ds) (walk (abs_path (ds @ (ws @ [n]))) t) files =
        Some (files @ map (\<lambda>vs. join_on slash ((ws @ [n]) @ vs)) (leaves t))"
      by (rule DirEntry.IH [OF nt ok(2) DirEntry.prems(2)]) (use DirEntry.prems(3) ok(1) in auto)
    ultimately show ?case
      using Cons x by (simp add: list_visits_append comp_def)
  qed simp
  from this [of es] show ?case by (simp del: leaves.simps)
qed simp

section \<open>The local registry\<close>

text \<open>
  The server answers requests of type \<open>'q\<close>, with the credentials of the \<open>Authorization\<close> header; the
  registry behind it is a library and a parameter, as is the URL the server listens on.
\<close>

record 'q http_request =
  BasicAuth :: "(string \<times> string) option"
  rq_rest :: 'q

record http_response =
  rs_status :: nat
  rs_headers :: "(string \<times> string) list"
  rs_body :: string

record local_registry =
  lr_url :: string
  lr_registry :: string
  lr_username :: string
  lr_password :: string

definition newLocalRegistry :: "string \<Rightarrow> string \<Rightarrow> string \<Rightarrow> local_registry" where
  "newLocalRegistry url username password =
     \<lparr>lr_url = url, lr_registry = trim_prefix url ''http://'', lr_username = username, lr_password = password\<rparr>"

definition registry_serve ::
  "string \<Rightarrow> string \<Rightarrow> ('q http_request \<Rightarrow> 'w \<Rightarrow> http_response \<times> 'w) \<Rightarrow> 'q http_request \<Rightarrow> 'w \<Rightarrow>
   http_response \<times> 'w" where
  "registry_serve username password registryHandler req w =
     (if username \<noteq> [] \<and>
         (case BasicAuth req of
            None \<Rightarrow> True
          | Some (gotUsername, gotPassword) \<Rightarrow> gotUsername \<noteq> username \<or> gotPassword \<noteq> password)
      then (\<lparr>rs_status = 401, rs_headers = [(''WWW-Authenticate'', ''Basic realm=\"registry\"'')],
             rs_body = ''unauthorized''\<rparr>, w)
      else registryHandler req w)"

definition NewLocalRegistry :: "string \<Rightarrow> local_registry" where
  "NewLocalRegistry url = newLocalRegistry url [] []"

definition NewAuthenticatedLocalRegistry :: "string \<Rightarrow> string \<Rightarrow> string \<Rightarrow> local_registry" where
  "NewAuthenticatedLocalRegistry url username password = newLocalRegistry url username password"

definition lr_Registry :: "local_registry \<Rightarrow> string" where
  "lr_Registry r = lr_registry r"

text \<open>
  \<open>NewTag\<close> parses the reference and prints it again, \<open>ImageFromPath\<close> loads an image, and \<open>Push\<close> sends
  it with or without credentials; all three are library code.
\<close>

definition push_auth :: "local_registry \<Rightarrow> (string \<times> string) option" where
  "push_auth r = (if lr_username r \<noteq> [] then Some (lr_username r, lr_password r) else None)"

definition AddImage ::
  "(string \<Rightarrow> string res) \<Rightarrow> (string \<Rightarrow> 'i res) \<Rightarrow>
   ('i \<Rightarrow> string \<Rightarrow> (string \<times> string) option \<Rightarrow> 'w \<Rightarrow> goerr option \<times> 'w) \<Rightarrow>
   local_registry \<Rightarrow> string \<Rightarrow> string \<Rightarrow> string \<Rightarrow> 'w \<Rightarrow> string option \<times> 'w" where
  "AddImage NewTag ImageFromPath Push r tarPath name version w =
     (let image = lr_registry r @ ''/'' @ name @ '':'' @ version in
      case NewTag image of
        Inl e \<Rightarrow> (None, w)
      | Inr ref \<Rightarrow>
          (case ImageFromPath tarPath of
             Inl e \<Rightarrow> (None, w)
           | Inr img \<Rightarrow>
               (case Push img ref (push_auth r) w of
                  (Some e, w') \<Rightarrow> (None, w')
                | (None, w') \<Rightarrow> (Some image, w'))))"

text \<open>What a registry is pushed to with its own credentials reaches the handler, other requests do not.\<close>

lemma registry_admits_own:
  "BasicAuth req = push_auth r \<Longrightarrow>
   registry_serve (lr_username r) (lr_password r) handler req w = handler req w"
  by (simp add: registry_serve_def push_auth_def split: if_splits)

lemma registry_refuses:
  assumes "lr_username r \<noteq> []" "BasicAuth req \<noteq> Some (lr_username r, lr_password r)"
  shows "rs_status (fst (registry_serve (lr_username r) (lr_password r) handler req w)) = 401 \<and>
    snd (registry_serve (lr_username r) (lr_password r) handler req w) = w"
  using assms by (auto simp: registry_serve_def split: option.splits)

section \<open>The scratch directory\<close>

text \<open>The state of a \<open>TempScratchDirectory\<close> is its path.\<close>

definition NewTempScratchDirectory :: "'h host \<Rightarrow> 'h \<Rightarrow> string option \<times> 'h" where
  "NewTempScratchDirectory H h =
     (case os_temp_dir H h [] ''csi-driver-test-*'' of
        (Inl e, h') \<Rightarrow> (None, h')
      | (Inr testPath, h') \<Rightarrow> (Some testPath, h'))"

definition tsd_Path :: "string \<Rightarrow> string" where
  "tsd_Path tsd = tsd"

definition tsd_Cleanup :: "'h host \<Rightarrow> string \<Rightarrow> 'h \<Rightarrow> unit option \<times> 'h" where
  "tsd_Cleanup H tsd h =
     (case os_remove_all H h tsd of
        (Some e, h') \<Rightarrow> (None, h')
      | (None, h') \<Rightarrow> (Some (), h'))"

section \<open>Properties\<close>

text \<open>
  The listing the tests compare with is exact: for a directory that can be read throughout,
  \<open>ListFiles\<close> gives the path of every file below it, relative to it and in the order of the walk,
  and nothing else; when a directory below it cannot be read, the test fails instead of comparing a
  part of the listing.
\<close>
theorem list_files_exact:
  assumes "\<forall>w\<in>set ds. plain w" "proper (DirEntry es)"
  shows "ListFiles (abs_path ds) (DirEntry es) = Some (map (join_on slash) (leaves (DirEntry es))) \<and>
    ListFiles (abs_path ds) (DirEntry (es @ (n, BadDir e) # fs)) = None"
proof -
  have step: "list_visits (abs_path ds) (concat (map (\<lambda>(n, t). walk (path_join [abs_path ds, n]) t) xs)) files =
      Some (files @ map (join_on slash) (leaves (DirEntry xs)))"
    if "set xs \<subseteq> set es" for xs files
    using that
  proof (induction xs arbitrary: files)
    case (Cons x xs)
    obtain n t where x: "x = (n, t)" by force
    then have ok: "plain n" "proper t" using Cons.prems assms(2) by auto
    have "path_join [abs_path ds, n] = abs_path (ds @ [n])" using path_join_abs assms(1) ok(1) by simp
    then show ?case
      using Cons x list_visits_walk [OF ok(2) assms(1), of "[n]"] ok(1)
      by (simp add: list_visits_append comp_def)
  qed simp
  show ?thesis
    using step [of es "[]"] by (simp add: ListFiles_def list_visits_append list_visit_def del: leaves.simps split: Option.bind_splits)
qed

theorem list_files_exact_witness:
  "ListFiles ''/x'' (DirEntry [(''a'', FileEntry), (''d'', DirEntry [(''b'', FileEntry)])]) = Some [''a'', ''d/b'']"
proof -
  let ?es = "[(''a'', FileEntry), (''d'', DirEntry [(''b'', FileEntry)])]"
  have plain: "plain ''a''" "plain ''b''" "plain ''d''" "plain ''x''" by code_simp+
  then have "\<forall>w\<in>set [''x'']. plain w" "proper (DirEntry ?es)" by simp_all
  from list_files_exact [OF this] have "ListFiles (abs_path [''x'']) (DirEntry ?es) =
      Some (map (join_on slash) (leaves (DirEntry ?es)))" by blast
  then show ?thesis by (simp add: abs_path_def slash_def)
qed

end
